(* ===== verification/Prelude.thy ===== *)
theory Prelude
  imports Main "HOL-Library.Word"
begin

text \<open>
  Shared vocabulary of the development: Go's fixed-width integers as words, byte slices and
  strings as lists of bytes, Go's \<open>copy\<close> and slicing expressions on buffers, and the
  little-endian accessors of \<open>encoding/binary\<close>.  The lemmas on buffers say what a slice
  of a buffer is after a field of it was written; they are collected in \<open>buf_simps\<close> and
  carry the proofs about the packet layout.
\<close>

unbundle bit_operations_syntax

type_synonym u8 = "8 word"
type_synonym u16 = "16 word"
type_synonym u32 = "32 word"
type_synonym u64 = "64 word"
type_synonym i32 = "32 word"
type_synonym bytes = "u8 list"
type_synonym gostring = "u8 list"

named_theorems buf_simps

section \<open>String literals\<close>

text \<open>A Go string is a sequence of bytes; \<open>gostr\<close> reads an ASCII literal.\<close>

definition gostr :: "string \<Rightarrow> gostring" where
  "gostr s = map of_char s"

lemma length_gostr [simp]: "length (gostr s) = length s"
  by (simp add: gostr_def)

lemma gostr_Nil [simp]: "gostr [] = []"
  by (simp add: gostr_def)

lemma gostr_eq_Nil [simp]: "gostr s = [] \<longleftrightarrow> s = []"
  by (simp add: gostr_def)

section \<open>Slices of buffers\<close>

text \<open>\<open>gosub a b xs\<close> is the slice expression \<open>xs[a:b]\<close>, used only where it is in range.\<close>

definition gosub :: "nat \<Rightarrow> nat \<Rightarrow> 'a list \<Rightarrow> 'a list" where
  "gosub a b xs = take (b - a) (drop a xs)"

text \<open>
  \<open>copy_into lo hi src buf\<close> is \<open>copy(buf[lo:hi], src)\<close>: it copies as many bytes as both
  sides have.
\<close>

definition copy_into :: "nat \<Rightarrow> nat \<Rightarrow> 'a list \<Rightarrow> 'a list \<Rightarrow> 'a list" where
  "copy_into lo hi src buf =
     take lo buf @ take (hi - lo) src @ drop (lo + min (hi - lo) (length src)) buf"

lemma length_gosub: "b \<le> length xs \<Longrightarrow> length (gosub a b xs) = b - a"
  by (simp add: gosub_def)

lemma nth_gosub: "b \<le> length xs \<Longrightarrow> i < b - a \<Longrightarrow> gosub a b xs ! i = xs ! (a + i)"
  by (simp add: gosub_def)

lemma length_copy_into [simp, buf_simps]:
  "lo \<le> hi \<Longrightarrow> hi \<le> length buf \<Longrightarrow> length (copy_into lo hi src buf) = length buf"
  by (simp add: copy_into_def min_def)

lemma nth_copy_into:
  assumes "lo \<le> hi" and "hi \<le> length buf" and "i < length buf"
  shows "copy_into lo hi src buf ! i =
    (if lo \<le> i \<and> i < lo + min (hi - lo) (length src) then src ! (i - lo) else buf ! i)"
proof -
  let ?n = "min (hi - lo) (length src)"
  consider "i < lo" | "lo \<le> i" "i < lo + ?n" | "lo + ?n \<le> i" by linarith
  then show ?thesis
  proof cases
    case 1
    then show ?thesis using assms by (simp add: copy_into_def nth_append)
  next
    case 2
    then show ?thesis using assms by (auto simp add: copy_into_def nth_append)
  next
    case 3
    then have "\<not> i < lo" and "\<not> i - lo < ?n" and "lo + ?n + (i - lo - ?n) = i" by linarith+
    then show ?thesis using assms 3
      by (auto simp add: copy_into_def nth_append min.commute)
  qed
qed

lemma gosub_copy_same:
  assumes "lo \<le> hi" and "hi \<le> length buf" and "length src = hi - lo"
  shows "gosub lo hi (copy_into lo hi src buf) = src"
  using assms by (simp add: gosub_def copy_into_def)

lemma gosub_copy_other:
  assumes "lo \<le> hi" and "hi \<le> length buf" and "b \<le> lo \<or> hi \<le> a" and "b \<le> length buf"
  shows "gosub a b (copy_into lo hi src buf) = gosub a b buf"
proof (rule nth_equalityI)
  show "length (gosub a b (copy_into lo hi src buf)) = length (gosub a b buf)"
    using assms by (simp add: length_gosub)
next
  fix i assume "i < length (gosub a b (copy_into lo hi src buf))"
  then have i: "i < b - a" using assms by (simp add: length_gosub)
  then have "\<not> (lo \<le> a + i \<and> a + i < lo + min (hi - lo) (length src))"
    using assms by auto
  then show "gosub a b (copy_into lo hi src buf) ! i = gosub a b buf ! i"
    using assms i by (auto simp add: nth_gosub nth_copy_into)
qed

lemma gosub_list_update:
  assumes "i < a \<or> b \<le> i"
  shows "gosub a b (xs[i := x]) = gosub a b xs"
proof (cases "i < a")
  case True
  then show ?thesis by (simp add: gosub_def)
next
  case False
  with assms have "i \<ge> b" by simp
  then show ?thesis using False
    by (simp add: gosub_def drop_update_swap)
qed

lemma nth_copy_before:
  "lo \<le> hi \<Longrightarrow> hi \<le> length buf \<Longrightarrow> i < lo \<Longrightarrow> copy_into lo hi src buf ! i = buf ! i"
  by (simp add: nth_copy_into)

lemma nth_copy_after:
  "lo \<le> hi \<Longrightarrow> hi \<le> length buf \<Longrightarrow> hi \<le> i \<Longrightarrow> i < length buf \<Longrightarrow>
   copy_into lo hi src buf ! i = buf ! i"
  by (auto simp add: nth_copy_into)

text \<open>A slice of the concatenation of two adjacent slices.\<close>

lemma gosub_split:
  "a \<le> m \<Longrightarrow> m \<le> b \<Longrightarrow> gosub a b xs = gosub a m xs @ gosub m b xs"
proof -
  assume "a \<le> m" "m \<le> b"
  then have 1: "b - a = (m - a) + (b - m)" and 2: "m - a + a = m" by simp_all
  show ?thesis unfolding gosub_def by (subst 1) (simp only: take_add drop_drop 2)
qed

lemma gosub_full: "b = length xs \<Longrightarrow> gosub a b xs = drop a xs"
  by (simp add: gosub_def)

lemma gosub_replicate: "b \<le> n \<Longrightarrow> gosub a b (replicate n x) = replicate (b - a) x"
  by (simp add: gosub_def)

lemma copy_into_short:
  assumes "lo \<le> hi" and "hi \<le> length buf"
  shows "gosub lo hi (copy_into lo hi src buf) =
    take (hi - lo) src @ drop (length src) (gosub lo hi buf)"
proof (cases "hi - lo \<le> length src")
  case True
  then show ?thesis using assms by (simp add: gosub_def copy_into_def)
next
  case False
  then have "lo + length src \<le> hi" using assms by simp
  then show ?thesis using False assms
    by (simp add: gosub_def copy_into_def drop_take add.commute)
qed

section \<open>Little-endian integers\<close>

text \<open>
  \<open>le n w\<close> is the byte string that \<open>binary.LittleEndian.PutUint16/32/64\<close> writes (for
  \<open>n\<close> = 2, 4, 8), and \<open>unle\<close> is \<open>binary.LittleEndian.Uint16/32/64\<close>.
\<close>

fun le :: "nat \<Rightarrow> 'a::len word \<Rightarrow> bytes" where
  "le 0 w = []"
| "le (Suc n) w = ucast w # le n (drop_bit 8 w)"

fun unle :: "bytes \<Rightarrow> 'a::len word" where
  "unle [] = 0"
| "unle (b # bs) = ucast b OR push_bit 8 (unle bs)"

lemma length_le [simp, buf_simps]: "length (le n w) = n"
  by (induction n arbitrary: w) auto

lemma take_bit_8_split:
  fixes w :: "'a::len word"
  shows "take_bit (8 * Suc n) w = ucast (ucast w :: u8) OR push_bit 8 (take_bit (8 * n) (drop_bit 8 w))"
  by (rule bit_word_eqI) (auto simp add: bit_simps)

lemma unle_le: "unle (le n w) = take_bit (8 * n) w"
proof (induction n arbitrary: w)
  case 0
  then show ?case by simp
next
  case (Suc n)
  show ?case by (simp only: le.simps unle.simps Suc.IH take_bit_8_split)
qed

lemma unle_le_exact: "8 * n = LENGTH('a) \<Longrightarrow> unle (le n (w :: 'a::len word)) = w"
  by (simp add: unle_le)

lemma unle_bound: "bit (unle bs :: 'a::len word) k \<Longrightarrow> k < 8 * length bs"
proof (induction bs arbitrary: k)
  case Nil
  then show ?case by simp
next
  case (Cons b bs)
  then consider "bit (ucast b :: 'a word) k" | "bit (push_bit 8 (unle bs) :: 'a word) k"
    by (auto simp add: bit_or_iff)
  then show ?case
  proof cases
    case 1
    then have "k < 8" by (auto simp add: bit_simps dest: bit_imp_le_length)
    then show ?thesis by simp
  next
    case 2
    then have "8 \<le> k" and "bit (unle bs :: 'a word) (k - 8)"
      by (auto simp add: bit_simps)
    then show ?thesis using Cons.IH [of "k - 8"] by simp
  qed
qed

lemma le_unle: "8 * length bs \<le> LENGTH('a) \<Longrightarrow> le (length bs) (unle bs :: 'a::len word) = bs"
proof (induction bs)
  case Nil
  then show ?case by simp
next
  case (Cons b bs)
  have hd: "(ucast (unle (b # bs) :: 'a word) :: u8) = b"
    using Cons.prems by (intro bit_word_eqI) (auto simp add: bit_simps)
  have "drop_bit 8 (unle (b # bs) :: 'a word) = unle bs"
  proof (rule bit_word_eqI)
    fix k assume k: "k < LENGTH('a)"
    have "\<not> bit b (8 + k)" using bit_imp_le_length [of b "8 + k"] by auto
    moreover have "bit (unle bs :: 'a word) k \<Longrightarrow> 8 + k < LENGTH('a)"
      using unle_bound [of bs k, where 'a = 'a] Cons.prems by auto
    ultimately show "bit (drop_bit 8 (unle (b # bs) :: 'a word)) k \<longleftrightarrow> bit (unle bs :: 'a word) k"
      by (auto simp add: bit_simps)
  qed
  moreover have "le (length bs) (unle bs :: 'a word) = bs"
    using Cons by simp
  ultimately show ?case using hd by simp
qed

section \<open>Systems with an invariant\<close>

text \<open>
  A component whose steps keep an invariant: the interface between the components and what is
  proved about all their runs.
\<close>

locale invariant_system =
  fixes step :: "'s \<Rightarrow> 's \<Rightarrow> bool"
    and inv :: "'s \<Rightarrow> bool"
  assumes step_inv: "inv s \<Longrightarrow> step s t \<Longrightarrow> inv t"
begin

lemma run_inv: "step\<^sup>*\<^sup>* s t \<Longrightarrow> inv s \<Longrightarrow> inv t"
  by (induction rule: rtranclp_induct) (auto intro: step_inv)

end

text \<open>A component that stops for good once it is in a final state.\<close>

locale stopping_system = invariant_system step inv
  for step :: "'s \<Rightarrow> 's \<Rightarrow> bool" and inv :: "'s \<Rightarrow> bool" +
  fixes final :: "'s \<Rightarrow> bool"
  assumes final_stuck: "final s \<Longrightarrow> \<not> step s t"
begin

lemma final_run: "step\<^sup>*\<^sup>* s t \<Longrightarrow> final s \<Longrightarrow> t = s"
  by (induction rule: rtranclp_induct) (auto dest: final_stuck)

end

end
