(* ===== verification/Runs.thy ===== *)
theory Runs
  imports Prelude
begin

text \<open>
  Runs of a system whose steps have labels (the callbacks a step makes, a packet sent or got), and
  the two interfaces for them: a system with an invariant, and a detailed system that an
  abstract one simulates step by step with the same labels.
\<close>

section \<open>Runs\<close>

inductive lrun :: "('s \<Rightarrow> 'l \<Rightarrow> 's \<Rightarrow> bool) \<Rightarrow> 's \<Rightarrow> 'l list \<Rightarrow> 's \<Rightarrow> bool" for step where
  nil: "lrun step s [] s"
| snoc: "lrun step s ls t \<Longrightarrow> step t l u \<Longrightarrow> lrun step s (ls @ [l]) u"

lemma lrun_one: "step s l t \<Longrightarrow> lrun step s [l] t"
  using lrun.snoc [OF lrun.nil] by fastforce

lemma lrun_append: "lrun step t ms u \<Longrightarrow> lrun step s ls t \<Longrightarrow> lrun step s (ls @ ms) u"
proof (induction rule: lrun.induct)
  case (snoc t ms u l v)
  then show ?case using lrun.snoc [of step s "ls @ ms" u l v] by simp
qed simp

lemma lrun_cons: "step s l t \<Longrightarrow> lrun step t ms u \<Longrightarrow> lrun step s (l # ms) u"
  using lrun_append [OF _ lrun_one] by fastforce

section \<open>Invariants\<close>

locale labelled_invariant =
  fixes step :: "'s \<Rightarrow> 'l \<Rightarrow> 's \<Rightarrow> bool"
    and inv :: "'s \<Rightarrow> bool"
  assumes step_keeps: "inv s \<Longrightarrow> step s l t \<Longrightarrow> inv t"
begin

lemma run_keeps: "lrun step s ls t \<Longrightarrow> inv s \<Longrightarrow> inv t"
proof (induction rule: lrun.induct)
  case (snoc s ls t l u)
  from snoc.IH [OF snoc.prems] snoc.hyps(2) show ?case by (rule step_keeps)
qed

end

section \<open>Simulation\<close>

locale simulation =
  fixes cstep :: "'s \<Rightarrow> 'l \<Rightarrow> 's \<Rightarrow> bool"
    and astep :: "'a \<Rightarrow> 'l \<Rightarrow> 'a \<Rightarrow> bool"
    and R :: "'s \<Rightarrow> 'a \<Rightarrow> bool"
  assumes step_sim: "R s a \<Longrightarrow> cstep s l t \<Longrightarrow> \<exists>b. astep a l b \<and> R t b"
begin

lemma run_sim: "lrun cstep s ls t \<Longrightarrow> R s a \<Longrightarrow> \<exists>b. lrun astep a ls b \<and> R t b"
proof (induction rule: lrun.induct)
  case (nil s)
  have "lrun astep a [] a" by (rule lrun.nil)
  with nil show ?case by blast
next
  case (snoc s ls t l u)
  then obtain b where b: "lrun astep a ls b" "R t b" by blast
  obtain c where "astep b l c" "R u c" using step_sim [OF b(2) snoc.hyps(2)] by blast
  with lrun.snoc [of astep, OF b(1)] show ?case by blast
qed

end

end
