(* ===== verification/Protocol.thy ===== *)
theory Protocol
  imports Prelude
begin

text \<open>
  The wire format of \<open>protocol/protocol.go\<close>: packet types, packet data, \<open>IsBigPackage\<close>,
  \<open>Marshal\<close> and \<open>Unmarshal\<close>.  The abstract specification is \<open>wire_view\<close>, the packet a
  receiver sees of a packet that was sent; the main theorem says that \<open>Unmarshal\<close> after
  \<open>Marshal\<close> computes it for every packet type.  The others say which errors are reported and
  what the checksum and the magic number detect.
\<close>

section \<open>Packet types and packet data\<close>

type_synonym PackageType = u32

abbreviation (input) Hi :: PackageType where "Hi \<equiv> 2"
abbreviation (input) Hello :: PackageType where "Hello \<equiv> 3"
abbreviation (input) ByeBye :: PackageType where "ByeBye \<equiv> 4"
abbreviation (input) Heartbeat :: PackageType where "Heartbeat \<equiv> 20"
abbreviation (input) Awake :: PackageType where "Awake \<equiv> 21"
abbreviation (input) HideMouse :: PackageType where "HideMouse \<equiv> 50"
abbreviation (input) Heartbeat_ex :: PackageType where "Heartbeat_ex \<equiv> 51"
abbreviation (input) Clipboard :: PackageType where "Clipboard \<equiv> 69"
abbreviation (input) ClipboardDataEnd :: PackageType where "ClipboardDataEnd \<equiv> 76"
abbreviation (input) MachineSwitched :: PackageType where "MachineSwitched \<equiv> 77"
abbreviation (input) ClipboardAsk :: PackageType where "ClipboardAsk \<equiv> 78"
abbreviation (input) ClipboardPush :: PackageType where "ClipboardPush \<equiv> 79"
abbreviation (input) NextMachine :: PackageType where "NextMachine \<equiv> 121"
abbreviation (input) Keyboard :: PackageType where "Keyboard \<equiv> 122"
abbreviation (input) Mouse :: PackageType where "Mouse \<equiv> 123"
abbreviation (input) ClipboardText :: PackageType where "ClipboardText \<equiv> 124"
abbreviation (input) ClipboardImage :: PackageType where "ClipboardImage \<equiv> 125"
abbreviation (input) Handshake :: PackageType where "Handshake \<equiv> 126"
abbreviation (input) HandshakeAck :: PackageType where "HandshakeAck \<equiv> 127"
abbreviation (input) Matrix :: PackageType where "Matrix \<equiv> 128"
abbreviation (input) Invalid :: PackageType where "Invalid \<equiv> 0xFF"
abbreviation (input) Error :: PackageType where "Error \<equiv> 0xFE"

abbreviation (input) PackageSize :: nat where "PackageSize \<equiv> 32"
abbreviation (input) PackageSizeEx :: nat where "PackageSizeEx \<equiv> 64"

record Header =
  hType :: PackageType
  hId :: u32
  hSrc :: u32
  hDes :: u32
  hDateTime :: u64

record KeyboardData =
  kVk :: i32
  kFlags :: i32

record MouseData =
  mX :: i32
  mY :: i32
  mWheelDelta :: i32
  mFlags :: i32

record HandshakeData =
  Machine1 :: u32
  Machine2 :: u32
  Machine3 :: u32
  Machine4 :: u32

text \<open>Pointer fields are \<open>nil\<close> or a value; \<open>Raw\<close> is a slice, \<open>nil\<close> or its bytes.\<close>

record GenericData =
  gHeader :: Header
  gKeyboard :: "KeyboardData option"
  gMouse :: "MouseData option"
  gHandshake :: "HandshakeData option"
  gMachineName :: gostring
  gRaw :: "bytes option"

abbreviation gType :: "GenericData \<Rightarrow> PackageType" where
  "gType d \<equiv> hType (gHeader d)"

datatype perror =
    KeyboardDataMissing
  | MouseDataMissing
  | HandshakeDataMissing
  | BufferTooSmall
  | InvalidMagic
  | InvalidChecksum

definition IsBigPackage :: "PackageType \<Rightarrow> bool" where
  "IsBigPackage t \<longleftrightarrow>
     (if t \<in> {Hello, Awake, Heartbeat, Heartbeat_ex,
              Handshake, HandshakeAck,
              ClipboardPush, Clipboard, ClipboardAsk,
              ClipboardImage, ClipboardText, ClipboardDataEnd}
      then True
      else t AND Matrix = Matrix)"

definition package_size :: "PackageType \<Rightarrow> nat" where
  "package_size t = (if IsBigPackage t then PackageSizeEx else PackageSize)"

section \<open>Marshal\<close>

text \<open>The bytes that every packet has: the type in one byte, then id, source, destination.\<close>

definition marshal_header :: "GenericData \<Rightarrow> bytes \<Rightarrow> bytes" where
  "marshal_header d buf =
    (let h = gHeader d;
         buf = buf[0 := ucast (hType h)];
         buf = copy_into 4 8 (le 4 (hId h)) buf;
         buf = copy_into 8 12 (le 4 (hSrc h)) buf
     in copy_into 12 16 (le 4 (hDes h)) buf)"

text \<open>The switch on the packet type.\<close>

definition marshal_payload :: "GenericData \<Rightarrow> bytes \<Rightarrow> perror + bytes" where
  "marshal_payload d buf =
    (let t = gType d; dt = hDateTime (gHeader d) in
     if t = Keyboard then
       (case gKeyboard d of
          None \<Rightarrow> Inl KeyboardDataMissing
        | Some k \<Rightarrow>
            (let buf = copy_into 16 24 (le 8 dt) buf;
                 buf = copy_into 24 28 (le 4 (kVk k)) buf
             in Inr (copy_into 28 32 (le 4 (kFlags k)) buf)))
     else if t = Mouse then
       (case gMouse d of
          None \<Rightarrow> Inl MouseDataMissing
        | Some m \<Rightarrow>
            (let buf = copy_into 16 20 (le 4 (mX m)) buf;
                 buf = copy_into 20 24 (le 4 (mY m)) buf;
                 buf = copy_into 24 28 (le 4 (mWheelDelta m)) buf
             in Inr (copy_into 28 32 (le 4 (mFlags m)) buf)))
     else if t = Handshake \<or> t = HandshakeAck then
       (case gHandshake d of
          None \<Rightarrow> Inl HandshakeDataMissing
        | Some h \<Rightarrow>
            (let buf = copy_into 16 20 (le 4 (Machine1 h)) buf;
                 buf = copy_into 20 24 (le 4 (Machine2 h)) buf;
                 buf = copy_into 24 28 (le 4 (Machine3 h)) buf
             in Inr (copy_into 28 32 (le 4 (Machine4 h)) buf)))
     else if t = ClipboardText \<or> t = ClipboardImage then
       Inr (case gRaw d of None \<Rightarrow> buf | Some raw \<Rightarrow> copy_into 16 64 raw buf)
     else
       (let buf = copy_into 16 24 (le 8 dt) buf
        in Inr (case gRaw d of None \<Rightarrow> buf | Some raw \<Rightarrow> copy_into 24 (length buf) raw buf)))"

definition pad_name :: "gostring \<Rightarrow> bytes" where
  "pad_name name = copy_into 0 32 name (replicate 32 0x20)"

definition marshal_name :: "GenericData \<Rightarrow> nat \<Rightarrow> bytes \<Rightarrow> bytes" where
  "marshal_name d sz buf =
    (if sz = PackageSizeEx \<and> gMachineName d \<noteq> [] \<and>
        gType d \<noteq> ClipboardText \<and> gType d \<noteq> ClipboardImage
     then copy_into 32 64 (pad_name (gMachineName d)) buf
     else buf)"

text \<open>The sum over \<open>buf[2], \<dots>, buf[31]\<close>, in eight bits; a shorter buffer ends the loop early.\<close>

definition checksum :: "bytes \<Rightarrow> u8" where
  "checksum buf = sum_list (gosub 2 PackageSize buf)"

definition marshal_seal :: "u32 \<Rightarrow> bytes \<Rightarrow> bytes" where
  "marshal_seal magic buf =
    (let buf = buf[3 := ucast (drop_bit 24 magic AND 0xFF)];
         buf = buf[2 := ucast (drop_bit 16 magic AND 0xFF)];
         buf = buf[1 := 0]
     in buf[1 := checksum buf])"

definition Marshal :: "GenericData \<Rightarrow> u32 \<Rightarrow> perror + bytes" where
  "Marshal d magic =
    (let sz = package_size (gType d);
         buf = marshal_header d (replicate sz 0)
     in case marshal_payload d buf of
          Inl e \<Rightarrow> Inl e
        | Inr buf \<Rightarrow> Inr (marshal_seal magic (marshal_name d sz buf)))"

section \<open>Unmarshal\<close>

text \<open>The loop that moves \<open>end\<close> over trailing spaces and zero bytes.\<close>

fun name_end :: "bytes \<Rightarrow> nat \<Rightarrow> nat" where
  "name_end nameBytes 0 = 0"
| "name_end nameBytes (Suc e) =
     (if nameBytes ! e = 0x20 \<or> nameBytes ! e = 0 then name_end nameBytes e else Suc e)"

definition unmarshal_header :: "bytes \<Rightarrow> Header" where
  "unmarshal_header b =
     \<lparr>hType = ucast (b ! 0), hId = unle (gosub 4 8 b), hSrc = unle (gosub 8 12 b),
      hDes = unle (gosub 12 16 b), hDateTime = 0\<rparr>"

definition unmarshal_payload :: "bytes \<Rightarrow> GenericData" where
  "unmarshal_payload b =
    (let hd = unmarshal_header b; t = hType hd;
         d = \<lparr>gHeader = hd, gKeyboard = None, gMouse = None, gHandshake = None,
              gMachineName = [], gRaw = None\<rparr>
     in
     if t = Keyboard then
       (let d = d\<lparr>gHeader := hd\<lparr>hDateTime := unle (gosub 16 24 b)\<rparr>\<rparr>
        in if 32 \<le> length b
           then d\<lparr>gKeyboard := Some \<lparr>kVk = unle (gosub 24 28 b), kFlags = unle (gosub 28 32 b)\<rparr>\<rparr>
           else d)
     else if t = Mouse then
       (if 32 \<le> length b
        then d\<lparr>gMouse := Some \<lparr>mX = unle (gosub 16 20 b), mY = unle (gosub 20 24 b),
                              mWheelDelta = unle (gosub 24 28 b), mFlags = unle (gosub 28 32 b)\<rparr>\<rparr>
        else d)
     else if t = Handshake \<or> t = HandshakeAck then
       (if 32 \<le> length b
        then d\<lparr>gHandshake := Some \<lparr>Machine1 = unle (gosub 16 20 b), Machine2 = unle (gosub 20 24 b),
                                  Machine3 = unle (gosub 24 28 b), Machine4 = unle (gosub 28 32 b)\<rparr>\<rparr>
        else d)
     else if t = ClipboardText \<or> t = ClipboardImage then
       (if 64 \<le> length b then d\<lparr>gRaw := Some (gosub 16 64 b)\<rparr> else d)
     else
       (let d = d\<lparr>gHeader := hd\<lparr>hDateTime := unle (gosub 16 24 b)\<rparr>\<rparr>
        in if 24 < length b then d\<lparr>gRaw := Some (drop 24 b)\<rparr> else d))"

definition unmarshal_name :: "bytes \<Rightarrow> GenericData \<Rightarrow> GenericData" where
  "unmarshal_name b d =
    (if PackageSizeEx \<le> length b \<and> gType d \<noteq> ClipboardText \<and> gType d \<noteq> ClipboardImage
     then (let nameBytes = gosub 32 64 b; e = name_end nameBytes (length nameBytes)
           in if 0 < e then d\<lparr>gMachineName := take e nameBytes\<rparr> else d)
     else d)"

text \<open>
  \<open>Unmarshal\<close> clears bytes 1 to 3 of its argument, so the model also returns the buffer the
  caller is left with.
\<close>

definition Unmarshal :: "bytes \<Rightarrow> u32 \<Rightarrow> (perror + GenericData) \<times> bytes" where
  "Unmarshal b magicNumber =
    (if length b < 24 then (Inl BufferTooSmall, b)
     else
       let magic = push_bit 24 (uint (b ! 3)) + push_bit 16 (uint (b ! 2)) in
       if magic \<noteq> uint (magicNumber AND 0xFFFF0000) then (Inl InvalidMagic, b)
       else if b ! 1 \<noteq> checksum b then (Inl InvalidChecksum, b)
       else
         let b = b[1 := 0, 2 := 0, 3 := 0]
         in (Inr (unmarshal_name b (unmarshal_payload b)), b))"

section \<open>The seal: magic number and checksum\<close>

text \<open>
  The sum of two shifted bytes that \<open>Unmarshal\<close> computes in an \<open>int\<close> is the 32-bit
  word of these bytes; it agrees with the masked magic number exactly when both bytes do.
\<close>


definition magic_word :: "u8 \<Rightarrow> u8 \<Rightarrow> u32" where
  "magic_word b3 b2 = push_bit 24 (ucast b3) OR push_bit 16 (ucast b2)"

lemma uint_magic_word: "push_bit 24 (uint b3) + push_bit 16 (uint b2) = uint (magic_word b3 b2)"
proof -
  have "bit b3 k \<Longrightarrow> k < 8" "bit b2 k \<Longrightarrow> k < 8" for k
    using bit_imp_le_length [of b3 k] bit_imp_le_length [of b2 k] by auto
  then have "push_bit 24 (uint b3) AND push_bit 16 (uint b2) = 0"
    by (intro bit_eqI) (fastforce simp add: bit_simps)
  then have "push_bit 24 (uint b3) + push_bit 16 (uint b2) = push_bit 24 (uint b3) OR push_bit 16 (uint b2)"
    by (rule disjunctive_add_eq_or)
  also have "\<dots> = uint (magic_word b3 b2)"
    unfolding magic_word_def
    by (rule bit_eqI) (auto simp add: bit_simps dest: bit_imp_le_length)
  finally show ?thesis .
qed

lemma bit_magic_mask: "bit (0xFFFF0000 :: int) k \<longleftrightarrow> 16 \<le> k \<and> k < 32"
proof -
  have e: "(0xFFFF0000 :: int) = push_bit 16 (mask 16)" by (simp add: mask_eq_exp_minus_1)
  show ?thesis unfolding e by (auto simp add: bit_push_bit_iff bit_mask_iff)
qed

lemma magic_word_iff:
  "magic_word b3 b2 = m AND 0xFFFF0000 \<longleftrightarrow>
   b3 = ucast (drop_bit 24 m) \<and> b2 = ucast (drop_bit 16 m)" (is "?l \<longleftrightarrow> ?r")
proof
  assume l: ?l
  have e: "bit (magic_word b3 b2) k = bit (m AND 0xFFFF0000) k" for k by (simp only: l)
  have "b3 = ucast (drop_bit 24 m)"
  proof (rule bit_word_eqI)
    fix k assume "k < LENGTH(8)"
    then show "bit b3 k = bit (ucast (drop_bit 24 m) :: u8) k"
      using e [of "24 + k"] bit_imp_le_length [of b2 "8 + k"]
      by (auto simp add: magic_word_def bit_simps bit_magic_mask)
  qed
  moreover have "b2 = ucast (drop_bit 16 m)"
  proof (rule bit_word_eqI)
    fix k assume "k < LENGTH(8)"
    then show "bit b2 k = bit (ucast (drop_bit 16 m) :: u8) k"
      using e [of "16 + k"]
      by (auto simp add: magic_word_def bit_simps bit_magic_mask)
  qed
  ultimately show ?r by simp
next
  assume ?r
  then show ?l
    by (auto intro!: bit_word_eqI simp add: magic_word_def bit_simps bit_magic_mask)
qed

lemma magic_mask_eq_iff:
  "m AND 0xFFFF0000 = m' AND 0xFFFF0000 \<longleftrightarrow> drop_bit 16 m = drop_bit 16 (m' :: u32)"
proof -
  have e: "m AND 0xFFFF0000 = push_bit 16 (drop_bit 16 m)" for m :: u32
    by (rule bit_word_eqI) (auto simp add: bit_simps bit_magic_mask)
  have d: "drop_bit 16 (push_bit 16 (drop_bit 16 m)) = drop_bit 16 m" for m :: u32
    by (rule bit_word_eqI) (auto simp add: bit_simps dest: bit_imp_le_length)
  show ?thesis unfolding e by (metis d)
qed

lemma sum_list_update_word:
  "i < length xs \<Longrightarrow> sum_list (xs[i := x]) = sum_list xs - xs ! i + (x :: 'a::ab_group_add)"
proof (induction xs arbitrary: i)
  case Nil
  then show ?case by simp
next
  case (Cons y ys)
  then show ?case by (cases i) (simp_all add: algebra_simps)
qed

lemma checksum_update:
  assumes "2 \<le> i" and "i < PackageSize" and "i < length b"
  shows "checksum (b[i := x]) = checksum b - b ! i + x"
proof -
  have "gosub 2 PackageSize (b[i := x]) = (gosub 2 PackageSize b)[i - 2 := x]"
    using assms by (simp add: gosub_def drop_update_swap take_update_swap)
  moreover have "gosub 2 PackageSize b ! (i - 2) = b ! i"
    using assms by (simp add: gosub_def flip: add_2_eq_Suc)
  moreover have "i - 2 < length (gosub 2 PackageSize b)"
    using assms by (auto simp add: gosub_def)
  ultimately show ?thesis
    by (simp add: checksum_def sum_list_update_word)
qed

lemma checksum_update_low: "i < 2 \<Longrightarrow> checksum (b[i := x]) = checksum b"
  by (simp add: checksum_def gosub_list_update)

lemma mask_byte: "(ucast (w AND 0xFF) :: u8) = ucast (w :: u32)"
proof -
  have e: "(0xFF :: u32) = mask 8" by (simp add: mask_eq_exp_minus_1)
  show ?thesis unfolding e by (rule bit_word_eqI) (simp add: bit_simps)
qed

lemma length_marshal_seal [simp]: "length (marshal_seal m buf) = length buf"
  by (simp add: marshal_seal_def Let_def)

lemma marshal_seal_nth:
  assumes "4 \<le> length buf"
  shows "marshal_seal m buf ! 0 = buf ! 0"
    and "marshal_seal m buf ! 2 = ucast (drop_bit 16 m)"
    and "marshal_seal m buf ! 3 = ucast (drop_bit 24 m)"
    and "marshal_seal m buf ! 1 = checksum (marshal_seal m buf)"
  using assms by (simp_all add: marshal_seal_def Let_def checksum_update_low mask_byte)

lemma gosub_marshal_seal: "4 \<le> a \<Longrightarrow> gosub a b (marshal_seal m buf) = gosub a b buf"
  by (simp add: marshal_seal_def Let_def gosub_list_update)

lemma Unmarshal_seal:
  assumes "24 \<le> length buf"
  shows "fst (Unmarshal (marshal_seal m buf) m') =
    (if drop_bit 16 m = drop_bit 16 m'
     then let b = (marshal_seal m buf)[1 := 0, 2 := 0, 3 := 0]
          in Inr (unmarshal_name b (unmarshal_payload b))
     else Inl InvalidMagic)"
proof -
  have "magic_word (ucast (drop_bit 24 m)) (ucast (drop_bit 16 m)) = m AND 0xFFFF0000"
    by (simp add: magic_word_iff)
  then show ?thesis
    using assms marshal_seal_nth [of buf m]
    by (simp add: Unmarshal_def Let_def uint_magic_word magic_mask_eq_iff word_uint_eq_iff [symmetric])
qed

section \<open>Trailing padding of the machine name\<close>


text \<open>Trailing spaces and zero bytes, dropped from the end.\<close>

definition rtrim :: "bytes \<Rightarrow> bytes" where
  "rtrim bs = rev (dropWhile (\<lambda>c. c = 0x20 \<or> c = 0) (rev bs))"

lemma rtrim_Nil [simp]: "rtrim [] = []"
  by (simp add: rtrim_def)

lemma rtrim_snoc: "rtrim (bs @ [c]) = (if c = 0x20 \<or> c = 0 then rtrim bs else bs @ [c])"
  by (simp add: rtrim_def)

lemma rtrim_append_replicate: "c = 0x20 \<or> c = 0 \<Longrightarrow> rtrim (bs @ replicate n c) = rtrim bs"
proof (induction n)
  case 0
  then show ?case by simp
next
  case (Suc n)
  have "bs @ replicate (Suc n) c = (bs @ replicate n c) @ [c]"
    by (simp add: replicate_append_same)
  then show ?case using Suc by (simp only: rtrim_snoc) auto
qed

lemma take_name_end: "e \<le> length bs \<Longrightarrow> take (name_end bs e) bs = rtrim (take e bs)"
proof (induction e)
  case 0
  then show ?case by simp
next
  case (Suc e)
  then have "take (Suc e) bs = take e bs @ [bs ! e]"
    by (simp add: take_Suc_conv_app_nth)
  then show ?case using Suc by (simp add: rtrim_snoc)
qed

lemma rtrim_name_end: "take (name_end bs (length bs)) bs = rtrim bs"
  by (simp add: take_name_end)

lemma name_end_le: "name_end bs e \<le> e"
  by (induction e) auto

lemma name_end_pos: "0 < name_end bs (length bs) \<longleftrightarrow> rtrim bs \<noteq> []"
proof -
  have "length (rtrim bs) = name_end bs (length bs)"
    using name_end_le [of bs "length bs"] by (simp flip: rtrim_name_end)
  then show ?thesis by (metis length_greater_0_conv)
qed

lemma unmarshal_name_eq:
  "unmarshal_name b d =
    (if PackageSizeEx \<le> length b \<and> gType d \<noteq> ClipboardText \<and> gType d \<noteq> ClipboardImage
        \<and> rtrim (gosub 32 64 b) \<noteq> []
     then d\<lparr>gMachineName := rtrim (gosub 32 64 b)\<rparr> else d)"
  by (simp add: unmarshal_name_def Let_def rtrim_name_end name_end_pos)

section \<open>What a receiver sees of a packet\<close>

definition zero_pad :: "nat \<Rightarrow> bytes \<Rightarrow> bytes" where
  "zero_pad n bs = take n (bs @ replicate n 0)"

definition raw_bytes :: "GenericData \<Rightarrow> bytes" where
  "raw_bytes d = (case gRaw d of None \<Rightarrow> [] | Some raw \<Rightarrow> raw)"

text \<open>
  Bytes 32 to 63 of a big packet: the padded machine name when there is one, and the payload's
  overhang otherwise.
\<close>

definition name_field :: "GenericData \<Rightarrow> bytes \<Rightarrow> bytes" where
  "name_field d overhang =
     (if gMachineName d = [] then overhang
      else take 32 (gMachineName d @ replicate 32 0x20))"

text \<open>
  The specification of a transfer: which of the fields of \<open>d\<close> arrive, in which form.
\<close>

definition wire_view :: "GenericData \<Rightarrow> GenericData" where
  "wire_view d =
    (let t = gType d; no_time = (gHeader d)\<lparr>hDateTime := 0\<rparr>;
         r = \<lparr>gHeader = gHeader d, gKeyboard = None, gMouse = None, gHandshake = None,
              gMachineName = [], gRaw = None\<rparr>
     in if t = Keyboard then r\<lparr>gKeyboard := gKeyboard d\<rparr>
        else if t = Mouse then r\<lparr>gHeader := no_time, gMouse := gMouse d\<rparr>
        else if t = Handshake \<or> t = HandshakeAck then
          r\<lparr>gHeader := no_time, gHandshake := gHandshake d,
            gMachineName := rtrim (name_field d (replicate 32 0))\<rparr>
        else if t = ClipboardText \<or> t = ClipboardImage then
          r\<lparr>gHeader := no_time, gRaw := Some (zero_pad 48 (raw_bytes d))\<rparr>
        else if IsBigPackage t then
          (let field = name_field d (drop 8 (zero_pad 40 (raw_bytes d)))
           in r\<lparr>gRaw := Some (zero_pad 8 (raw_bytes d) @ field), gMachineName := rtrim field\<rparr>)
        else r\<lparr>gRaw := Some (zero_pad 8 (raw_bytes d))\<rparr>)"

lemma length_zero_pad [simp]: "length (zero_pad n bs) = n"
  by (simp add: zero_pad_def)

lemma pad_name_eq: "pad_name name = take 32 (name @ replicate 32 0x20)"
proof -
  have "take (32 - length name) (replicate 32 (0x20::u8)) = drop (min 32 (length name)) (replicate 32 0x20)"
    by (simp add: min_def)
  then show ?thesis by (simp add: pad_name_def copy_into_def)
qed

lemma length_pad_name [simp]: "length (pad_name name) = 32"
  by (simp add: pad_name_eq)

lemma IsBig_special:
  "IsBigPackage Keyboard = False" "IsBigPackage Mouse = False"
  "IsBigPackage Handshake" "IsBigPackage HandshakeAck"
  "IsBigPackage ClipboardText" "IsBigPackage ClipboardImage"
  by (simp_all add: IsBigPackage_def)

lemma package_size_bounds: "32 \<le> package_size t" "package_size t \<le> 64"
  by (simp_all add: package_size_def)

lemma package_size_eq_64: "package_size t = 64 \<longleftrightarrow> IsBigPackage t"
  by (simp add: package_size_def)

lemma length_marshal_header [simp]: "16 \<le> length buf \<Longrightarrow> length (marshal_header d buf) = length buf"
  by (simp add: marshal_header_def Let_def)

lemma length_marshal_payload:
  assumes "marshal_payload d buf = Inr buf'" and "32 \<le> length buf"
    and "gType d = ClipboardText \<or> gType d = ClipboardImage \<Longrightarrow> 64 \<le> length buf"
  shows "length buf' = length buf"
  using assms
  by (auto simp add: marshal_payload_def Let_def split: if_splits option.splits)

lemma length_marshal_name [simp]: "sz \<le> length buf \<Longrightarrow> length (marshal_name d sz buf) = length buf"
  by (simp add: marshal_name_def)

lemma package_size_clip: "t = ClipboardText \<or> t = ClipboardImage \<Longrightarrow> 64 \<le> package_size t"
  by (auto simp add: package_size_def IsBig_special)

lemma Marshal_length: "Marshal d m = Inr buf \<Longrightarrow> length buf = package_size (gType d)"
  using length_marshal_payload [of d "marshal_header d (replicate (package_size (gType d)) 0)"]
    package_size_bounds [of "gType d"] package_size_clip [of "gType d"]
  by (auto simp add: Marshal_def Let_def split: sum.splits)

text \<open>The header of a buffer whose payload was written.\<close>

lemma marshal_header_fields:
  assumes "24 \<le> length buf"
  shows "marshal_header d buf ! 0 = ucast (gType d)"
    and "gosub 4 8 (marshal_header d buf) = le 4 (hId (gHeader d))"
    and "gosub 8 12 (marshal_header d buf) = le 4 (hSrc (gHeader d))"
    and "gosub 12 16 (marshal_header d buf) = le 4 (hDes (gHeader d))"
    and "16 \<le> a \<Longrightarrow> b \<le> length buf \<Longrightarrow> gosub a b (marshal_header d buf) = gosub a b buf"
proof -
  have ne: "0 < length buf" using assms by linarith
  show "marshal_header d buf ! 0 = ucast (gType d)"
    using assms by (simp add: marshal_header_def Let_def nth_copy_before nth_list_update_eq [OF ne])
qed (use assms in \<open>simp_all add: marshal_header_def Let_def gosub_copy_same gosub_copy_other
      gosub_list_update\<close>)

text \<open>Clearing the seal leaves what \<open>Unmarshal\<close> reads untouched.\<close>

lemma unmarshal_frame:
  assumes "length b = length q" and "b ! 0 = q ! 0"
    and "\<And>i j. 4 \<le> i \<Longrightarrow> gosub i j b = gosub i j q"
  shows "unmarshal_name b (unmarshal_payload b) = unmarshal_name q (unmarshal_payload q)"
proof -
  have d: "drop 24 b = drop 24 q"
    using assms(1) assms(3) [of 24 "length b"] by (simp add: gosub_full)
  have g: "gosub 4 8 b = gosub 4 8 q" "gosub 8 12 b = gosub 8 12 q" "gosub 12 16 b = gosub 12 16 q"
    "gosub 16 20 b = gosub 16 20 q" "gosub 16 24 b = gosub 16 24 q" "gosub 20 24 b = gosub 20 24 q"
    "gosub 24 28 b = gosub 24 28 q" "gosub 28 32 b = gosub 28 32 q" "gosub 16 64 b = gosub 16 64 q"
    "gosub 32 64 b = gosub 32 64 q"
    by (simp_all add: assms(3))
  show ?thesis
    unfolding unmarshal_name_def unmarshal_payload_def unmarshal_header_def
    by (simp only: assms(1,2) d g)
qed

lemma Unmarshal_Marshal_frame:
  assumes "Marshal d m = Inr buf"
  shows "\<exists>q p. marshal_payload d (marshal_header d (replicate (package_size (gType d)) 0)) = Inr p
    \<and> q = marshal_name d (package_size (gType d)) p
    \<and> fst (Unmarshal buf m') = (if drop_bit 16 m = drop_bit 16 m'
        then Inr (unmarshal_name q (unmarshal_payload q)) else Inl InvalidMagic)"
proof -
  let ?sz = "package_size (gType d)"
  obtain p where p: "marshal_payload d (marshal_header d (replicate ?sz 0)) = Inr p"
    and buf: "buf = marshal_seal m (marshal_name d ?sz p)"
    using assms by (auto simp add: Marshal_def Let_def split: sum.splits)
  let ?q = "marshal_name d ?sz p" and ?b = "buf[1 := 0, 2 := 0, 3 := 0]"
  have len: "length buf = ?sz" using assms by (rule Marshal_length)
  then have lq: "length ?q = ?sz" using buf by simp
  then have "24 \<le> length ?q" using package_size_bounds(1) [of "gType d"] by linarith
  moreover from this have "unmarshal_name ?b (unmarshal_payload ?b) = unmarshal_name ?q (unmarshal_payload ?q)"
    by (intro unmarshal_frame)
      (simp_all add: buf marshal_seal_nth gosub_marshal_seal gosub_list_update)
  ultimately have "fst (Unmarshal buf m') = (if drop_bit 16 m = drop_bit 16 m'
        then Inr (unmarshal_name ?q (unmarshal_payload ?q)) else Inl InvalidMagic)"
    unfolding buf by (subst Unmarshal_seal) (simp_all add: buf Let_def)
  with p show ?thesis by blast
qed

lemma ucast_ucast_byte: "t < 256 \<Longrightarrow> ucast (ucast (t :: u32) :: u8) = t"
proof -
  assume "t < 256"
  then have "take_bit 8 t = t" 
    by (simp add: word_unat_eq_iff unsigned_take_bit_eq take_bit_nat_eq_self word_less_nat_alt)
  moreover have "ucast (ucast t :: u8) = take_bit 8 t"
    by (rule bit_word_eqI) (auto simp add: bit_simps)
  ultimately show ?thesis by simp
qed

lemma marshal_payload_keeps:
  assumes "marshal_payload d buf = Inr p" and "32 \<le> length buf"
    and "gType d = ClipboardText \<or> gType d = ClipboardImage \<Longrightarrow> 64 \<le> length buf"
  shows "p ! 0 = buf ! 0" and "b \<le> 16 \<Longrightarrow> gosub a b p = gosub a b buf"
  using assms
  by (auto simp add: marshal_payload_def Let_def nth_copy_before gosub_copy_other
      split: if_splits option.splits)

lemma marshal_name_keeps:
  assumes "sz \<le> length buf" and "b \<le> 32" and "b \<le> length buf"
  shows "marshal_name d sz buf ! 0 = buf ! 0" and "gosub a b (marshal_name d sz buf) = gosub a b buf"
  using assms by (auto simp add: marshal_name_def nth_copy_before gosub_copy_other)

lemma gosub_marshal_name:
  assumes "length buf = 64"
  shows "gosub 32 64 (marshal_name d 64 buf) =
    (if gMachineName d \<noteq> [] \<and> gType d \<noteq> ClipboardText \<and> gType d \<noteq> ClipboardImage
     then take 32 (gMachineName d @ replicate 32 0x20) else gosub 32 64 buf)"
  using assms by (simp add: marshal_name_def gosub_copy_same pad_name_eq)

lemma marshalled_header:
  assumes p: "marshal_payload d (marshal_header d (replicate (package_size (gType d)) 0)) = Inr p"
    and q: "q = marshal_name d (package_size (gType d)) p"
    and t: "gType d < 256"
  shows "unmarshal_header q = (gHeader d)\<lparr>hDateTime := 0\<rparr>"
    and "length q = package_size (gType d)" and "length p = package_size (gType d)"
proof -
  let ?sz = "package_size (gType d)" and ?h = "marshal_header d (replicate (package_size (gType d)) 0)"
  have sz: "32 \<le> ?sz" by (rule package_size_bounds)
  have lh: "length ?h = ?sz" using sz by simp
  show lp: "length p = ?sz"
    using length_marshal_payload [OF p] sz lh package_size_clip by auto
  then show lq: "length q = ?sz" using q by simp
  have keep: "q ! 0 = ?h ! 0" "b \<le> 16 \<Longrightarrow> gosub a b q = gosub a b ?h" for a b
    using marshal_payload_keeps(1) [OF p] marshal_payload_keeps(2) [OF p, where a = a and b = b]
      marshal_name_keeps(1) [where sz = ?sz and buf = p and b = 0 and d = d] marshal_name_keeps(2) [where sz = ?sz and buf = p and a = a and b = b and d = d]
      lp lh sz package_size_clip q by auto
  then show "unmarshal_header q = (gHeader d)\<lparr>hDateTime := 0\<rparr>"
    using marshal_header_fields [where buf = "replicate ?sz 0" and d = d] sz t
    by (simp add: unmarshal_header_def ucast_ucast_byte unle_le_exact)
qed

lemma zero_pad_copy: "copy_into 0 n bs (replicate n 0) = zero_pad n bs"
  by (simp add: copy_into_def zero_pad_def min_def)

text \<open>The payload region of the zeroed buffer after the copy of \<open>raw\<close>.\<close>

lemma gosub_copy_zero:
  assumes "lo \<le> hi" and "hi \<le> length buf" and "gosub lo hi buf = replicate (hi - lo) 0"
  shows "gosub lo hi (copy_into lo hi raw buf) = zero_pad (hi - lo) raw"
  using assms by (simp add: copy_into_short zero_pad_def min_def)

lemma header_zeros:
  "16 \<le> a \<Longrightarrow> b \<le> n \<Longrightarrow> 24 \<le> n \<Longrightarrow> gosub a b (marshal_header d (replicate n 0)) = replicate (b - a) 0"
  by (simp add: marshal_header_fields gosub_replicate)

lemma zero_pad_Nil [simp]: "zero_pad n [] = replicate n 0"
  by (simp add: zero_pad_def)

text \<open>The payload region of a packet that carries raw bytes.\<close>

lemma payload_clipboard:
  assumes "gType d = ClipboardText \<or> gType d = ClipboardImage"
    and "marshal_payload d (marshal_header d (replicate 64 0)) = Inr p"
  shows "gosub 16 64 p = zero_pad 48 (raw_bytes d)"
proof -
  have "gosub 16 64 (marshal_header d (replicate 64 0)) = replicate 48 0"
    by (simp add: header_zeros)
  then show ?thesis using assms
    by (auto simp add: marshal_payload_def Let_def raw_bytes_def gosub_copy_zero split: option.splits)
qed

lemma payload_default:
  assumes "gType d \<notin> {Keyboard, Mouse, Handshake, HandshakeAck, ClipboardText, ClipboardImage}"
    and "marshal_payload d (marshal_header d (replicate n 0)) = Inr p" and "32 \<le> n"
  shows "gosub 16 24 p = le 8 (hDateTime (gHeader d))" and "drop 24 p = zero_pad (n - 24) (raw_bytes d)"
proof -
  let ?b = "copy_into 16 24 (le 8 (hDateTime (gHeader d))) (marshal_header d (replicate n 0))"
  have p: "p = (case gRaw d of None \<Rightarrow> ?b | Some raw \<Rightarrow> copy_into 24 (length ?b) raw ?b)"
    using assms by (simp add: marshal_payload_def Let_def split: option.splits)
  have lb: "length ?b = n" using assms(3) by simp
  have "gosub 24 n ?b = replicate (n - 24) 0"
    using assms(3) by (simp add: gosub_copy_other header_zeros)
  then have "gosub 24 n p = zero_pad (n - 24) (raw_bytes d)"
    using assms(3) lb unfolding p
    by (auto simp add: raw_bytes_def gosub_copy_zero split: option.splits)
  moreover have "length p = n" using lb assms(3) unfolding p by (simp split: option.splits)
  ultimately show "drop 24 p = zero_pad (n - 24) (raw_bytes d)" by (simp add: gosub_full)
  show "gosub 16 24 p = le 8 (hDateTime (gHeader d))"
    using assms(3) lb unfolding p
    by (simp add: gosub_copy_same gosub_copy_other split: option.splits)
qed

section \<open>The round trip\<close>

text \<open>The four groups of packet types, read back.\<close>

lemma read_keyboard:
  assumes "gType d = Keyboard" and "marshal_payload d (marshal_header d (replicate 32 0)) = Inr p"
    and "unmarshal_header p = (gHeader d)\<lparr>hDateTime := 0\<rparr>" and "length p = 32"
  shows "unmarshal_name p (unmarshal_payload p) = wire_view d"
proof -
  obtain k where k: "gKeyboard d = Some k"
    using assms by (cases "gKeyboard d") (simp_all add: marshal_payload_def Let_def)
  have "gosub 16 24 p = le 8 (hDateTime (gHeader d))" "gosub 24 28 p = le 4 (kVk k)"
    "gosub 28 32 p = le 4 (kFlags k)"
    using assms k by (auto simp add: marshal_payload_def Let_def gosub_copy_same gosub_copy_other)
  then show ?thesis using assms k
    by (simp add: unmarshal_name_def unmarshal_payload_def wire_view_def Let_def unle_le_exact)
qed

lemma read_mouse:
  assumes "gType d = Mouse" and "marshal_payload d (marshal_header d (replicate 32 0)) = Inr p"
    and "unmarshal_header p = (gHeader d)\<lparr>hDateTime := 0\<rparr>" and "length p = 32"
  shows "unmarshal_name p (unmarshal_payload p) = wire_view d"
proof -
  obtain k where k: "gMouse d = Some k"
    using assms by (cases "gMouse d") (simp_all add: marshal_payload_def Let_def)
  have "gosub 16 20 p = le 4 (mX k)" "gosub 20 24 p = le 4 (mY k)"
    "gosub 24 28 p = le 4 (mWheelDelta k)" "gosub 28 32 p = le 4 (mFlags k)"
    using assms k by (auto simp add: marshal_payload_def Let_def gosub_copy_same gosub_copy_other)
  then show ?thesis using assms k
    by (simp add: unmarshal_name_def unmarshal_payload_def wire_view_def Let_def unle_le_exact)
qed

lemma read_handshake:
  assumes "gType d = Handshake \<or> gType d = HandshakeAck"
    and "marshal_payload d (marshal_header d (replicate 64 0)) = Inr p"
    and "q = marshal_name d 64 p"
    and "unmarshal_header q = (gHeader d)\<lparr>hDateTime := 0\<rparr>" and "length q = 64" and "length p = 64"
  shows "unmarshal_name q (unmarshal_payload q) = wire_view d"
proof -
  obtain k where k: "gHandshake d = Some k"
    using assms by (cases "gHandshake d") (auto simp add: marshal_payload_def Let_def)
  have p: "gosub 16 20 p = le 4 (Machine1 k)" "gosub 20 24 p = le 4 (Machine2 k)"
    "gosub 24 28 p = le 4 (Machine3 k)" "gosub 28 32 p = le 4 (Machine4 k)"
    "gosub 32 64 p = replicate 32 0"
    using assms k
    by (auto simp add: marshal_payload_def Let_def gosub_copy_same gosub_copy_other header_zeros)
  have q: "gosub 32 64 q = name_field d (replicate 32 0)"
    using assms p by (auto simp add: gosub_marshal_name name_field_def)
  have "gosub 16 20 q = le 4 (Machine1 k)" "gosub 20 24 q = le 4 (Machine2 k)"
    "gosub 24 28 q = le 4 (Machine3 k)" "gosub 28 32 q = le 4 (Machine4 k)"
    using assms(3,6) p by (simp_all add: marshal_name_keeps)
  then show ?thesis using assms k q
    by (auto simp add: unmarshal_name_eq unmarshal_payload_def wire_view_def Let_def unle_le_exact)
qed

lemma read_clipboard:
  assumes "gType d = ClipboardText \<or> gType d = ClipboardImage"
    and "marshal_payload d (marshal_header d (replicate 64 0)) = Inr p"
    and "unmarshal_header p = (gHeader d)\<lparr>hDateTime := 0\<rparr>" and "length p = 64"
  shows "unmarshal_name p (unmarshal_payload p) = wire_view d"
  using assms payload_clipboard [OF assms(1,2)]
  by (auto simp add: unmarshal_name_def unmarshal_payload_def wire_view_def Let_def)

lemma take_zero_pad: "k \<le> n \<Longrightarrow> take k (zero_pad n bs) = zero_pad k bs"
  by (simp add: zero_pad_def min_def)

lemma read_default:
  assumes "gType d \<notin> {Keyboard, Mouse, Handshake, HandshakeAck, ClipboardText, ClipboardImage}"
    and "marshal_payload d (marshal_header d (replicate (package_size (gType d)) 0)) = Inr p"
    and "q = marshal_name d (package_size (gType d)) p"
    and "unmarshal_header q = (gHeader d)\<lparr>hDateTime := 0\<rparr>"
    and "length q = package_size (gType d)" and "length p = package_size (gType d)"
  shows "unmarshal_name q (unmarshal_payload q) = wire_view d"
proof (cases "IsBigPackage (gType d)")
  case False
  then have "package_size (gType d) = 32" by (simp add: package_size_def)
  with assms payload_default [OF assms(1,2)] False show ?thesis
    by (auto simp add: marshal_name_def unmarshal_name_def unmarshal_payload_def wire_view_def
        Let_def unle_le_exact)
next
  case True
  then have sz: "package_size (gType d) = 64" by (simp add: package_size_def)
  have p: "gosub 16 24 p = le 8 (hDateTime (gHeader d))" "drop 24 p = zero_pad 40 (raw_bytes d)"
    using payload_default [OF assms(1,2)] sz by simp_all
  have p': "gosub 24 32 p = zero_pad 8 (raw_bytes d)"
    "gosub 32 64 p = drop 8 (zero_pad 40 (raw_bytes d))"
  proof -
    have "gosub 24 32 p = take 8 (drop 24 p)" and "gosub 32 64 p = drop 8 (drop 24 p)"
      using assms(6) sz by (simp_all add: gosub_def)
    then show "gosub 24 32 p = zero_pad 8 (raw_bytes d)"
      "gosub 32 64 p = drop 8 (zero_pad 40 (raw_bytes d))"
      using p(2) by (simp_all add: take_zero_pad)
  qed
  let ?f = "name_field d (drop 8 (zero_pad 40 (raw_bytes d)))"
  have q: "gosub 16 24 q = le 8 (hDateTime (gHeader d))" "gosub 24 32 q = zero_pad 8 (raw_bytes d)"
    using assms(3,6) p p' sz by (simp_all add: marshal_name_keeps)
  have f: "gosub 32 64 q = ?f"
    using assms(1,3,6) p' sz by (auto simp add: gosub_marshal_name name_field_def)
  have "drop 24 q = gosub 24 64 q" using assms(5) sz by (simp add: gosub_full)
  then have "drop 24 q = zero_pad 8 (raw_bytes d) @ ?f"
    using gosub_split [of 24 32 64 q] q f by simp
  then show ?thesis using assms sz q f True
    by (auto simp add: unmarshal_name_eq unmarshal_payload_def wire_view_def Let_def unle_le_exact)
qed

lemma Unmarshal_Marshal:
  assumes m: "Marshal d m = Inr buf" and t: "gType d < 256"
  shows "fst (Unmarshal buf m') =
    (if drop_bit 16 m = drop_bit 16 m' then Inr (wire_view d) else Inl InvalidMagic)"
proof -
  obtain q p where p: "marshal_payload d (marshal_header d (replicate (package_size (gType d)) 0)) = Inr p"
    and q: "q = marshal_name d (package_size (gType d)) p"
    and u: "fst (Unmarshal buf m') = (if drop_bit 16 m = drop_bit 16 m'
        then Inr (unmarshal_name q (unmarshal_payload q)) else Inl InvalidMagic)"
    using Unmarshal_Marshal_frame [OF m] by blast
  note h = marshalled_header [OF p q t]
  consider (k) "gType d = Keyboard" | (m) "gType d = Mouse"
    | (h) "gType d = Handshake \<or> gType d = HandshakeAck"
    | (c) "gType d = ClipboardText \<or> gType d = ClipboardImage"
    | (o) "gType d \<notin> {Keyboard, Mouse, Handshake, HandshakeAck, ClipboardText, ClipboardImage}"
    by auto
  then have "unmarshal_name q (unmarshal_payload q) = wire_view d"
  proof cases
    case k
    then show ?thesis using read_keyboard [of d p] p q h
      by (simp add: package_size_def IsBig_special marshal_name_def)
  next
    case m
    then show ?thesis using read_mouse [of d p] p q h
      by (simp add: package_size_def IsBig_special marshal_name_def)
  next
    case h
    then show ?thesis using read_handshake [of d p q] p q marshalled_header [OF p q t]
      by (auto simp add: package_size_def IsBig_special)
  next
    case c
    then show ?thesis using read_clipboard [of d p] p q h
      by (auto simp add: package_size_def IsBig_special marshal_name_def)
  next
    case o
    then show ?thesis using read_default [of d p q] p q h by simp
  qed
  with u show ?thesis by simp
qed

section \<open>The checked bytes\<close>

lemma Unmarshal_accepts_iff:
  "(\<exists>d. fst (Unmarshal b m) = Inr d) \<longleftrightarrow>
     24 \<le> length b \<and> b ! 2 = ucast (drop_bit 16 m) \<and> b ! 3 = ucast (drop_bit 24 m) \<and>
     b ! 1 = checksum b"
  by (auto simp add: Unmarshal_def Let_def uint_magic_word magic_word_iff
      word_uint_eq_iff [symmetric])

lemma Unmarshal_corrupt:
  assumes ok: "fst (Unmarshal b m) = Inr d"
    and i: "1 \<le> i" "i < 32" "i < length b" and x: "x \<noteq> b ! i"
  shows "fst (Unmarshal (b[i := x]) m) = Inl (if i = 2 \<or> i = 3 then InvalidMagic else InvalidChecksum)"
proof -
  have b: "24 \<le> length b" "b ! 2 = ucast (drop_bit 16 m)" "b ! 3 = ucast (drop_bit 24 m)"
    "b ! 1 = checksum b"
    using ok Unmarshal_accepts_iff [of b m] by auto
  consider "i = 1" | "i = 2 \<or> i = 3" | "4 \<le> i" using i by linarith
  then show ?thesis
  proof cases
    case 1
    with b x show ?thesis
      by (simp add: Unmarshal_def Let_def uint_magic_word magic_word_iff
          word_uint_eq_iff [symmetric] checksum_update_low)
  next
    case 2
    with b x show ?thesis
      by (auto simp add: Unmarshal_def Let_def uint_magic_word magic_word_iff
          word_uint_eq_iff [symmetric])
  next
    case 3
    then have "checksum (b[i := x]) \<noteq> checksum b"
      using x i by (simp add: checksum_update)
    with b 3 show ?thesis
      by (simp add: Unmarshal_def Let_def uint_magic_word magic_word_iff
          word_uint_eq_iff [symmetric])
  qed
qed

section \<open>Properties\<close>

definition sample_heartbeat :: GenericData where
  "sample_heartbeat =
     \<lparr>gHeader = \<lparr>hType = Heartbeat, hId = 7, hSrc = 1001, hDes = 0, hDateTime = 5\<rparr>,
      gKeyboard = None, gMouse = None, gHandshake = None, gMachineName = gostr ''pc'', gRaw = None\<rparr>"

text \<open>C12: For every packet type, the packet that \<open>Unmarshal\<close> reads from the bytes of
  \<open>Marshal\<close> is \<open>wire_view\<close> of the packet that was sent, when the upper halves of the two
  magic numbers agree, and is refused with \<open>InvalidMagic\<close> otherwise.\<close>

theorem packet_roundtrip:
  assumes "Marshal d m = Inr buf" and "gType d < 256"
  shows "fst (Unmarshal buf m') =
    (if drop_bit 16 m = drop_bit 16 m' then Inr (wire_view d) else Inl InvalidMagic)"
  using assms by (rule Unmarshal_Marshal)

theorem packet_roundtrip_witness:
  "\<exists>buf. Marshal sample_heartbeat 0xABCD0000 = Inr buf
     \<and> fst (Unmarshal buf 0xABCD1234) = Inr (wire_view sample_heartbeat)"
proof -
  obtain buf where m: "Marshal sample_heartbeat 0xABCD0000 = Inr buf"
    by (simp add: Marshal_def marshal_payload_def sample_heartbeat_def Let_def)
  have "gType sample_heartbeat < 256" by (simp add: sample_heartbeat_def)
  then show ?thesis
    using m packet_roundtrip [OF m, of "0xABCD1234"] by simp
qed

text \<open>C36: Changing any single byte from 1 to 31 of an accepted packet to another value makes
  \<open>Unmarshal\<close> refuse it: bytes 2 and 3 by the magic number, all others by the checksum.\<close>

theorem single_byte_corruption_detected:
  assumes "fst (Unmarshal b m) = Inr d" and "1 \<le> i" and "i < 32" and "i < length b"
    and "x \<noteq> b ! i"
  shows "fst (Unmarshal (b[i := x]) m) =
    Inl (if i = 2 \<or> i = 3 then InvalidMagic else InvalidChecksum)"
  using assms by (rule Unmarshal_corrupt)

theorem single_byte_corruption_detected_witness:
  "fst (Unmarshal ((replicate 32 0)[5 := 1]) 0) = Inl InvalidChecksum"
proof -
  have "fst (Unmarshal (replicate 32 0) 0) \<noteq> Inl e" for e
    by (simp add: Unmarshal_def Let_def checksum_def gosub_replicate sum_list_replicate)
  then obtain d where "fst (Unmarshal (replicate 32 0) 0) = Inr d"
    by (cases "fst (Unmarshal (replicate 32 0) 0)") auto
  then show ?thesis
    using single_byte_corruption_detected [of "replicate 32 0" 0 d 5 1] by simp
qed

text \<open>\<open>Marshal\<close> fails exactly when the data that a keyboard, mouse or handshake packet
  needs is missing, with the error of that type, and otherwise returns 64 bytes for a big
  package and 32 for any other.\<close>

lemma Marshal_result:
  "case Marshal d m of
     Inr buf \<Rightarrow> length buf = (if IsBigPackage (gType d) then 64 else 32)
        \<and> \<not> (gType d = Keyboard \<and> gKeyboard d = None)
        \<and> \<not> (gType d = Mouse \<and> gMouse d = None)
        \<and> \<not> (gType d \<in> {Handshake, HandshakeAck} \<and> gHandshake d = None)
   | Inl e \<Rightarrow> e = KeyboardDataMissing \<and> gType d = Keyboard \<and> gKeyboard d = None
        \<or> e = MouseDataMissing \<and> gType d = Mouse \<and> gMouse d = None
        \<or> e = HandshakeDataMissing \<and> gType d \<in> {Handshake, HandshakeAck} \<and> gHandshake d = None"
proof (cases "Marshal d m")
  case (Inl e)
  then show ?thesis
    by (auto simp add: Marshal_def marshal_payload_def Let_def split: if_splits option.splits sum.splits)
next
  case (Inr buf)
  have "\<exists>p. marshal_payload d (marshal_header d (replicate (package_size (gType d)) 0)) = Inr p"
    using Inr by (auto simp add: Marshal_def Let_def split: sum.splits)
  then show ?thesis using Inr Marshal_length [OF Inr]
    by (auto simp add: marshal_payload_def package_size_def Let_def split: option.splits)
qed

text \<open>\<open>Unmarshal\<close> accepts a buffer exactly when it has at least 24 bytes, bytes 2 and 3
  are the upper half of the magic number and byte 1 is the checksum of bytes 2 to 31; the type
  byte and the bytes from 32 on are not covered.\<close>

lemma Unmarshal_accepts:
  "(\<exists>d. fst (Unmarshal b m) = Inr d) \<longleftrightarrow>
     24 \<le> length b \<and> b ! 2 = ucast (drop_bit 16 m) \<and> b ! 3 = ucast (drop_bit 24 m) \<and>
     b ! 1 = checksum b"
  by (rule Unmarshal_accepts_iff)

end
