(* ===== verification/Aes.thy ===== *)
theory Aes
  imports Prelude
begin

text \<open>
  The block cipher that \<open>aes.NewCipher\<close> of Go's standard library returns (FIPS 197), for keys
  of 16, 24 or 32 bytes: key expansion, encryption and decryption of one 16-byte block.
  Go's \<open>cipher.Block\<close> interface is the locale \<open>block_cipher\<close>: one block in, one block out,
  and decryption undoes encryption.  Its interpretation on these definitions is what the
  cipher mode and the network theories rest on; no property of secrecy is claimed.
\<close>

section \<open>Bytes and columns\<close>

type_synonym w4 = "u8 \<times> u8 \<times> u8 \<times> u8"
type_synonym aes_block = "w4 \<times> w4 \<times> w4 \<times> w4"

definition xtime :: "u8 \<Rightarrow> u8" where
  "xtime b = push_bit 1 b XOR (if bit b 7 then 0x1b else 0)"

definition sbox_table :: "u8 list" where
  "sbox_table =
    [99, 124, 119, 123, 242, 107, 111, 197, 48, 1, 103, 43, 254, 215, 171, 118,
     202, 130, 201, 125, 250, 89, 71, 240, 173, 212, 162, 175, 156, 164, 114, 192,
     183, 253, 147, 38, 54, 63, 247, 204, 52, 165, 229, 241, 113, 216, 49, 21,
     4, 199, 35, 195, 24, 150, 5, 154, 7, 18, 128, 226, 235, 39, 178, 117,
     9, 131, 44, 26, 27, 110, 90, 160, 82, 59, 214, 179, 41, 227, 47, 132,
     83, 209, 0, 237, 32, 252, 177, 91, 106, 203, 190, 57, 74, 76, 88, 207,
     208, 239, 170, 251, 67, 77, 51, 133, 69, 249, 2, 127, 80, 60, 159, 168,
     81, 163, 64, 143, 146, 157, 56, 245, 188, 182, 218, 33, 16, 255, 243, 210,
     205, 12, 19, 236, 95, 151, 68, 23, 196, 167, 126, 61, 100, 93, 25, 115,
     96, 129, 79, 220, 34, 42, 144, 136, 70, 238, 184, 20, 222, 94, 11, 219,
     224, 50, 58, 10, 73, 6, 36, 92, 194, 211, 172, 98, 145, 149, 228, 121,
     231, 200, 55, 109, 141, 213, 78, 169, 108, 86, 244, 234, 101, 122, 174, 8,
     186, 120, 37, 46, 28, 166, 180, 198, 232, 221, 116, 31, 75, 189, 139, 138,
     112, 62, 181, 102, 72, 3, 246, 14, 97, 53, 87, 185, 134, 193, 29, 158,
     225, 248, 152, 17, 105, 217, 142, 148, 155, 30, 135, 233, 206, 85, 40, 223,
     140, 161, 137, 13, 191, 230, 66, 104, 65, 153, 45, 15, 176, 84, 187, 22]"

definition inv_sbox_table :: "u8 list" where
  "inv_sbox_table =
    [82, 9, 106, 213, 48, 54, 165, 56, 191, 64, 163, 158, 129, 243, 215, 251,
     124, 227, 57, 130, 155, 47, 255, 135, 52, 142, 67, 68, 196, 222, 233, 203,
     84, 123, 148, 50, 166, 194, 35, 61, 238, 76, 149, 11, 66, 250, 195, 78,
     8, 46, 161, 102, 40, 217, 36, 178, 118, 91, 162, 73, 109, 139, 209, 37,
     114, 248, 246, 100, 134, 104, 152, 22, 212, 164, 92, 204, 93, 101, 182, 146,
     108, 112, 72, 80, 253, 237, 185, 218, 94, 21, 70, 87, 167, 141, 157, 132,
     144, 216, 171, 0, 140, 188, 211, 10, 247, 228, 88, 5, 184, 179, 69, 6,
     208, 44, 30, 143, 202, 63, 15, 2, 193, 175, 189, 3, 1, 19, 138, 107,
     58, 145, 17, 65, 79, 103, 220, 234, 151, 242, 207, 206, 240, 180, 230, 115,
     150, 172, 116, 34, 231, 173, 53, 133, 226, 249, 55, 232, 28, 117, 223, 110,
     71, 241, 26, 113, 29, 41, 197, 137, 111, 183, 98, 14, 170, 24, 190, 27,
     252, 86, 62, 75, 198, 210, 121, 32, 154, 219, 192, 254, 120, 205, 90, 244,
     31, 221, 168, 51, 136, 7, 199, 49, 177, 18, 16, 89, 39, 128, 236, 95,
     96, 81, 127, 169, 25, 181, 74, 13, 45, 229, 122, 159, 147, 201, 156, 239,
     160, 224, 59, 77, 174, 42, 245, 176, 200, 235, 187, 60, 131, 83, 153, 97,
     23, 43, 4, 126, 186, 119, 214, 38, 225, 105, 20, 99, 85, 33, 12, 125]"

definition sbox :: "u8 \<Rightarrow> u8" where
  "sbox b = sbox_table ! unat b"

definition inv_sbox :: "u8 \<Rightarrow> u8" where
  "inv_sbox b = inv_sbox_table ! unat b"

fun xor4 :: "w4 \<Rightarrow> w4 \<Rightarrow> w4" where
  "xor4 (a, b, c, d) (a', b', c', d') = (a XOR a', b XOR b', c XOR c', d XOR d')"

fun map4 :: "('a \<Rightarrow> 'b) \<Rightarrow> 'a \<times> 'a \<times> 'a \<times> 'a \<Rightarrow> 'b \<times> 'b \<times> 'b \<times> 'b" where
  "map4 f (a, b, c, d) = (f a, f b, f c, f d)"

fun mix_column :: "w4 \<Rightarrow> w4" where
  "mix_column (a, b, c, d) =
    (xtime a XOR (xtime b XOR b) XOR c XOR d,
     a XOR xtime b XOR (xtime c XOR c) XOR d,
     a XOR b XOR xtime c XOR (xtime d XOR d),
     (xtime a XOR a) XOR b XOR c XOR xtime d)"

definition mul9 :: "u8 \<Rightarrow> u8" where "mul9 a = xtime (xtime (xtime a)) XOR a"
definition mul11 :: "u8 \<Rightarrow> u8" where "mul11 a = xtime (xtime (xtime a)) XOR xtime a XOR a"
definition mul13 :: "u8 \<Rightarrow> u8" where "mul13 a = xtime (xtime (xtime a)) XOR xtime (xtime a) XOR a"
definition mul14 :: "u8 \<Rightarrow> u8" where "mul14 a = xtime (xtime (xtime a)) XOR xtime (xtime a) XOR xtime a"

fun inv_mix_column :: "w4 \<Rightarrow> w4" where
  "inv_mix_column (a, b, c, d) =
    (mul14 a XOR mul11 b XOR mul13 c XOR mul9 d,
     mul9 a XOR mul14 b XOR mul11 c XOR mul13 d,
     mul13 a XOR mul9 b XOR mul14 c XOR mul11 d,
     mul11 a XOR mul13 b XOR mul9 c XOR mul14 d)"

fun shift_rows :: "aes_block \<Rightarrow> aes_block" where
  "shift_rows ((a0, a1, a2, a3), (b0, b1, b2, b3), (c0, c1, c2, c3), (d0, d1, d2, d3)) =
    ((a0, b1, c2, d3), (b0, c1, d2, a3), (c0, d1, a2, b3), (d0, a1, b2, c3))"

fun inv_shift_rows :: "aes_block \<Rightarrow> aes_block" where
  "inv_shift_rows ((a0, a1, a2, a3), (b0, b1, b2, b3), (c0, c1, c2, c3), (d0, d1, d2, d3)) =
    ((a0, d1, c2, b3), (b0, a1, d2, c3), (c0, b1, a2, d3), (d0, c1, b2, a3))"

fun add_round_key :: "aes_block \<Rightarrow> aes_block \<Rightarrow> aes_block" where
  "add_round_key (k0, k1, k2, k3) (a, b, c, d) = (xor4 k0 a, xor4 k1 b, xor4 k2 c, xor4 k3 d)"

section \<open>Key expansion and rounds\<close>

definition round_constant :: "nat \<Rightarrow> w4" where
  "round_constant i = ((xtime ^^ (i - 1)) 1, 0, 0, 0)"

fun rot_word :: "w4 \<Rightarrow> w4" where
  "rot_word (a, b, c, d) = (b, c, d, a)"

fun expand_key :: "nat \<Rightarrow> nat \<Rightarrow> w4 list \<Rightarrow> w4 list" where
  "expand_key nk 0 ws = ws"
| "expand_key nk (Suc n) ws =
    (let i = length ws; t = last ws;
         t = (if i mod nk = 0 then xor4 (map4 sbox (rot_word t)) (round_constant (i div nk))
              else if 6 < nk \<and> i mod nk = 4 then map4 sbox t else t)
     in expand_key nk n (ws @ [xor4 (ws ! (i - nk)) t]))"

fun words_of :: "bytes \<Rightarrow> w4 list" where
  "words_of (a # b # c # d # bs) = (a, b, c, d) # words_of bs"
| "words_of _ = []"

fun round_keys_of :: "w4 list \<Rightarrow> aes_block list" where
  "round_keys_of (a # b # c # d # ws) = (a, b, c, d) # round_keys_of ws"
| "round_keys_of _ = []"

definition aes_round_keys :: "bytes \<Rightarrow> aes_block list" where
  "aes_round_keys key =
    (let nk = length key div 4
     in round_keys_of (expand_key nk (4 * (nk + 7) - nk) (words_of key)))"

fun enc_rounds :: "aes_block list \<Rightarrow> aes_block \<Rightarrow> aes_block" where
  "enc_rounds [] s = s"
| "enc_rounds [k] s = add_round_key k (shift_rows (map4 (map4 sbox) s))"
| "enc_rounds (k # k' # ks) s =
     enc_rounds (k' # ks) (add_round_key k (map4 mix_column (shift_rows (map4 (map4 sbox) s))))"

fun dec_rounds :: "aes_block list \<Rightarrow> aes_block \<Rightarrow> aes_block" where
  "dec_rounds [] s = s"
| "dec_rounds [k] s = map4 (map4 inv_sbox) (inv_shift_rows (add_round_key k s))"
| "dec_rounds (k # k' # ks) s =
     map4 (map4 inv_sbox) (inv_shift_rows (map4 inv_mix_column
       (add_round_key k (dec_rounds (k' # ks) s))))"

fun enc_block :: "aes_block list \<Rightarrow> aes_block \<Rightarrow> aes_block" where
  "enc_block [] s = s"
| "enc_block (k # ks) s = enc_rounds ks (add_round_key k s)"

fun dec_block :: "aes_block list \<Rightarrow> aes_block \<Rightarrow> aes_block" where
  "dec_block [] s = s"
| "dec_block (k # ks) s = add_round_key k (dec_rounds ks s)"

definition to_block :: "bytes \<Rightarrow> aes_block" where
  "to_block b =
    ((b ! 0, b ! 1, b ! 2, b ! 3), (b ! 4, b ! 5, b ! 6, b ! 7),
     (b ! 8, b ! 9, b ! 10, b ! 11), (b ! 12, b ! 13, b ! 14, b ! 15))"

fun from_block :: "aes_block \<Rightarrow> bytes" where
  "from_block ((a0, a1, a2, a3), (b0, b1, b2, b3), (c0, c1, c2, c3), (d0, d1, d2, d3)) =
    [a0, a1, a2, a3, b0, b1, b2, b3, c0, c1, c2, c3, d0, d1, d2, d3]"

definition aes_encrypt :: "bytes \<Rightarrow> bytes \<Rightarrow> bytes" where
  "aes_encrypt key b = from_block (enc_block (aes_round_keys key) (to_block b))"

definition aes_decrypt :: "bytes \<Rightarrow> bytes \<Rightarrow> bytes" where
  "aes_decrypt key b = from_block (dec_block (aes_round_keys key) (to_block b))"

section \<open>Decryption undoes encryption\<close>

lemma inv_sbox_table_ok: "map (\<lambda>s. inv_sbox_table ! unat s) sbox_table = map word_of_nat [0..<256]"
  by code_simp

lemma length_sbox_table: "length sbox_table = 256"
  by (simp add: sbox_table_def)

lemma inv_sbox_sbox [simp]: "inv_sbox (sbox b) = b"
proof -
  have lt: "unat b < 256" using unsigned_less [of b] by simp
  then have "map (\<lambda>s. inv_sbox_table ! unat s) sbox_table ! unat b = b"
    unfolding inv_sbox_table_ok by simp
  with lt show ?thesis by (simp add: inv_sbox_def sbox_def length_sbox_table)
qed

lemma xtime_xor: "xtime (a XOR b) = xtime a XOR xtime b"
  by (auto simp add: xtime_def bit_simps xor.assoc xor.left_commute push_bit_xor)

lemma inv_mix_mix [simp]: "inv_mix_column (mix_column w) = w"
proof (cases w)
  case (fields a b c d)
  show ?thesis unfolding fields
    by (simp add: mul9_def mul11_def mul13_def mul14_def xtime_xor xor.assoc xor.commute xor.left_commute)
qed

lemma inv_shift_shift [simp]: "inv_shift_rows (shift_rows s) = s"
  by (cases s rule: shift_rows.cases) simp

lemma xor4_self [simp]: "xor4 k (xor4 k w) = w"
  by (cases k; cases w) (simp add: xor.assoc [symmetric])

lemma add_round_key_self [simp]: "add_round_key k (add_round_key k s) = s"
  by (cases k; cases s) simp

lemma map4_inverse: "(\<And>x. g (f x) = x) \<Longrightarrow> map4 g (map4 f w) = w"
  by (cases w) simp

lemma dec_enc_rounds: "dec_rounds ks (enc_rounds ks s) = s"
proof (induction ks arbitrary: s rule: induct_list012)
  case (3 k k' ks)
  then show ?case by (simp add: map4_inverse)
qed (simp_all add: map4_inverse)

lemma dec_enc_block: "dec_block ks (enc_block ks s) = s"
  by (cases ks) (simp_all add: dec_enc_rounds)

lemma to_from_block [simp]: "to_block (from_block s) = s"
  by (cases s rule: from_block.cases) (simp add: to_block_def)

lemma length_from_block [simp]: "length (from_block s) = 16"
  by (cases s rule: from_block.cases) simp

lemma list_16:
  assumes "length b = 16"
  shows "b = [b ! 0, b ! 1, b ! 2, b ! 3, b ! 4, b ! 5, b ! 6, b ! 7,
    b ! 8, b ! 9, b ! 10, b ! 11, b ! 12, b ! 13, b ! 14, b ! 15]"
proof -
  have "b = map ((!) b) [0..<16]" using assms by (metis map_nth)
  also have "\<dots> = [b ! 0, b ! 1, b ! 2, b ! 3, b ! 4, b ! 5, b ! 6, b ! 7,
    b ! 8, b ! 9, b ! 10, b ! 11, b ! 12, b ! 13, b ! 14, b ! 15]"
    by (simp add: upt_rec numeral_eq_Suc)
  finally show ?thesis .
qed

lemma from_to_block: "length b = 16 \<Longrightarrow> from_block (to_block b) = b"
  using list_16 [of b] by (simp add: to_block_def)

section \<open>The block cipher interface\<close>

text \<open>Go's \<open>cipher.Block\<close> with a block size of 16.\<close>

locale block_cipher =
  fixes E :: "bytes \<Rightarrow> bytes" and D :: "bytes \<Rightarrow> bytes"
  assumes length_E: "length b = 16 \<Longrightarrow> length (E b) = 16"
    and D_E: "length b = 16 \<Longrightarrow> D (E b) = b"

interpretation aes: block_cipher "aes_encrypt key" "aes_decrypt key" for key
  by unfold_locales (simp_all add: aes_encrypt_def aes_decrypt_def dec_enc_block from_to_block)

end
