(* ===== verification/GoString.thy ===== *)
theory GoString
  imports Prelude
begin

text \<open>
  Go strings as the source uses them: \<open>for i, r := range s\<close> (UTF-8 decoding as in
  \<open>unicode/utf8\<close>, an invalid byte giving U+FFFD of width 1), \<open>string(runes)\<close> (UTF-8
  encoding), and the functions of package \<open>strings\<close> on bytes.  The main lemmas say that
  ranging over an encoded list of runes gives the runes back and where the first occurrence
  of a separator is.
\<close>

section \<open>UTF-8\<close>

definition rune_error :: nat where "rune_error = 0xFFFD"

definition is_cont :: "nat \<Rightarrow> bool" where
  "is_cont b \<longleftrightarrow> 0x80 \<le> b \<and> b \<le> 0xBF"

text \<open>\<open>utf8.DecodeRuneInString\<close>: the rune at the head and its width.\<close>

fun decode_rune :: "nat list \<Rightarrow> nat \<times> nat" where
  "decode_rune [] = (rune_error, 0)"
| "decode_rune (a # bs) =
    (if a < 0x80 then (a, 1)
     else if 0xC2 \<le> a \<and> a \<le> 0xDF then
       (case bs of
          b # _ \<Rightarrow> if is_cont b then ((a - 0xC0) * 64 + (b - 0x80), 2) else (rune_error, 1)
        | [] \<Rightarrow> (rune_error, 1))
     else if 0xE0 \<le> a \<and> a \<le> 0xEF then
       (case bs of
          b # c # _ \<Rightarrow>
            if (if a = 0xE0 then 0xA0 else 0x80) \<le> b \<and> b \<le> (if a = 0xED then 0x9F else 0xBF)
               \<and> is_cont c
            then ((a - 0xE0) * 4096 + (b - 0x80) * 64 + (c - 0x80), 3) else (rune_error, 1)
        | _ \<Rightarrow> (rune_error, 1))
     else if 0xF0 \<le> a \<and> a \<le> 0xF4 then
       (case bs of
          b # c # d # _ \<Rightarrow>
            if (if a = 0xF0 then 0x90 else 0x80) \<le> b \<and> b \<le> (if a = 0xF4 then 0x8F else 0xBF)
               \<and> is_cont c \<and> is_cont d
            then ((a - 0xF0) * 262144 + (b - 0x80) * 4096 + (c - 0x80) * 64 + (d - 0x80), 4)
            else (rune_error, 1)
        | _ \<Rightarrow> (rune_error, 1))
     else (rune_error, 1))"

lemma decode_rune_width: "bs \<noteq> [] \<Longrightarrow> 1 \<le> snd (decode_rune bs) \<and> snd (decode_rune bs) \<le> length bs"
  by (cases bs rule: decode_rune.cases) (auto split: list.splits)

text \<open>\<open>for i, r := range s\<close>: the byte index and the rune of every iteration.\<close>

function range_from :: "nat \<Rightarrow> gostring \<Rightarrow> (nat \<times> nat) list" where
  "range_from i s =
    (if s = [] then []
     else let (r, n) = decode_rune (map unat s) in (i, r) # range_from (i + n) (drop n s))"
  by pat_completeness auto
termination
proof (relation "measure (\<lambda>(i, s). length s)")
  fix i :: nat and s :: gostring and x r n
  assume "s \<noteq> []" and "x = decode_rune (map unat s)" and "(r, n) = x"
  then have "1 \<le> n" using decode_rune_width [of "map unat s"] by (metis Nil_is_map_conv snd_conv)
  with \<open>s \<noteq> []\<close> show "((i + n, drop n s), (i, s)) \<in> measure (\<lambda>(i, s). length s)" by simp
qed simp

declare range_from.simps [simp del]

abbreviation range_string :: "gostring \<Rightarrow> (nat \<times> nat) list" where
  "range_string s \<equiv> range_from 0 s"

text \<open>\<open>utf8.AppendRune\<close> to the empty slice.\<close>

definition encode_rune :: "nat \<Rightarrow> nat list" where
  "encode_rune r =
    (if r \<le> 0x7F then [r]
     else if r \<le> 0x7FF then [0xC0 + r div 64, 0x80 + r mod 64]
     else if 0x10FFFF < r \<or> (0xD800 \<le> r \<and> r \<le> 0xDFFF) then [0xEF, 0xBF, 0xBD]
     else if r \<le> 0xFFFF then [0xE0 + r div 4096, 0x80 + r div 64 mod 64, 0x80 + r mod 64]
     else [0xF0 + r div 262144, 0x80 + r div 4096 mod 64, 0x80 + r div 64 mod 64, 0x80 + r mod 64])"

definition string_of_runes :: "nat list \<Rightarrow> gostring" where
  "string_of_runes rs = map word_of_nat (concat (map encode_rune rs))"

definition is_scalar :: "nat \<Rightarrow> bool" where
  "is_scalar r \<longleftrightarrow> r \<le> 0x10FFFF \<and> \<not> (0xD800 \<le> r \<and> r \<le> 0xDFFF)"

section \<open>Decoding what was encoded\<close>

lemma encode_rune_bytes: "b \<in> set (encode_rune r) \<Longrightarrow> b < 256"
proof -
  assume b: "b \<in> set (encode_rune r)"
  have "r div 64 < 32" if "r \<le> 0x7FF" using that by linarith
  moreover have "r div 4096 < 16" if "r \<le> 0xFFFF" using that by linarith
  moreover have "r div 262144 < 5" if "r \<le> 0x10FFFF" using that by linarith
  ultimately show ?thesis using b
    by (auto simp add: encode_rune_def split: if_splits)
qed

lemma base64_split: "(r::nat) = r div 64 * 64 + r mod 64"
  by simp

lemma decode_encode_rune:
  assumes "is_scalar r"
  shows "decode_rune (encode_rune r @ bs) = (r, length (encode_rune r))"
proof -
  have m: "128 + k mod 64 \<le> 191" for k :: nat by (simp add: less_Suc_eq_le [symmetric])
  consider "r \<le> 0x7F" | "0x7F < r" "r \<le> 0x7FF" | "0x7FF < r" "r \<le> 0xFFFF"
    | "0xFFFF < r" "r \<le> 0x10FFFF"
    using assms unfolding is_scalar_def by linarith
  then show ?thesis
  proof cases
    case 1
    then show ?thesis by (simp add: encode_rune_def)
  next
    case 2
    then have "2 \<le> r div 64" "r div 64 < 32" by linarith+
    with 2 m show ?thesis by (simp add: encode_rune_def is_cont_def)
  next
    case 3
    let ?a = "r div 4096" and ?b = "r div 64 mod 64"
    have a: "?a \<le> 15" using 3 by linarith
    have ab: "r div 64 = ?a * 64 + ?b" using div_mult2_eq [of r 64 64] by simp
    then have sum: "?a * 4096 + ?b * 64 + r mod 64 = r" using base64_split [of r] by linarith
    have b: "?b < 64" by simp
    have e0: "32 \<le> ?b" if "?a = 0" using 3 ab that by linarith
    have "\<not> (55296 \<le> r \<and> r \<le> 57343)" using assms by (simp add: is_scalar_def)
    then have ed: "?b \<le> 31" if "?a = 13" using sum that b by (simp add: not_le) linarith
    from 3 assms have "encode_rune r = [0xE0 + ?a, 0x80 + ?b, 0x80 + r mod 64]"
      by (auto simp add: encode_rune_def is_scalar_def)
    then show ?thesis using a b e0 ed m sum by (simp add: is_cont_def)
  next
    case 4
    let ?a = "r div 262144" and ?b = "r div 4096 mod 64" and ?c = "r div 64 mod 64"
    have a: "?a \<le> 4" using 4 by linarith
    have abc: "r div 64 = r div 4096 * 64 + ?c" using div_mult2_eq [of r 64 64] by simp
    have ab: "r div 4096 = ?a * 64 + ?b" using div_mult2_eq [of r 4096 64] by simp
    have sum: "?a * 262144 + ?b * 4096 + ?c * 64 + r mod 64 = r"
      using base64_split [of r] abc ab by linarith
    have f0: "16 \<le> ?b" if "?a = 0" using 4 ab that by linarith
    have f4: "?b \<le> 15" if "?a = 4" using 4 sum that by linarith
    have b: "?b < 64" by simp
    from 4 have "encode_rune r = [0xF0 + ?a, 0x80 + ?b, 0x80 + ?c, 0x80 + r mod 64]"
      by (simp add: encode_rune_def)
    then show ?thesis using a b f0 f4 m sum by (simp add: is_cont_def)
  qed
qed

lemma encode_rune_ne [simp]: "encode_rune r \<noteq> []"
  by (simp add: encode_rune_def)

lemma string_of_runes_Cons:
  "string_of_runes (r # rs) = map word_of_nat (encode_rune r) @ string_of_runes rs"
  by (simp add: string_of_runes_def)

lemma string_of_runes_Nil [simp]: "string_of_runes [] = []"
  by (simp add: string_of_runes_def)

lemma map_unat_of_nat: "(\<And>b. b \<in> set bs \<Longrightarrow> b < 256) \<Longrightarrow> map (\<lambda>b. unat (word_of_nat b :: u8)) bs = bs"
  by (rule map_idI) (simp add: unat_of_nat)

lemma range_from_encoded:
  assumes "is_scalar r"
  shows "range_from i (map word_of_nat (encode_rune r) @ s) =
    (i, r) # range_from (i + length (encode_rune r)) s"
proof -
  let ?e = "map word_of_nat (encode_rune r) :: u8 list"
  have "map unat (?e @ s) = encode_rune r @ map unat s"
    using map_unat_of_nat [of "encode_rune r"] encode_rune_bytes by (simp add: comp_def)
  then have "decode_rune (map unat (?e @ s)) = (r, length (encode_rune r))"
    using assms by (simp add: decode_encode_rune)
  then show ?thesis
    by (subst range_from.simps) (simp add: Let_def)
qed

lemma range_from_Nil [simp]: "range_from i [] = []"
  by (simp add: range_from.simps)

lemma range_runes: "\<forall>r \<in> set rs. is_scalar r \<Longrightarrow> map snd (range_from i (string_of_runes rs)) = rs"
proof (induction rs arbitrary: i)
  case Nil
  then show ?case by simp
next
  case (Cons r rs)
  then show ?case
    by (simp add: string_of_runes_Cons range_from_encoded)
qed

lemma range_ascii:
  "\<forall>b \<in> set s. b < 0x80 \<Longrightarrow> range_from i s = zip [i..<i + length s] (map unat s)"
proof (induction s arbitrary: i)
  case Nil
  then show ?case by simp
next
  case (Cons b s)
  then have "unat b < 0x80" by (simp add: word_less_nat_alt)
  then have "decode_rune (map unat (b # s)) = (unat b, 1)" by simp
  moreover have "[i..<i + length (b # s)] = i # [Suc i..<Suc i + length s]"
    by (simp add: upt_rec)
  ultimately show ?case using Cons
    by (subst range_from.simps) (simp add: Let_def del: decode_rune.simps upt.simps)
qed

section \<open>Functions of package strings\<close>

definition has_prefix :: "gostring \<Rightarrow> gostring \<Rightarrow> bool" where
  "has_prefix s p \<longleftrightarrow> length p \<le> length s \<and> take (length p) s = p"

definition has_suffix :: "gostring \<Rightarrow> gostring \<Rightarrow> bool" where
  "has_suffix s p \<longleftrightarrow> length p \<le> length s \<and> drop (length s - length p) s = p"

text \<open>\<open>strings.Index\<close>, with \<open>None\<close> for -1.\<close>

fun index_of :: "gostring \<Rightarrow> gostring \<Rightarrow> nat option" where
  "index_of s p =
    (if has_prefix s p then Some 0
     else case s of [] \<Rightarrow> None | _ # s' \<Rightarrow> map_option Suc (index_of s' p))"

declare index_of.simps [simp del]

definition trim_right :: "u8 \<Rightarrow> gostring \<Rightarrow> gostring" where
  "trim_right c s = rev (dropWhile (\<lambda>b. b = c) (rev s))"

lemma has_prefix_append [simp]: "has_prefix (p @ s) p"
  by (simp add: has_prefix_def)

lemma index_of_here: "has_prefix s p \<Longrightarrow> index_of s p = Some 0"
  by (simp add: index_of.simps [of s p])

lemma index_of_Some: "index_of s p = Some i \<Longrightarrow> has_prefix (drop i s) p \<and> i \<le> length s"
proof (induction s arbitrary: i)
  case Nil
  then show ?case by (auto simp add: index_of.simps [of "[]"] split: if_splits)
next
  case (Cons c s)
  then show ?case by (auto simp add: index_of.simps [of "c # s"] split: if_splits)
qed

lemma trim_right_id: "s = [] \<or> last s \<noteq> c \<Longrightarrow> trim_right c s = s"
  by (cases s rule: rev_cases) (auto simp add: trim_right_def)

lemma trim_right_replicate: "trim_right c (s @ replicate n c) = trim_right c s"
  by (simp add: trim_right_def) (subst dropWhile_append2, auto)

end
