(* ===== verification/Conn.thy ===== *)
theory Conn
  imports Prelude
begin

text \<open>
  What the program uses of \<open>net.Conn\<close> and package \<open>io\<close>: a connection has the bytes that
  will still arrive, the error that a read returns once they are used up, the bytes written so
  far and a script of the outcomes of its further writes.  \<open>io.ReadFull\<close> follows its
  documentation: the reader's own error when nothing was read, \<open>io.ErrUnexpectedEOF\<close> when
  the stream ended inside the buffer.
\<close>

datatype ioerr = EOF | ErrUnexpectedEOF | ErrConn

text \<open>
  \<open>rxEnd\<close> is the error of reads past the end of \<open>rx\<close>: \<open>EOF\<close> after an orderly close,
  \<open>ErrConn\<close> for a reset, a timeout or a closed socket.  An element \<open>(n, fail)\<close> of \<open>wr\<close>
  is the outcome of one \<open>Write\<close>: it took \<open>n\<close> bytes and returned an error if \<open>fail\<close>;
  when the script is empty every write takes all its bytes.
\<close>

record Conn =
  rx :: bytes
  rxEnd :: ioerr
  tx :: bytes
  wr :: "(nat \<times> bool) list"

definition conn_write :: "bytes \<Rightarrow> Conn \<Rightarrow> nat \<times> bool \<times> Conn" where
  "conn_write data c =
    (case wr c of
       [] \<Rightarrow> (length data, False, c\<lparr>tx := tx c @ data\<rparr>)
     | (n, fail) # ws \<Rightarrow>
         (min n (length data), fail, c\<lparr>tx := tx c @ take n data, wr := ws\<rparr>))"

definition ReadFull :: "nat \<Rightarrow> Conn \<Rightarrow> (ioerr + bytes) \<times> Conn" where
  "ReadFull n c =
    (if n \<le> length (rx c) then (Inr (take n (rx c)), c\<lparr>rx := drop n (rx c)\<rparr>)
     else if rx c = [] then (Inl (rxEnd c), c)
     else (Inl (if rxEnd c = EOF then ErrUnexpectedEOF else rxEnd c), c\<lparr>rx := []\<rparr>))"

lemma conn_write_cases:
  "conn_write data c = (length data, False, c\<lparr>tx := tx c @ data\<rparr>) \<and> wr c = []
   \<or> (\<exists>n fail ws. wr c = (n, fail) # ws \<and>
        conn_write data c =
          (min n (length data), fail, c\<lparr>tx := tx c @ take n data, wr := ws\<rparr>))"
  by (cases "wr c") (auto simp add: conn_write_def)

lemma conn_write_frame:
  assumes "conn_write data c = (n, fail, c')"
  shows "rx c' = rx c" and "rxEnd c' = rxEnd c" and "n \<le> length data"
    and "tx c' = tx c @ take n data"
  using assms conn_write_cases [of data c] by (auto simp add: min_def)

lemma ReadFull_ok: "length bs = n \<Longrightarrow> rx c = bs @ rest \<Longrightarrow> ReadFull n c = (Inr bs, c\<lparr>rx := rest\<rparr>)"
  by (auto simp add: ReadFull_def)

lemma ReadFull_Inr:
  "ReadFull n c = (Inr bs, c') \<Longrightarrow>
   length bs = n \<and> rx c = bs @ rx c' \<and> c' = c\<lparr>rx := rx c'\<rparr>"
  by (auto simp add: ReadFull_def split: if_splits)

lemma ReadFull_frame:
  "ReadFull n c = (r, c') \<Longrightarrow> tx c' = tx c \<and> rxEnd c' = rxEnd c \<and> wr c' = wr c
     \<and> length (rx c') \<le> length (rx c)"
  by (auto simp add: ReadFull_def split: if_splits)

lemma ReadFull_closed: "rx c = [] \<Longrightarrow> 0 < n \<Longrightarrow> ReadFull n c = (Inl (rxEnd c), c)"
  by (simp add: ReadFull_def)

end
