(* ===== verification/Crypto.thy ===== *)
theory Crypto
  imports Aes GoString Conn
begin

text \<open>
  \<open>crypto/crypto.go\<close>: key and magic number derivation, the CBC stream cipher of a session
  and its primer blocks.  CBC is defined over any \<open>cipher.Block\<close>; what is proved in the
  locale \<open>block_cipher\<close> holds for AES by its interpretation.  PBKDF2 (a third-party package)
  and SHA-512 are arguments of the derivation.  The main lemmas: two stream ciphers whose
  chaining values agree stay in step, whatever the chunks in which the receiver decrypts.
\<close>

section \<open>Key derivation\<close>

definition InitialIV :: gostring where
  "InitialIV = gostr ''18446744073709551615''"

record MWBCrypto =
  cKey :: bytes
  cIV :: bytes
  cMagicNumber :: u32

text \<open>
  The loop writes the low 16 bits of each rune at twice its byte index; the bytes of the
  buffer that no rune starts at stay zero.
\<close>

definition stringToUTF16LE :: "gostring \<Rightarrow> bytes" where
  "stringToUTF16LE s =
     fold (\<lambda>(i, c) buf. copy_into (2 * i) (2 * i + 2) (le 2 (word_of_nat c :: u16)) buf)
       (range_string s) (replicate (2 * length s) 0)"

definition get24BitHash :: "(bytes \<Rightarrow> bytes) \<Rightarrow> gostring \<Rightarrow> u32" where
  "get24BitHash sha512 key =
    (if key = [] then 0
     else
       let bs = copy_into 0 32 key (replicate 32 0);
           hashValue = ((\<lambda>h. sha512 h) ^^ 50000) (sha512 bs);
           at = (\<lambda>i. uint (hashValue ! i))
       in word_of_int (push_bit 23 (at 0) + push_bit 16 (at 1)
            + push_bit 8 (at (length hashValue - 1)) + at 2))"

definition NewMWBCrypto ::
  "(bytes \<Rightarrow> bytes \<Rightarrow> nat \<Rightarrow> nat \<Rightarrow> bytes) \<Rightarrow> (bytes \<Rightarrow> bytes) \<Rightarrow> gostring \<Rightarrow> MWBCrypto" where
  "NewMWBCrypto pbkdf2 sha512 securityKey =
    (let saltUTF16 = stringToUTF16LE InitialIV in
     \<lparr>cKey = pbkdf2 securityKey saltUTF16 50000 32,
      cIV = copy_into 0 16 (gosub 0 16 InitialIV) (replicate 16 0),
      cMagicNumber = get24BitHash sha512 securityKey\<rparr>)"

section \<open>Cipher block chaining\<close>

definition xor_bytes :: "bytes \<Rightarrow> bytes \<Rightarrow> bytes" where
  "xor_bytes a b = map2 (XOR) a b"

text \<open>
  \<open>CryptBlocks\<close> of \<open>cipher.NewCBCEncrypter\<close> and \<open>cipher.NewCBCDecrypter\<close>: the second
  component is the chaining value kept for the next call.
\<close>

function cbc_encrypt :: "(bytes \<Rightarrow> bytes) \<Rightarrow> bytes \<Rightarrow> bytes \<Rightarrow> bytes \<times> bytes" where
  "cbc_encrypt E iv p =
    (if length p < 16 then ([], iv)
     else let c = E (xor_bytes (take 16 p) iv); (cs, iv') = cbc_encrypt E c (drop 16 p)
          in (c @ cs, iv'))"
  by pat_completeness auto
termination
  by (relation "measure (\<lambda>(E, iv, p). length p)") auto

function cbc_decrypt :: "(bytes \<Rightarrow> bytes) \<Rightarrow> bytes \<Rightarrow> bytes \<Rightarrow> bytes \<times> bytes" where
  "cbc_decrypt D iv c =
    (if length c < 16 then ([], iv)
     else let p = xor_bytes (D (take 16 c)) iv; (ps, iv') = cbc_decrypt D (take 16 c) (drop 16 c)
          in (p @ ps, iv'))"
  by pat_completeness auto
termination
  by (relation "measure (\<lambda>(D, iv, c). length c)") auto

declare cbc_encrypt.simps [simp del] cbc_decrypt.simps [simp del]

section \<open>The stream cipher of a session\<close>

record StreamCipher =
  scKey :: bytes
  encIV :: bytes
  decIV :: bytes

text \<open>\<open>None\<close> is the panic on an error of \<open>aes.NewCipher\<close>.\<close>

definition NewStreamCipher :: "MWBCrypto \<Rightarrow> StreamCipher option" where
  "NewStreamCipher c =
    (if length (cKey c) \<notin> {16, 24, 32} then None
     else Some \<lparr>scKey = cKey c, encIV = cIV c, decIV = cIV c\<rparr>)"

text \<open>\<open>None\<close> is the panic on a length that is not a multiple of the block size.\<close>

definition Encrypt :: "bytes \<Rightarrow> StreamCipher \<Rightarrow> (bytes \<times> StreamCipher) option" where
  "Encrypt plaintext sc =
    (if length plaintext mod 16 \<noteq> 0 then None
     else let (ciphertext, iv) = cbc_encrypt (aes_encrypt (scKey sc)) (encIV sc) plaintext
          in Some (ciphertext, sc\<lparr>encIV := iv\<rparr>))"

text \<open>Here \<open>None\<close> is the \<open>nil\<close> slice.\<close>

definition Decrypt :: "bytes \<Rightarrow> StreamCipher \<Rightarrow> bytes option \<times> StreamCipher" where
  "Decrypt ciphertext sc =
    (if length ciphertext mod 16 \<noteq> 0 then (None, sc)
     else if length ciphertext = 0 then (None, sc)
     else let (plaintext, iv) = cbc_decrypt (aes_decrypt (scKey sc)) (decIV sc) ciphertext
          in (Some plaintext, sc\<lparr>decIV := iv\<rparr>))"

text \<open>
  The primer blocks: \<open>rnd\<close> are the 16 bytes of \<open>crypto/rand\<close> (\<open>None\<close> if it failed); the
  Boolean result is whether an error is returned.
\<close>

definition SendRandomBlock ::
  "bytes option \<Rightarrow> StreamCipher \<Rightarrow> Conn \<Rightarrow> bool \<times> StreamCipher \<times> Conn" where
  "SendRandomBlock rnd sc w =
    (case rnd of
       None \<Rightarrow> (True, sc, w)
     | Some ranData \<Rightarrow>
         (case Encrypt (take 16 (ranData @ replicate 16 0)) sc of
            None \<Rightarrow> (True, sc, w)
          | Some (encrypted, sc) \<Rightarrow>
              (let (n, fail, w) = conn_write encrypted w in (fail, sc, w))))"

definition ReceiveRandomBlock :: "StreamCipher \<Rightarrow> Conn \<Rightarrow> ioerr option \<times> StreamCipher \<times> Conn" where
  "ReceiveRandomBlock sc r =
    (case ReadFull 16 r of
       (Inl e, r) \<Rightarrow> (Some e, sc, r)
     | (Inr buf, r) \<Rightarrow> (None, snd (Decrypt buf sc), r))"

section \<open>Lemmas\<close>

lemma length_xor_bytes [simp]: "length (xor_bytes a b) = min (length a) (length b)"
  by (simp add: xor_bytes_def)

lemma xor_bytes_cancel: "length a = length b \<Longrightarrow> xor_bytes (xor_bytes a b) b = a"
  by (rule nth_equalityI) (simp_all add: xor_bytes_def xor.assoc)

lemma blocks_cases:
  assumes "length p mod 16 = 0" and "p \<noteq> []"
  shows "16 \<le> length p" and "length (drop 16 p) mod 16 = 0" and "length (drop 16 p) < length p"
proof -
  obtain k where k: "length p = 16 * k" using assms(1) by auto
  with assms(2) have "0 < k" by (cases k) auto
  then obtain j where "k = Suc j" by (cases k) auto
  with k show "16 \<le> length p" and "length (drop 16 p) mod 16 = 0" and "length (drop 16 p) < length p"
    by simp_all
qed

text \<open>What holds over every block cipher.\<close>

context block_cipher
begin

lemma cbc_step:
  "16 \<le> length p \<Longrightarrow> cbc_encrypt E iv p =
     (let c = E (xor_bytes (take 16 p) iv)
      in (c @ fst (cbc_encrypt E c (drop 16 p)), snd (cbc_encrypt E c (drop 16 p))))"
  by (simp add: cbc_encrypt.simps [of E iv p] Let_def split_beta)

lemma cbc_encrypt_Nil [simp]: "cbc_encrypt E iv [] = ([], iv)"
  by (simp add: cbc_encrypt.simps)

lemma block_E: "length iv = 16 \<Longrightarrow> 16 \<le> length p \<Longrightarrow> length (E (xor_bytes (take 16 p) iv)) = 16"
  by (rule length_E) simp

lemma cbc_encrypt_length:
  "length iv = 16 \<Longrightarrow> length p mod 16 = 0 \<Longrightarrow>
   length (fst (cbc_encrypt E iv p)) = length p \<and> length (snd (cbc_encrypt E iv p)) = 16"
proof (induction p arbitrary: iv rule: measure_induct_rule [where f = length])
  case (less p)
  show ?case
  proof (cases "p = []")
    case True
    then show ?thesis using less.prems by simp
  next
    case False
    note l = blocks_cases [OF less.prems(2) False]
    have "length (fst (cbc_encrypt E (E (xor_bytes (take 16 p) iv)) (drop 16 p))) = length (drop 16 p)
        \<and> length (snd (cbc_encrypt E (E (xor_bytes (take 16 p) iv)) (drop 16 p))) = 16"
      by (rule less.IH) (use l less.prems in \<open>simp_all add: block_E\<close>)
    with l less.prems show ?thesis by (simp add: cbc_step [OF l(1)] Let_def block_E)
  qed
qed

lemma cbc_encrypt_append:
  "length iv = 16 \<Longrightarrow> length a mod 16 = 0 \<Longrightarrow>
   cbc_encrypt E iv (a @ b) =
     (let (ca, iv') = cbc_encrypt E iv a; (cb, iv'') = cbc_encrypt E iv' b in (ca @ cb, iv''))"
proof (induction a arbitrary: iv rule: measure_induct_rule [where f = length])
  case (less a)
  show ?case
  proof (cases "a = []")
    case True
    then show ?thesis by (simp add: split_beta)
  next
    case False
    note l = blocks_cases [OF less.prems(2) False]
    have "cbc_encrypt E (E (xor_bytes (take 16 a) iv)) (drop 16 a @ b) =
       (let (ca, iv') = cbc_encrypt E (E (xor_bytes (take 16 a) iv)) (drop 16 a);
            (cb, iv'') = cbc_encrypt E iv' b in (ca @ cb, iv''))"
      by (rule less.IH) (use l less.prems in \<open>simp_all add: block_E\<close>)
    moreover have "16 \<le> length (a @ b)" using l by simp
    ultimately show ?thesis using l
      by (simp only: cbc_step [OF l(1)] cbc_step [of "a @ b"]) (simp add: Let_def split_beta)
  qed
qed

text \<open>Decryption with the same chaining value recovers the text and the chaining value.\<close>

lemma cbc_decrypt_encrypt:
  "length iv = 16 \<Longrightarrow> length p mod 16 = 0 \<Longrightarrow>
   cbc_decrypt D iv (fst (cbc_encrypt E iv p)) = (p, snd (cbc_encrypt E iv p))"
proof (induction p arbitrary: iv rule: measure_induct_rule [where f = length])
  case (less p)
  show ?case
  proof (cases "p = []")
    case True
    then show ?thesis by (simp add: cbc_decrypt.simps)
  next
    case False
    note l = blocks_cases [OF less.prems(2) False]
    let ?x = "xor_bytes (take 16 p) iv"
    let ?c = "E ?x"
    have c: "length ?c = 16" "D ?c = ?x"
      using l less.prems by (simp_all add: block_E D_E)
    have "cbc_decrypt D ?c (fst (cbc_encrypt E ?c (drop 16 p))) =
        (drop 16 p, snd (cbc_encrypt E ?c (drop 16 p)))"
      by (rule less.IH) (use l c in simp_all)
    moreover have "cbc_decrypt D iv (?c @ r) =
        (take 16 p @ fst (cbc_decrypt D ?c r), snd (cbc_decrypt D ?c r))" for r
      using c l less.prems
      by (subst cbc_decrypt.simps) (simp add: Let_def split_beta xor_bytes_cancel)
    ultimately show ?thesis
      by (simp add: cbc_step [OF l(1)] Let_def)
  qed
qed

end

text \<open>The chaining values are blocks, and so are those after every operation.\<close>

definition sc_wf :: "StreamCipher \<Rightarrow> bool" where
  "sc_wf sc \<longleftrightarrow> length (encIV sc) = 16 \<and> length (decIV sc) = 16"

text \<open>A sender and a receiver in step: one key, and the receiver's chaining value is the sender's.\<close>

definition in_step :: "StreamCipher \<Rightarrow> StreamCipher \<Rightarrow> bool" where
  "in_step s r \<longleftrightarrow> scKey s = scKey r \<and> encIV s = decIV r \<and> length (encIV s) = 16"

lemma Encrypt_total: "length p mod 16 = 0 \<Longrightarrow> \<exists>c sc'. Encrypt p sc = Some (c, sc')"
  by (simp add: Encrypt_def split_beta)

lemma Encrypt_props:
  assumes "Encrypt p sc = Some (c, sc')" and "length (encIV sc) = 16"
  shows "length c = length p" and "length (encIV sc') = 16" and "scKey sc' = scKey sc"
    and "decIV sc' = decIV sc"
  using assms aes.cbc_encrypt_length [of "encIV sc" p "scKey sc"]
  by (auto simp add: Encrypt_def split_beta split: if_splits)

lemma Decrypt_keeps: "scKey (snd (Decrypt c sc)) = scKey sc" "encIV (snd (Decrypt c sc)) = encIV sc"
  by (simp_all add: Decrypt_def split_beta)

lemma Decrypt_Encrypt:
  assumes "Encrypt p s = Some (c, s')" and "in_step s r" and "p \<noteq> []"
  shows "\<exists>r'. Decrypt c r = (Some p, r') \<and> in_step s' r' \<and> encIV r' = encIV r"
proof -
  have p: "length p mod 16 = 0" and iv: "length (encIV s) = 16"
    using assms by (auto simp add: Encrypt_def in_step_def split: if_splits)
  have "length c = length p" using Encrypt_props(1) [OF assms(1) iv] .
  moreover have "c = fst (cbc_encrypt (aes_encrypt (scKey s)) (encIV s) p)"
    "encIV s' = snd (cbc_encrypt (aes_encrypt (scKey s)) (encIV s) p)" "scKey s' = scKey s"
    using assms(1) p by (auto simp add: Encrypt_def split_beta)
  ultimately show ?thesis
    using assms p aes.cbc_decrypt_encrypt [OF iv p, of "scKey s"] Encrypt_props(2) [OF assms(1) iv]
    by (simp add: Decrypt_def in_step_def)
qed

lemma Encrypt_append:
  assumes "length a mod 16 = 0" and "length b mod 16 = 0" and "length (encIV s) = 16"
  shows "Encrypt (a @ b) s =
    (case Encrypt a s of None \<Rightarrow> None | Some (ca, s1) \<Rightarrow>
       (case Encrypt b s1 of None \<Rightarrow> None | Some (cb, s2) \<Rightarrow> Some (ca @ cb, s2)))"
proof -
  have "(length a + length b) mod 16 = 0" using assms by (simp add: mod_add_eq [symmetric])
  then show ?thesis using assms
    by (simp add: Encrypt_def aes.cbc_encrypt_append split_beta)
qed

end
