(* ===== verification/Network.thy ===== *)
theory Network
  imports Protocol Crypto
begin

text \<open>
  \<open>network/client.go\<close> apart from the handshake: a client's state, \<open>Send\<close> with \<open>writeAll\<close>,
  and \<open>readPacket\<close>.  The main lemmas: a successful \<open>Send\<close> puts the encryption of the
  marshalled packet on the connection, a failed write disconnects, and a receiver in step with
  the sender reads back \<open>wire_view\<close> of every packet, in order, whatever follows in the stream.
\<close>

section \<open>Clients\<close>

record Client =
  clConn :: Conn
  clCipher :: StreamCipher
  clMagic :: u32
  clMachineID :: u32
  clRemoteMachineID :: u32
  clMachineName :: gostring
  clConnected :: bool

definition IsConnected :: "Client \<Rightarrow> bool" where
  "IsConnected c = clConnected c"

definition markDisconnected :: "Client \<Rightarrow> Client" where
  "markDisconnected c = c\<lparr>clConnected := False\<rparr>"

section \<open>Sending\<close>

text \<open>The loop over short writes; the Boolean is whether an error is returned.\<close>

function writeAll :: "bytes \<Rightarrow> Conn \<Rightarrow> bool \<times> Conn" where
  "writeAll data c =
    (if data = [] then (False, c)
     else let (n, fail, c) = conn_write data c
          in if fail then (True, c) else writeAll (drop n data) c)"
  by pat_completeness auto
termination
proof (relation "measure (\<lambda>(data, c). length data + length (wr c))")
  fix data :: bytes and c :: Conn and x n y fail c'
  assume "data \<noteq> []" and "x = conn_write data c" and "(n, y) = x" and "(fail, c') = y"
  then have "conn_write data c = (n, fail, c')" by simp
  with \<open>data \<noteq> []\<close> show "((drop n data, c'), (data, c)) \<in> measure (\<lambda>(data, c). length data + length (wr c))"
    using conn_write_cases [of data c] by auto
qed simp

declare writeAll.simps [simp del]

datatype send_error = SendMarshal perror | SendWrite | SendPanic

text \<open>The defaults that \<open>Send\<close> stores in the packet.\<close>

definition fill_defaults :: "Client \<Rightarrow> GenericData \<Rightarrow> GenericData" where
  "fill_defaults c data =
    (let data = (if hSrc (gHeader data) = 0
                 then data\<lparr>gHeader := (gHeader data)\<lparr>hSrc := clMachineID c\<rparr>\<rparr> else data)
     in if gMachineName data = [] \<and> clMachineName c \<noteq> []
        then data\<lparr>gMachineName := clMachineName c\<rparr> else data)"

definition Client_Send :: "GenericData \<Rightarrow> Client \<Rightarrow> send_error option \<times> Client" where
  "Client_Send data c =
    (case Marshal (fill_defaults c data) (clMagic c) of
       Inl e \<Rightarrow> (Some (SendMarshal e), c)
     | Inr plainBytes \<Rightarrow>
         (case Encrypt plainBytes (clCipher c) of
            None \<Rightarrow> (Some SendPanic, c)
          | Some (encrypted, sc) \<Rightarrow>
              (case writeAll encrypted (clConn c) of
                 (True, conn) \<Rightarrow>
                   (Some SendWrite, markDisconnected (c\<lparr>clCipher := sc, clConn := conn\<rparr>))
               | (False, conn) \<Rightarrow> (None, c\<lparr>clCipher := sc, clConn := conn\<rparr>))))"

section \<open>Receiving\<close>

datatype recv_error = RdIO ioerr | RdExt ioerr | RdDecrypt | RdUnmarshal perror

definition readPacket :: "Client \<Rightarrow> (recv_error + GenericData) \<times> Client" where
  "readPacket c =
    (case ReadFull PackageSize (clConn c) of
       (Inl e, conn) \<Rightarrow> (Inl (RdIO e), c\<lparr>clConn := conn\<rparr>)
     | (Inr buf, conn) \<Rightarrow>
         (case Decrypt buf (clCipher c) of
            (None, sc) \<Rightarrow> (Inl RdDecrypt, c\<lparr>clConn := conn, clCipher := sc\<rparr>)
          | (Some plain, sc) \<Rightarrow>
              let pktType = ucast (plain ! 0);
                  unmarshal = (\<lambda>plain c. (case fst (Unmarshal plain (clMagic c)) of
                     Inl e \<Rightarrow> (Inl (RdUnmarshal e), c) | Inr pkt \<Rightarrow> (Inr pkt, c)))
              in if IsBigPackage pktType then
                   (case ReadFull (PackageSizeEx - PackageSize) conn of
                      (Inl e, conn) \<Rightarrow> (Inl (RdExt e), c\<lparr>clConn := conn, clCipher := sc\<rparr>)
                    | (Inr buf2, conn) \<Rightarrow>
                        (case Decrypt buf2 sc of
                           (None, sc) \<Rightarrow> unmarshal plain (c\<lparr>clConn := conn, clCipher := sc\<rparr>)
                         | (Some plain2, sc) \<Rightarrow>
                             unmarshal (plain @ plain2) (c\<lparr>clConn := conn, clCipher := sc\<rparr>)))
                 else unmarshal plain (c\<lparr>clConn := conn, clCipher := sc\<rparr>)))"

definition Client_Receive :: "Client \<Rightarrow> (recv_error + GenericData) \<times> Client" where
  "Client_Receive c = readPacket c"

section \<open>What a write and a send do\<close>

lemma writeAll_spec:
  "writeAll data c = (fail, c') \<Longrightarrow>
   rx c' = rx c \<and> rxEnd c' = rxEnd c \<and> (\<exists>k. tx c' = tx c @ take k data) \<and>
   (\<not> fail \<longrightarrow> tx c' = tx c @ data)"
proof (induction data c arbitrary: fail c' rule: writeAll.induct)
  case (1 data c)
  show ?case
  proof (cases "data = []")
    case True
    with "1.prems" show ?thesis by (simp add: writeAll.simps)
  next
    case False
    obtain n f c1 where w: "conn_write data c = (n, f, c1)" by (metis prod_cases3)
    note fr = conn_write_frame [OF w]
    show ?thesis
    proof (cases f)
      case True
      with "1.prems" False w have "fail" "c' = c1" by (simp_all add: writeAll.simps [of data c])
      with fr show ?thesis by auto
    next
      case nf: False
      with "1.prems" False w have "writeAll (drop n data) c1 = (fail, c')"
        by (simp add: writeAll.simps [of data c])
      then have ih: "rx c' = rx c1 \<and> rxEnd c' = rxEnd c1 \<and> (\<exists>k. tx c' = tx c1 @ take k (drop n data)) \<and>
         (\<not> fail \<longrightarrow> tx c' = tx c1 @ drop n data)"
        using "1.IH" [OF False w [symmetric] refl refl nf] by simp
      then obtain k where "tx c' = tx c @ take n data @ take k (drop n data)" using fr by auto
      then have "tx c' = tx c @ take (n + k) data" by (simp add: take_add)
      with ih fr show ?thesis by auto
    qed
  qed
qed

lemma writeAll_plain: "wr c = [] \<Longrightarrow> writeAll data c = (False, c\<lparr>tx := tx c @ data\<rparr>)"
  by (cases "data = []") (simp_all add: writeAll.simps [of data c] writeAll.simps [of "[]"] conn_write_def)

text \<open>Fields that no operation on a connected client changes.\<close>

definition same_peer :: "Client \<Rightarrow> Client \<Rightarrow> bool" where
  "same_peer c c' \<longleftrightarrow> clMagic c' = clMagic c \<and> clMachineID c' = clMachineID c \<and>
     clMachineName c' = clMachineName c \<and> scKey (clCipher c') = scKey (clCipher c)"

lemma same_peer_refl [simp]: "same_peer c c"
  by (simp add: same_peer_def)

lemma same_peer_trans: "same_peer a b \<Longrightarrow> same_peer b c \<Longrightarrow> same_peer a c"
  by (simp add: same_peer_def)

lemma fill_defaults_same: "same_peer c c' \<Longrightarrow> fill_defaults c' = fill_defaults c"
  by (rule ext) (simp add: fill_defaults_def same_peer_def Let_def)

lemma fill_defaults_type [simp]: "gType (fill_defaults c d) = gType d"
  by (simp add: fill_defaults_def Let_def)

lemma Marshal_mod16: "Marshal d m = Inr p \<Longrightarrow> length p mod 16 = 0 \<and> 32 \<le> length p"
  using Marshal_length [of d m p] by (auto simp add: package_size_def)

lemma Send_cases:
  obtains (bad) e where "Marshal (fill_defaults c d) (clMagic c) = Inl e"
      "Client_Send d c = (Some (SendMarshal e), c)"
  | (good) p x sc f conn where "Marshal (fill_defaults c d) (clMagic c) = Inr p"
      "Encrypt p (clCipher c) = Some (x, sc)" "writeAll x (clConn c) = (f, conn)"
      "Client_Send d c = (if f then Some SendWrite else None,
         c\<lparr>clCipher := sc, clConn := conn, clConnected := clConnected c \<and> \<not> f\<rparr>)"
proof (cases "Marshal (fill_defaults c d) (clMagic c)")
  case (Inl e)
  then show thesis using bad by (simp add: Client_Send_def)
next
  case (Inr p)
  obtain x sc where x: "Encrypt p (clCipher c) = Some (x, sc)"
    using Encrypt_total [OF conjunct1 [OF Marshal_mod16 [OF Inr]]] by blast
  obtain f conn where w: "writeAll x (clConn c) = (f, conn)" by (metis prod.exhaust)
  show thesis
    using good [OF Inr x w] Inr x w
    by (cases f) (simp_all add: Client_Send_def markDisconnected_def)
qed

lemma Send_never_panics: "fst (Client_Send d c) \<noteq> Some SendPanic"
  by (rule Send_cases [of c d]) auto

lemma Send_frame:
  assumes "Client_Send d c = (e, c')" and "length (encIV (clCipher c)) = 16"
  shows "same_peer c c'" and "length (encIV (clCipher c')) = 16"
    and "rx (clConn c') = rx (clConn c)" and "rxEnd (clConn c') = rxEnd (clConn c)"
    and "decIV (clCipher c') = decIV (clCipher c)" and "clRemoteMachineID c' = clRemoteMachineID c"
  using assms Encrypt_props [where sc = "clCipher c"] writeAll_spec [where c = "clConn c"]
  by (cases rule: Send_cases [of c d]; fastforce simp add: same_peer_def)+

text \<open>A send that returns no error.\<close>

lemma Send_ok:
  assumes "Client_Send d c = (None, c')"
  obtains p x where "Marshal (fill_defaults c d) (clMagic c) = Inr p"
    "Encrypt p (clCipher c) = Some (x, clCipher c')" "tx (clConn c') = tx (clConn c) @ x"
    "clConnected c' = clConnected c"
  using assms writeAll_spec [where c = "clConn c"]
  by (cases rule: Send_cases [of c d]) (fastforce split: if_splits)+

lemma Send_error_disconnects:
  assumes "Client_Send d c = (Some e, c')"
  shows "(\<exists>m. e = SendMarshal m) \<and> c' = c \<or> e = SendWrite \<and> \<not> IsConnected c'"
  using assms by (cases rule: Send_cases [of c d]) (auto simp add: IsConnected_def split: if_splits)

section \<open>Reading back what was sent\<close>

text \<open>The decrypted first half of a packet decides, by its type byte, how much is read.\<close>

lemma gType_wire_view [simp]: "gType (wire_view d) = gType d"
  by (simp add: wire_view_def Let_def)

lemma gType_unmarshal: "gType (unmarshal_name b (unmarshal_payload b)) = ucast (b ! 0)"
  by (simp add: unmarshal_name_def unmarshal_payload_def unmarshal_header_def Let_def)

lemma Marshal_type_byte:
  assumes "Marshal d m = Inr p" and "gType d < 256"
  shows "ucast (p ! 0) = gType d"
proof -
  have "fst (Unmarshal p m) = Inr (wire_view d)"
    using Unmarshal_Marshal [OF assms, of m] by simp
  then have "unmarshal_name (p[1 := 0, 2 := 0, 3 := 0]) (unmarshal_payload (p[1 := 0, 2 := 0, 3 := 0]))
      = wire_view d"
    by (auto simp add: Unmarshal_def Let_def split: if_splits)
  then show ?thesis using gType_unmarshal [of "p[1 := 0, 2 := 0, 3 := 0]"] by simp
qed

lemma readPacket_reads:
  assumes d: "Marshal d m = Inr p" "gType d < 256" and enc: "Encrypt p s = Some (x, s')"
    and step: "in_step s (clCipher c)" and rx: "rx (clConn c) = x @ rest"
    and magic: "drop_bit 16 m = drop_bit 16 (clMagic c)"
  shows "\<exists>r'. readPacket c = (Inr (wire_view d), c\<lparr>clConn := (clConn c)\<lparr>rx := rest\<rparr>, clCipher := r'\<rparr>)
     \<and> in_step s' r' \<and> encIV r' = encIV (clCipher c) \<and> scKey r' = scKey (clCipher c)"
proof -
  have len: "length p = package_size (gType d)" using d(1) by (rule Marshal_length)
  have iv: "length (encIV s) = 16" using step unfolding in_step_def by blast
  have um: "fst (Unmarshal p (clMagic c)) = Inr (wire_view d)"
    using Unmarshal_Marshal [OF d, of "clMagic c"] magic by simp
  note ty = Marshal_type_byte [OF d]
  have ne: "p \<noteq> []" using len package_size_bounds [of "gType d"] by auto
  show ?thesis
  proof (cases "IsBigPackage (gType d)")
    case False
    then have l: "length p = 32" using len by (simp add: package_size_def)
    then have "length x = 32" using Encrypt_props(1) [OF enc iv] by simp
    then have rf: "ReadFull 32 (clConn c) = (Inr x, (clConn c)\<lparr>rx := rest\<rparr>)"
      using rx by (intro ReadFull_ok)
    obtain r' where r': "Decrypt x (clCipher c) = (Some p, r')" "in_step s' r'"
      "encIV r' = encIV (clCipher c)"
      using Decrypt_Encrypt [OF enc step ne] by blast
    then have "scKey r' = scKey (clCipher c)" using Decrypt_keeps(1) [of x "clCipher c"] by simp
    with r' rf False um ty show ?thesis by (intro exI [of _ r']) (simp add: readPacket_def Let_def)
  next
    case True
    then have l: "length p = 64" using len by (simp add: package_size_def)
    let ?a = "take 32 p" and ?b = "drop 32 p"
    have ab: "length ?a mod 16 = 0" "length ?b mod 16 = 0" "?a \<noteq> []" "?b \<noteq> []" using l by auto
    obtain xa s1 xb where e: "Encrypt ?a s = Some (xa, s1)" "Encrypt ?b s1 = Some (xb, s')" "x = xa @ xb"
      using enc Encrypt_append [OF ab(1,2) iv] by (auto split: option.splits)
    have iv1: "length (encIV s1) = 16" using Encrypt_props(2) [OF e(1) iv] .
    have lx: "length xa = 32" "length xb = 32"
      using Encrypt_props(1) [OF e(1) iv] Encrypt_props(1) [OF e(2) iv1] l by auto
    obtain r1 where r1: "Decrypt xa (clCipher c) = (Some ?a, r1)" "in_step s1 r1"
      "encIV r1 = encIV (clCipher c)" using Decrypt_Encrypt [OF e(1) step ab(3)] by blast
    obtain r' where r': "Decrypt xb r1 = (Some ?b, r')" "in_step s' r'" "encIV r' = encIV r1"
      using Decrypt_Encrypt [OF e(2) r1(2) ab(4)] by blast
    have k: "scKey r' = scKey (clCipher c)"
      using Decrypt_keeps(1) [of xa "clCipher c"] Decrypt_keeps(1) [of xb r1] r1 r' by simp
    have rf: "ReadFull 32 (clConn c) = (Inr xa, (clConn c)\<lparr>rx := xb @ rest\<rparr>)"
      using rx e lx by (intro ReadFull_ok) simp_all
    have rf2: "ReadFull 32 ((clConn c)\<lparr>rx := xb @ rest\<rparr>) = (Inr xb, (clConn c)\<lparr>rx := rest\<rparr>)"
      using lx by (subst ReadFull_ok [of xb 32 _ rest]) simp_all
    have "?a ! 0 = p ! 0" using l by simp
    with True r1 r' k rf rf2 um ty show ?thesis
      by (intro exI [of _ r']) (simp add: readPacket_def Let_def)
  qed
qed

text \<open>A successful read uses up at least one small packet.\<close>

lemma readPacket_frame:
  assumes "readPacket c = (r, c')"
  shows "same_peer c c'" and "tx (clConn c') = tx (clConn c)" and "wr (clConn c') = wr (clConn c)"
    and "rxEnd (clConn c') = rxEnd (clConn c)"
    and "encIV (clCipher c') = encIV (clCipher c)" and "clRemoteMachineID c' = clRemoteMachineID c"
    and "clConnected c' = clConnected c" and "length (rx (clConn c')) \<le> length (rx (clConn c))"
    and "r = Inr d \<Longrightarrow> length (rx (clConn c')) + 32 \<le> length (rx (clConn c))"
proof -
  obtain q conn where rf: "ReadFull 32 (clConn c) = (q, conn)" by fastforce
  note f1 = ReadFull_frame [OF rf]
  have "same_peer c c' \<and> tx (clConn c') = tx (clConn c) \<and> wr (clConn c') = wr (clConn c)
    \<and> rxEnd (clConn c') = rxEnd (clConn c) \<and> encIV (clCipher c') = encIV (clCipher c)
    \<and> clRemoteMachineID c' = clRemoteMachineID c \<and> clConnected c' = clConnected c
    \<and> length (rx (clConn c')) \<le> length (rx (clConn c))
    \<and> (r = Inr d \<longrightarrow> length (rx (clConn c')) + 32 \<le> length (rx (clConn c)))"
  proof (cases q)
    case (Inl e)
    with rf f1 assms show ?thesis by (auto simp add: readPacket_def same_peer_def)
  next
    case (Inr buf)
    have l: "length (rx conn) + 32 = length (rx (clConn c))"
      using ReadFull_Inr [of 32 "clConn c" buf conn] rf Inr by auto
    obtain plain sc where dc: "Decrypt buf (clCipher c) = (plain, sc)" by fastforce
    note k1 = Decrypt_keeps [of buf "clCipher c", unfolded dc snd_conv]
    obtain q2 conn2 where rf2: "ReadFull 32 conn = (q2, conn2)" by fastforce
    note f2 = ReadFull_frame [OF rf2]
    have k2: "scKey (snd (Decrypt b sc)) = scKey sc" "encIV (snd (Decrypt b sc)) = encIV sc" for b
      by (rule Decrypt_keeps)+
    show ?thesis
      using assms rf f1 l dc k1 rf2 f2 k2
      by (auto simp add: readPacket_def Inr same_peer_def Let_def split_beta
          split: option.splits sum.splits if_splits)
  qed
  then show "same_peer c c'" and "tx (clConn c') = tx (clConn c)" and "wr (clConn c') = wr (clConn c)"
    and "rxEnd (clConn c') = rxEnd (clConn c)"
    and "encIV (clCipher c') = encIV (clCipher c)" and "clRemoteMachineID c' = clRemoteMachineID c"
    and "clConnected c' = clConnected c" and "length (rx (clConn c')) \<le> length (rx (clConn c))"
    and "r = Inr d \<Longrightarrow> length (rx (clConn c')) + 32 \<le> length (rx (clConn c))"
    by blast+
qed

section \<open>A stream of packets\<close>

text \<open>The packets that a program sends one after another, and the packets that a peer reads.\<close>

fun send_all :: "GenericData list \<Rightarrow> Client \<Rightarrow> send_error option \<times> Client" where
  "send_all [] c = (None, c)"
| "send_all (d # ds) c =
     (case Client_Send d c of (Some e, c) \<Rightarrow> (Some e, c) | (None, c) \<Rightarrow> send_all ds c)"

fun receive_n :: "nat \<Rightarrow> Client \<Rightarrow> (recv_error + GenericData list) \<times> Client" where
  "receive_n 0 c = (Inr [], c)"
| "receive_n (Suc n) c =
     (case Client_Receive c of
        (Inl e, c) \<Rightarrow> (Inl e, c)
      | (Inr d, c) \<Rightarrow>
          (case receive_n n c of (Inl e, c) \<Rightarrow> (Inl e, c) | (Inr ds, c) \<Rightarrow> (Inr (d # ds), c)))"

text \<open>
  \<open>in_transit a b ds\<close>: what has arrived at \<open>b\<close> and was not read yet are exactly the packets \<open>ds\<close>, and
  once \<open>b\<close> has read them it is in step with \<open>a\<close>.
\<close>

definition in_transit :: "Client \<Rightarrow> Client \<Rightarrow> GenericData list \<Rightarrow> bool" where
  "in_transit a b ds \<longleftrightarrow> drop_bit 16 (clMagic a) = drop_bit 16 (clMagic b) \<and>
     (\<exists>b'. receive_n (length ds) b = (Inr ds, b') \<and> rx (clConn b') = [] \<and> in_step (clCipher a) (clCipher b'))"

text \<open>The bytes of a sequence of packets under a cipher state.\<close>

fun encode_all :: "u32 \<Rightarrow> GenericData list \<Rightarrow> StreamCipher \<Rightarrow> (bytes \<times> StreamCipher) option" where
  "encode_all m [] s = Some ([], s)"
| "encode_all m (d # ds) s =
     (case Marshal d m of
        Inl e \<Rightarrow> None
      | Inr p \<Rightarrow>
          (case Encrypt p s of
             None \<Rightarrow> None
           | Some (x, s) \<Rightarrow>
               (case encode_all m ds s of None \<Rightarrow> None | Some (w, s) \<Rightarrow> Some (x @ w, s))))"

text \<open>
  \<open>emits c c' ds\<close>: between the two states exactly the packets \<open>ds\<close> went to the connection,
  and the cipher is ready for the next one.
\<close>

definition emits :: "Client \<Rightarrow> Client \<Rightarrow> GenericData list \<Rightarrow> bool" where
  "emits c c' ds \<longleftrightarrow> same_peer c c' \<and> length (encIV (clCipher c)) = 16 \<and>
     (case encode_all (clMagic c) ds (clCipher c) of
        None \<Rightarrow> False
      | Some (w, s) \<Rightarrow> tx (clConn c') = tx (clConn c) @ w \<and> encIV (clCipher c') = encIV s)"

lemma Encrypt_cong:
  assumes "scKey s = scKey t" and "encIV s = encIV t"
  shows "Encrypt p s = map_option (\<lambda>(x, u). (x, s\<lparr>encIV := encIV u\<rparr>)) (Encrypt p t)"
  using assms by (simp add: Encrypt_def split_beta)

lemma encode_all_cong:
  "scKey s = scKey t \<Longrightarrow> encIV s = encIV t \<Longrightarrow>
   encode_all m ds s = map_option (\<lambda>(x, u). (x, s\<lparr>encIV := encIV u\<rparr>)) (encode_all m ds t)"
proof (induction ds arbitrary: s t)
  case Nil
  then show ?case by (simp add: StreamCipher.equality)
next
  case (Cons d ds)
  show ?case
  proof (cases "Marshal d m")
    case (Inr p)
    show ?thesis
    proof (cases "Encrypt p t")
      case (Some xu)
      obtain x u where xu: "xu = (x, u)" by fastforce
      have "scKey u = scKey t" using Some xu by (auto simp add: Encrypt_def split_beta split: if_splits)
      then have "encode_all m ds (s\<lparr>encIV := encIV u\<rparr>) =
          map_option (\<lambda>(x, v). (x, s\<lparr>encIV := encIV u\<rparr>\<lparr>encIV := encIV v\<rparr>)) (encode_all m ds u)"
        using Cons.prems by (intro Cons.IH) simp_all
      then show ?thesis using Inr Some xu Encrypt_cong [OF Cons.prems, of p]
        by (simp split: option.splits prod.splits)
    qed (use Inr Encrypt_cong [OF Cons.prems, of p] in simp)
  qed simp
qed

lemma encode_all_append:
  "encode_all m (a @ b) s =
    (case encode_all m a s of None \<Rightarrow> None
     | Some (x, s) \<Rightarrow> (case encode_all m b s of None \<Rightarrow> None | Some (y, s) \<Rightarrow> Some (x @ y, s)))"
  by (induction a arbitrary: s) (auto split: sum.splits option.splits)

lemma encode_all_keeps:
  "encode_all m ds s = Some (w, s') \<Longrightarrow> length (encIV s) = 16 \<Longrightarrow>
   scKey s' = scKey s \<and> decIV s' = decIV s \<and> length (encIV s') = 16"
proof (induction ds arbitrary: s w)
  case (Cons d ds)
  then obtain p x s1 w1 where "Encrypt p s = Some (x, s1)" "encode_all m ds s1 = Some (w1, s')"
    by (auto split: sum.splits option.splits)
  with Cons Encrypt_props [of p s x s1] show ?case by metis
qed simp

lemma Marshal_Encrypt: "Marshal d m = Inr p \<Longrightarrow> \<exists>x s'. Encrypt p s = Some (x, s')"
  using Encrypt_total [OF conjunct1 [OF Marshal_mod16]] by blast

lemma encode_all_total:
  "\<forall>d\<in>set ds. \<exists>p. Marshal d m = Inr p \<Longrightarrow> \<exists>w s'. encode_all m ds s = Some (w, s')"
proof (induction ds arbitrary: s)
  case (Cons d ds)
  then obtain p where p: "Marshal d m = Inr p" by auto
  obtain x s1 where "Encrypt p s = Some (x, s1)" using Marshal_Encrypt [OF p] by blast
  moreover obtain w s' where "encode_all m ds s1 = Some (w, s')" using Cons by fastforce
  ultimately show ?case using p by simp
qed simp

lemma emits_refl: "length (encIV (clCipher c)) = 16 \<Longrightarrow> emits c c []"
  by (simp add: emits_def)

lemma emits_same: "emits c c' ds \<Longrightarrow> same_peer c c' \<and> length (encIV (clCipher c')) = 16"
  using encode_all_keeps by (fastforce simp add: emits_def split: option.splits)

lemma emits_trans:
  assumes "emits a b ds" and "emits b c es"
  shows "emits a c (ds @ es)"
proof -
  obtain w s where ws: "encode_all (clMagic a) ds (clCipher a) = Some (w, s)"
      "tx (clConn b) = tx (clConn a) @ w" "encIV (clCipher b) = encIV s"
    using assms(1) by (auto simp add: emits_def split: option.splits)
  obtain v t where vt: "encode_all (clMagic b) es (clCipher b) = Some (v, t)"
      "tx (clConn c) = tx (clConn b) @ v" "encIV (clCipher c) = encIV t"
    using assms(2) by (auto simp add: emits_def split: option.splits)
  have "scKey s = scKey (clCipher b)" "clMagic a = clMagic b"
    using assms(1) encode_all_keeps [OF ws(1)] by (auto simp add: emits_def same_peer_def)
  with ws vt have "encode_all (clMagic a) es s = Some (v, s\<lparr>encIV := encIV t\<rparr>)"
    using encode_all_cong [of s "clCipher b" "clMagic a" es] by simp
  with ws vt assms show ?thesis
    using same_peer_trans [of a b c] by (auto simp add: emits_def encode_all_append)
qed

text \<open>A send that succeeds emits its packet with the defaults filled in.\<close>

lemma Send_emits:
  assumes "Client_Send d c = (None, c')" and "length (encIV (clCipher c)) = 16"
  shows "emits c c' [fill_defaults c d]"
proof -
  obtain p x where "Marshal (fill_defaults c d) (clMagic c) = Inr p"
    "Encrypt p (clCipher c) = Some (x, clCipher c')" "tx (clConn c') = tx (clConn c) @ x"
    using Send_ok [OF assms(1)] by metis
  then show ?thesis using assms Send_frame(1) [OF assms] by (simp add: emits_def)
qed

lemma send_all_emits:
  "send_all ds c = (None, c') \<Longrightarrow> length (encIV (clCipher c)) = 16 \<Longrightarrow>
   emits c c' (map (fill_defaults c) ds)"
proof (induction ds arbitrary: c)
  case Nil
  then show ?case by (simp add: emits_refl)
next
  case (Cons d ds)
  then obtain c1 where c1: "Client_Send d c = (None, c1)" "send_all ds c1 = (None, c')"
    by (auto split: prod.splits option.splits)
  note e = Send_emits [OF c1(1) Cons.prems(2)]
  then have "emits c1 c' (map (fill_defaults c1) ds)" using Cons.IH [OF c1(2)] emits_same by blast
  moreover have "fill_defaults c1 = fill_defaults c" using emits_same [OF e] fill_defaults_same by blast
  ultimately show ?case using emits_trans [OF e] by simp
qed

text \<open>On a connection whose writes succeed, a send fails only if the packet has no encoding.\<close>

lemma Send_plain:
  assumes "wr (clConn c) = []" and "Marshal (fill_defaults c d) (clMagic c) = Inr p"
  obtains x sc where "Encrypt p (clCipher c) = Some (x, sc)"
    "Client_Send d c = (None, c\<lparr>clCipher := sc, clConn := (clConn c)\<lparr>tx := tx (clConn c) @ x\<rparr>\<rparr>)"
proof -
  obtain x sc where "Encrypt p (clCipher c) = Some (x, sc)"
    using Marshal_Encrypt [OF assms(2)] by blast
  then show ?thesis using that assms by (simp add: Client_Send_def writeAll_plain)
qed

lemma send_all_plain:
  "wr (clConn c) = [] \<Longrightarrow> length (encIV (clCipher c)) = 16 \<Longrightarrow>
   \<forall>d\<in>set ds. \<exists>p. Marshal (fill_defaults c d) (clMagic c) = Inr p \<Longrightarrow> \<exists>c'. send_all ds c = (None, c')"
proof (induction ds arbitrary: c)
  case (Cons d ds)
  then obtain p where p: "Marshal (fill_defaults c d) (clMagic c) = Inr p" by auto
  obtain x sc where s: "Client_Send d c = (None, c\<lparr>clCipher := sc, clConn := (clConn c)\<lparr>tx := tx (clConn c) @ x\<rparr>\<rparr>)"
    (is "_ = (None, ?c)")
    using Send_plain [OF Cons.prems(1) p] by blast
  note f = Send_frame(1,2) [OF s Cons.prems(2)]
  have "clMagic ?c = clMagic c" by simp
  then have "\<exists>c'. send_all ds ?c = (None, c')"
    using Cons.prems Cons.IH [of ?c] f fill_defaults_same [OF f(1)] by simp
  with s show ?case by simp
qed simp

text \<open>A reader in step with the encoder reads the packets back.\<close>

lemma encode_all_decode:
  assumes "encode_all m ds s = Some (w, s')" and "\<forall>d\<in>set ds. gType d < 256"
    and "in_step s (clCipher c)" and "drop_bit 16 m = drop_bit 16 (clMagic c)"
    and "rx (clConn c) = w @ rest"
  shows "\<exists>c'. receive_n (length ds) c = (Inr (map wire_view ds), c')
     \<and> rx (clConn c') = rest \<and> in_step s' (clCipher c') \<and> same_peer c c'"
  using assms
proof (induction ds arbitrary: s c w)
  case Nil
  then show ?case by auto
next
  case (Cons d ds)
  obtain p x s1 w1 where px: "Marshal d m = Inr p" "Encrypt p s = Some (x, s1)"
      "encode_all m ds s1 = Some (w1, s')" "w = x @ w1"
    using Cons.prems(1) by (auto split: sum.splits option.splits)
  have rx: "rx (clConn c) = x @ (w1 @ rest)" using Cons.prems(5) px(4) by simp
  have ty: "gType d < 256" using Cons.prems(2) by simp
  obtain r where r: "readPacket c =
        (Inr (wire_view d), c\<lparr>clConn := (clConn c)\<lparr>rx := w1 @ rest\<rparr>, clCipher := r\<rparr>)"
      "in_step s1 r" "scKey r = scKey (clCipher c)"
    using readPacket_reads [OF px(1) ty px(2) Cons.prems(3) rx Cons.prems(4)] by blast
  let ?c = "c\<lparr>clConn := (clConn c)\<lparr>rx := w1 @ rest\<rparr>, clCipher := r\<rparr>"
  obtain c' where "receive_n (length ds) ?c = (Inr (map wire_view ds), c')" "rx (clConn c') = rest"
      "in_step s' (clCipher c')" "same_peer ?c c'"
    using Cons.IH [OF px(3), of ?c] Cons.prems r(2) by auto
  then show ?case using r by (auto simp add: Client_Receive_def same_peer_def)
qed

lemma emits_received:
  assumes "emits s s' ds" and "\<forall>d\<in>set ds. gType d < 256"
    and "in_step (clCipher s) (clCipher c)" and "drop_bit 16 (clMagic s) = drop_bit 16 (clMagic c)"
    and "tx (clConn s') = tx (clConn s) @ w" and "rx (clConn c) = w @ rest"
  shows "\<exists>c'. receive_n (length ds) c = (Inr (map wire_view ds), c')
     \<and> rx (clConn c') = rest \<and> in_step (clCipher s') (clCipher c') \<and> same_peer c c'"
proof -
  obtain v t where vt: "encode_all (clMagic s) ds (clCipher s) = Some (v, t)"
      "tx (clConn s') = tx (clConn s) @ v" "encIV (clCipher s') = encIV t"
    using assms(1) by (auto simp add: emits_def split: option.splits)
  have iv: "length (encIV (clCipher s)) = 16" using assms(1) by (simp add: emits_def)
  have "in_step t x \<longleftrightarrow> in_step (clCipher s') x" for x
    using assms(1) vt encode_all_keeps [OF vt(1) iv] by (simp add: in_step_def emits_def same_peer_def)
  with encode_all_decode [OF vt(1) assms(2,3,4)] vt assms(5,6) show ?thesis by auto
qed

text \<open>C11: packets sent without an error on one client are received in order by a client in step
  with it, each as its \<open>wire_view\<close> with the sender's defaults filled in, whatever follows in
  the stream, and the two clients are then in step again.\<close>

theorem stream_delivery:
  assumes "send_all ds s = (None, s')" and "\<forall>d\<in>set ds. gType d < 256"
    and "in_step (clCipher s) (clCipher c)"
    and "drop_bit 16 (clMagic s) = drop_bit 16 (clMagic c)"
    and "tx (clConn s') = tx (clConn s) @ w" and "rx (clConn c) = w @ rest"
  shows "\<exists>c'. receive_n (length ds) c = (Inr (map (wire_view \<circ> fill_defaults s) ds), c')
     \<and> rx (clConn c') = rest \<and> in_step (clCipher s') (clCipher c')"
proof -
  have "length (encIV (clCipher s)) = 16" using assms(3) unfolding in_step_def by blast
  from emits_received [OF send_all_emits [OF assms(1) this] _ assms(3-6)] assms(2)
  show ?thesis by auto
qed

definition sample_client :: Client where
  "sample_client = \<lparr>clConn = \<lparr>rx = [], rxEnd = EOF, tx = [], wr = []\<rparr>,
     clCipher = \<lparr>scKey = replicate 32 7, encIV = replicate 16 1, decIV = replicate 16 1\<rparr>,
     clMagic = 0x12345678, clMachineID = 11, clRemoteMachineID = 0,
     clMachineName = gostr ''tux'', clConnected = True\<rparr>"

theorem stream_delivery_witness:
  "\<exists>s' c c'. send_all [sample_heartbeat, sample_heartbeat] sample_client = (None, s') \<and>
     rx (clConn c) = tx (clConn s') @ [1, 2, 3] \<and>
     receive_n 2 c = (Inr [wire_view (fill_defaults sample_client sample_heartbeat),
                          wire_view (fill_defaults sample_client sample_heartbeat)], c') \<and>
     rx (clConn c') = [1, 2, 3]"
proof -
  let ?ds = "[sample_heartbeat, sample_heartbeat]"
  have "\<exists>p. Marshal (fill_defaults sample_client sample_heartbeat) (clMagic sample_client) = Inr p"
    by (simp add: fill_defaults_def sample_client_def sample_heartbeat_def Marshal_def Let_def
        marshal_payload_def)
  then obtain s' where s': "send_all ?ds sample_client = (None, s')"
    using send_all_plain [of sample_client ?ds] by (auto simp add: sample_client_def)
  define c where "c = sample_client\<lparr>clConn := (clConn sample_client)\<lparr>rx := tx (clConn s') @ [1, 2, 3]\<rparr>\<rparr>"
  have "\<forall>d\<in>set ?ds. gType d < 256" by (simp add: sample_heartbeat_def)
  from stream_delivery [OF s' this, of c "tx (clConn s')" "[1, 2, 3]"]
  obtain c' where "receive_n 2 c = (Inr (map (wire_view \<circ> fill_defaults sample_client) ?ds), c')"
      "rx (clConn c') = [1, 2, 3]"
    by (auto simp add: c_def sample_client_def in_step_def numeral_2_eq_2)
  moreover have "rx (clConn c) = tx (clConn s') @ [1, 2, 3]" by (simp add: c_def)
  ultimately show ?thesis using s' by fastforce
qed

end
