(* ===== verification/Handshake.thy ===== *)
theory Handshake
  imports Network
begin

text \<open>
  The handshake of \<open>network/client.go\<close>, \<open>Connect\<close>, and the server of \<open>network/server.go\<close>.
  The abstract specification of the handshake is \<open>trusted\<close>: among the packets read so far is
  a handshake of the peer and an acknowledgement that complements our numbers; \<open>acks_for\<close> says
  which packets it sends.  The read deadline shows up as the error \<open>ErrConn\<close> of a read.
\<close>

section \<open>The handshake\<close>

datatype hs_error =
    HsRand | HsMarshal perror | HsPanic | HsWrite | HsRead recv_error | HsAck send_error

text \<open>The packet that is sent ten times, from the 16 bytes of \<open>crypto/rand\<close>.\<close>

definition hs_numbers :: "bytes \<Rightarrow> HandshakeData" where
  "hs_numbers randBuf =
     \<lparr>Machine1 = unle (gosub 0 4 randBuf), Machine2 = unle (gosub 4 8 randBuf),
      Machine3 = unle (gosub 8 12 randBuf), Machine4 = unle (gosub 12 16 randBuf)\<rparr>"

definition complement :: "HandshakeData \<Rightarrow> HandshakeData" where
  "complement h =
     \<lparr>Machine1 = NOT (Machine1 h), Machine2 = NOT (Machine2 h),
      Machine3 = NOT (Machine3 h), Machine4 = NOT (Machine4 h)\<rparr>"

definition hs_packet :: "HandshakeData \<Rightarrow> Client \<Rightarrow> GenericData" where
  "hs_packet h c =
     \<lparr>gHeader = \<lparr>hType = Handshake, hId = 1, hSrc = clMachineID c, hDes = 0, hDateTime = 0\<rparr>,
      gKeyboard = None, gMouse = None, gHandshake = Some h,
      gMachineName = clMachineName c, gRaw = None\<rparr>"

definition ack_packet :: "GenericData \<Rightarrow> HandshakeData \<Rightarrow> Client \<Rightarrow> GenericData" where
  "ack_packet pkt h c =
     \<lparr>gHeader = \<lparr>hType = HandshakeAck, hId = hId (gHeader pkt), hSrc = clMachineID c,
                 hDes = 0, hDateTime = 0\<rparr>,
      gKeyboard = None, gMouse = None, gHandshake = Some (complement h),
      gMachineName = clMachineName c, gRaw = None\<rparr>"

text \<open>The loop that writes the packet \<open>n\<close> times; the count that \<open>Write\<close> returns is ignored.\<close>

fun hs_writes :: "nat \<Rightarrow> bytes \<Rightarrow> Client \<Rightarrow> hs_error option \<times> Client" where
  "hs_writes 0 plainBytes c = (None, c)"
| "hs_writes (Suc n) plainBytes c =
     (case Encrypt plainBytes (clCipher c) of
        None \<Rightarrow> (Some HsPanic, c)
      | Some (encrypted, sc) \<Rightarrow>
          (case conn_write encrypted (clConn c) of
             (_, True, conn) \<Rightarrow> (Some HsWrite, c\<lparr>clCipher := sc, clConn := conn\<rparr>)
           | (_, False, conn) \<Rightarrow> hs_writes n plainBytes (c\<lparr>clCipher := sc, clConn := conn\<rparr>)))"

text \<open>
  The switch of the loop body, with \<open>gotOurAck\<close> and \<open>gotTheirHandshake\<close> as a pair; the first
  component is the error of the acknowledgement that is sent.
\<close>

definition hs_step ::
  "HandshakeData \<Rightarrow> GenericData \<Rightarrow> bool \<times> bool \<Rightarrow> Client \<Rightarrow> send_error option \<times> (bool \<times> bool) \<times> Client" where
  "hs_step expected pkt got c =
    (if gType pkt = Handshake then
       (let c = c\<lparr>clRemoteMachineID := hSrc (gHeader pkt)\<rparr>
        in case gHandshake pkt of
             None \<Rightarrow> (None, got, c)
           | Some h \<Rightarrow>
               (case Client_Send (ack_packet pkt h c) c of
                  (e, c) \<Rightarrow> (e, (fst got, True), c)))
     else if gType pkt = HandshakeAck then
       (if gHandshake pkt = Some expected
        then (None, (True, snd got), c\<lparr>clRemoteMachineID := hSrc (gHeader pkt)\<rparr>)
        else (None, got, c))
     else (None, got, c))"

lemma Send_rx [simp]: "rx (clConn (snd (Client_Send d c))) = rx (clConn c)"
  using writeAll_spec [where c = "clConn c"]
  by (cases rule: Send_cases [of c d]; fastforce)

lemma hs_step_rx [simp]: "rx (clConn (snd (snd (hs_step ex pkt got c)))) = rx (clConn c)"
  by (simp add: hs_step_def Let_def split_beta split: option.split)

function hs_loop :: "HandshakeData \<Rightarrow> bool \<times> bool \<Rightarrow> Client \<Rightarrow> hs_error option \<times> Client" where
  "hs_loop expected got c =
    (if fst got \<and> snd got then (None, c)
     else (case readPacket c of
             (Inl e, c) \<Rightarrow> (Some (HsRead e), c)
           | (Inr pkt, c) \<Rightarrow>
               (case hs_step expected pkt got c of
                  (Some e, got, c) \<Rightarrow> (Some (HsAck e), c)
                | (None, got, c) \<Rightarrow> hs_loop expected got c)))"
  by pat_completeness auto
termination
proof (relation "measure (\<lambda>(ex, got, c). length (rx (clConn c)))")
  fix ex :: HandshakeData and got got' :: "bool \<times> bool" and c c1 c2 :: Client and r pkt e w
  assume "(r, c1) = readPacket c" and "r = Inr pkt"
    and "(e, w) = hs_step ex pkt got c1" and "(got', c2) = w"
  then have "readPacket c = (Inr pkt, c1)" and "snd (snd (hs_step ex pkt got c1)) = c2"
    by (auto, metis snd_conv)
  then show "((ex, got', c2), (ex, got, c)) \<in> measure (\<lambda>(ex, got, c). length (rx (clConn c)))"
    using readPacket_frame(9) [of c "Inr pkt" c1 pkt] hs_step_rx [of ex pkt got c1] by auto
qed simp

declare hs_loop.simps [simp del]

text \<open>\<open>rnd\<close> are the 16 bytes of \<open>rand.Read\<close>, \<open>None\<close> when it failed.\<close>

definition handshake :: "bytes option \<Rightarrow> Client \<Rightarrow> hs_error option \<times> Client" where
  "handshake rnd c =
    (case rnd of
       None \<Rightarrow> (Some HsRand, c)
     | Some randBuf \<Rightarrow>
         let ours = hs_numbers randBuf in
         (case Marshal (hs_packet ours c) (clMagic c) of
            Inl e \<Rightarrow> (Some (HsMarshal e), c)
          | Inr plainBytes \<Rightarrow>
              (case hs_writes 10 plainBytes c of
                 (Some e, c) \<Rightarrow> (Some e, c)
               | (None, c) \<Rightarrow>
                   (case hs_loop (complement ours) (False, False) c of
                      (Some e, c) \<Rightarrow> (Some e, c)
                    | (None, c) \<Rightarrow> (None, c\<lparr>clConnected := True\<rparr>)))))"

section \<open>Connecting and accepting\<close>

text \<open>
  \<open>dial\<close> is \<open>net.DialTimeout\<close> on an address and a port.  The second component of the
  results below are the connections that were closed.
\<close>

datatype connect_error =
    DialFailed | CipherPanic | PrimerSend | PrimerReceive ioerr | HandshakeFailed hs_error

definition new_client :: "StreamCipher \<Rightarrow> u32 \<Rightarrow> u32 \<Rightarrow> gostring \<Rightarrow> Conn \<Rightarrow> Client" where
  "new_client cipher magic machineID machineName conn =
     \<lparr>clConn = conn, clCipher = cipher, clMagic = magic, clMachineID = machineID,
      clRemoteMachineID = 0, clMachineName = machineName, clConnected = False\<rparr>"

definition Connect ::
  "(bytes \<Rightarrow> bytes \<Rightarrow> nat \<Rightarrow> nat \<Rightarrow> bytes) \<Rightarrow> (bytes \<Rightarrow> bytes)
   \<Rightarrow> (gostring \<Rightarrow> int \<Rightarrow> Conn option) \<Rightarrow> gostring \<Rightarrow> int \<Rightarrow> gostring \<Rightarrow> u32
   \<Rightarrow> gostring \<Rightarrow> bytes option \<Rightarrow> bytes option \<Rightarrow> (connect_error + Client) \<times> Conn list" where
  "Connect pbkdf2 sha512 dial address port securityKey machineID machineName primer rnd =
    (case dial address (port + 1) of
       None \<Rightarrow> (Inl DialFailed, [])
     | Some conn \<Rightarrow>
         let mc = NewMWBCrypto pbkdf2 sha512 securityKey in
         (case NewStreamCipher mc of
            None \<Rightarrow> (Inl CipherPanic, [])
          | Some cipher \<Rightarrow>
              (case SendRandomBlock primer cipher conn of
                 (True, _, conn) \<Rightarrow> (Inl PrimerSend, [conn])
               | (False, cipher, conn) \<Rightarrow>
                   (case ReceiveRandomBlock cipher conn of
                      (Some e, _, conn) \<Rightarrow> (Inl (PrimerReceive e), [conn])
                    | (None, cipher, conn) \<Rightarrow>
                        (case handshake rnd
                                (new_client cipher (cMagicNumber mc) machineID machineName conn) of
                           (Some e, c) \<Rightarrow> (Inl (HandshakeFailed e), [clConn c])
                         | (None, c) \<Rightarrow> (Inr c, []))))))"

record Server =
  svCrypto :: MWBCrypto
  svPort :: int
  svMachineID :: u32
  svMachineName :: gostring

text \<open>\<open>listen\<close> tells whether \<open>net.Listen\<close> on a port succeeds.\<close>

definition NewServer ::
  "(bytes \<Rightarrow> bytes \<Rightarrow> nat \<Rightarrow> nat \<Rightarrow> bytes) \<Rightarrow> (bytes \<Rightarrow> bytes)
   \<Rightarrow> (int \<Rightarrow> bool) \<Rightarrow> int \<Rightarrow> gostring \<Rightarrow> u32 \<Rightarrow> gostring \<Rightarrow> Server option" where
  "NewServer pbkdf2 sha512 listen port securityKey machineID machineName =
    (if \<not> listen (port + 1) then None
     else Some \<lparr>svCrypto = NewMWBCrypto pbkdf2 sha512 securityKey, svPort = port, svMachineID = machineID,
                svMachineName = machineName\<rparr>)"

text \<open>
  The incoming connections are a list, each with the random bytes drawn for it; at its end
  the listener fails.
\<close>

datatype accept_error = AcceptError | AcceptPanic

fun Accept ::
  "Server \<Rightarrow> (Conn \<times> bytes option \<times> bytes option) list \<Rightarrow> (accept_error + Client) \<times> Conn list" where
  "Accept s [] = (Inl AcceptError, [])"
| "Accept s ((conn, primer, rnd) # incoming) =
    (case NewStreamCipher (svCrypto s) of
       None \<Rightarrow> (Inl AcceptPanic, [])
     | Some cipher \<Rightarrow>
         (let again = (\<lambda>conn. let (r, closed) = Accept s incoming in (r, conn # closed)) in
          case ReceiveRandomBlock cipher conn of
            (Some e, _, conn) \<Rightarrow> again conn
          | (None, cipher, conn) \<Rightarrow>
              (case SendRandomBlock primer cipher conn of
                 (True, _, conn) \<Rightarrow> again conn
               | (False, cipher, conn) \<Rightarrow>
                   (case handshake rnd (new_client cipher (cMagicNumber (svCrypto s))
                            (svMachineID s) (svMachineName s) conn) of
                      (Some e, c) \<Rightarrow> again (clConn c)
                    | (None, c) \<Rightarrow> (Inr c, [])))))"

section \<open>What the reader of a connection depends on\<close>

text \<open>Sends do not change what later reads return.\<close>

definition rv :: "Client \<Rightarrow> bytes \<times> ioerr \<times> bytes \<times> bytes \<times> u32" where
  "rv c = (rx (clConn c), rxEnd (clConn c), scKey (clCipher c), decIV (clCipher c), clMagic c)"

lemma ReadFull_cong:
  "rx a = rx b \<Longrightarrow> rxEnd a = rxEnd b \<Longrightarrow>
   fst (ReadFull n a) = fst (ReadFull n b) \<and>
   snd (ReadFull n a) = a\<lparr>rx := rx (snd (ReadFull n b))\<rparr>"
  by (simp add: ReadFull_def)

lemma Decrypt_cong:
  "scKey s = scKey t \<Longrightarrow> decIV s = decIV t \<Longrightarrow>
   fst (Decrypt x s) = fst (Decrypt x t) \<and> decIV (snd (Decrypt x s)) = decIV (snd (Decrypt x t))"
  by (simp add: Decrypt_def split_beta)

lemma readPacket_rv:
  assumes "rv a = rv b"
  shows "fst (readPacket a) = fst (readPacket b)" and "rv (snd (readPacket a)) = rv (snd (readPacket b))"
proof -
  have ab: "rx (clConn a) = rx (clConn b)" "rxEnd (clConn a) = rxEnd (clConn b)"
    "scKey (clCipher a) = scKey (clCipher b)" "decIV (clCipher a) = decIV (clCipher b)"
    "clMagic a = clMagic b" using assms by (simp_all add: rv_def)
  obtain q ca where ra: "ReadFull 32 (clConn a) = (q, ca)" by fastforce
  obtain q' cb where rb: "ReadFull 32 (clConn b) = (q', cb)" by fastforce
  have q: "q' = q" "rx ca = rx cb" "rxEnd ca = rxEnd cb"
    using ReadFull_cong [OF ab(1,2), of 32] ra rb ReadFull_frame [OF ra] ReadFull_frame [OF rb] ab
    by (auto simp flip: surjective_pairing)
  have "fst (readPacket a) = fst (readPacket b) \<and> rv (snd (readPacket a)) = rv (snd (readPacket b))"
  proof (cases q)
    case (Inl e)
    then show ?thesis using ra rb q ab by (simp add: readPacket_def rv_def)
  next
    case (Inr buf)
    obtain p sa where da: "Decrypt buf (clCipher a) = (p, sa)" by fastforce
    obtain p' sb where db: "Decrypt buf (clCipher b) = (p', sb)" by fastforce
    have p: "p' = p" "decIV sa = decIV sb" "scKey sa = scKey sb"
      using Decrypt_cong [OF ab(3,4), of buf] da db ab Decrypt_keeps(1) [of buf "clCipher a"]
        Decrypt_keeps(1) [of buf "clCipher b"] by auto
    obtain q2 ca2 where ra2: "ReadFull 32 ca = (q2, ca2)" by fastforce
    obtain q2' cb2 where rb2: "ReadFull 32 cb = (q2', cb2)" by fastforce
    have q2: "q2' = q2" "rx ca2 = rx cb2" "rxEnd ca2 = rxEnd cb2"
      using ReadFull_cong [OF q(2,3), of 32] ra2 rb2 ReadFull_frame [OF ra2] ReadFull_frame [OF rb2] q
      by auto
    have d2: "fst (Decrypt x sa) = fst (Decrypt x sb)" "decIV (snd (Decrypt x sa)) = decIV (snd (Decrypt x sb))"
      "scKey (snd (Decrypt x sa)) = scKey (snd (Decrypt x sb))" for x
      using Decrypt_cong [OF p(3,2), of x] p Decrypt_keeps(1) by auto
    show ?thesis
      using ra rb q ab Inr da db p ra2 rb2 q2 d2
      by (auto simp add: readPacket_def rv_def Let_def split_beta split: option.split sum.split)
  qed
  then show "fst (readPacket a) = fst (readPacket b)" and "rv (snd (readPacket a)) = rv (snd (readPacket b))"
    by blast+
qed

lemma receive_n_rv:
  "rv a = rv b \<Longrightarrow> fst (receive_n n a) = fst (receive_n n b) \<and> rv (snd (receive_n n a)) = rv (snd (receive_n n b))"
proof (induction n arbitrary: a b)
  case (Suc n)
  obtain r a' where ra: "readPacket a = (r, a')" by fastforce
  obtain b' where rb: "readPacket b = (r, b')" "rv a' = rv b'"
    using readPacket_rv [OF Suc.prems] ra by (cases "readPacket b") auto
  show ?case using Suc.IH [OF rb(2)] ra rb
    by (simp add: Client_Receive_def split_beta split: sum.split)
qed simp

lemma Send_rv:
  assumes "Client_Send d c = (e, c')" shows "rv c' = rv c"
  using assms
proof (cases rule: Send_cases [of c d])
  case (good p x sc f conn)
  have "scKey sc = scKey (clCipher c) \<and> decIV sc = decIV (clCipher c)"
    using good(2) by (auto simp add: Encrypt_def split_beta split: if_splits)
  with good assms writeAll_spec [OF good(3)] show ?thesis by (auto simp add: rv_def)
qed simp

lemma hs_step_rv: "rv (snd (snd (hs_step ex pkt got c))) = rv c"
proof -
  have "rv (c\<lparr>clRemoteMachineID := i\<rparr>) = rv c" for i by (simp add: rv_def)
  then show ?thesis using Send_rv
    by (auto simp add: hs_step_def Let_def split: option.split prod.split)
qed

section \<open>The handshake as a condition on the packets read\<close>

definition is_hs :: "GenericData \<Rightarrow> bool" where
  "is_hs p \<longleftrightarrow> gType p = Handshake \<and> gHandshake p \<noteq> None"

definition is_ack :: "HandshakeData \<Rightarrow> GenericData \<Rightarrow> bool" where
  "is_ack expected p \<longleftrightarrow> gType p = HandshakeAck \<and> gHandshake p = Some expected"

text \<open>The state of the abstract handshake after a packet, and after several.\<close>

definition got_after :: "HandshakeData \<Rightarrow> bool \<times> bool \<Rightarrow> GenericData \<Rightarrow> bool \<times> bool" where
  "got_after ex got p = (fst got \<or> is_ack ex p, snd got \<or> is_hs p)"

definition trusted :: "HandshakeData \<Rightarrow> GenericData list \<Rightarrow> bool" where
  "trusted ex ps \<longleftrightarrow> (\<exists>p\<in>set ps. is_ack ex p) \<and> (\<exists>p\<in>set ps. is_hs p)"

text \<open>The acknowledgements sent for the packets read.\<close>

definition acks_for :: "Client \<Rightarrow> GenericData list \<Rightarrow> GenericData list" where
  "acks_for c ps = map (\<lambda>p. ack_packet p (the (gHandshake p)) c) (filter is_hs ps)"

lemma acks_for_simps [simp]:
  "acks_for c [] = []"
  "acks_for c (p # ps) = (if is_hs p then ack_packet p (the (gHandshake p)) c # acks_for c ps else acks_for c ps)"
  by (simp_all add: acks_for_def)

lemma acks_for_cong:
  "clMachineID a = clMachineID b \<Longrightarrow> clMachineName a = clMachineName b \<Longrightarrow> acks_for a ps = acks_for b ps"
  by (simp add: acks_for_def ack_packet_def)

lemma fill_ack [simp]: "fill_defaults c (ack_packet p h c) = ack_packet p h c"
  by (simp add: fill_defaults_def ack_packet_def Let_def)

lemma fill_remote [simp]: "fill_defaults (c\<lparr>clRemoteMachineID := i\<rparr>) = fill_defaults c"
  by (rule fill_defaults_same) (simp add: same_peer_def)

lemma ack_Marshal: "\<exists>b. Marshal (ack_packet p h c) m = Inr b"
  by (simp add: Marshal_def marshal_payload_def ack_packet_def Let_def)

lemma ack_remote: "ack_packet p h (c\<lparr>clRemoteMachineID := i\<rparr>) = ack_packet p h c"
  by (simp add: ack_packet_def)

text \<open>One step of the loop.\<close>

lemma hs_step_ok:
  assumes "hs_step ex p got c = (None, got', c')" and "length (encIV (clCipher c)) = 16"
  shows "got' = got_after ex got p" and "emits c c' (acks_for c [p])"
    and "clRemoteMachineID c' = (if gType p = Handshake \<or> is_ack ex p then hSrc (gHeader p)
                                 else clRemoteMachineID c)"
proof -
  let ?c = "c\<lparr>clRemoteMachineID := hSrc (gHeader p)\<rparr>"
  have em: "emits ?c x ds = emits c x ds" "emits x ?c ds = emits x c ds" for x ds
    by (simp_all add: emits_def same_peer_def split: option.split)
  have refl: "emits c c []" using assms(2) by (rule emits_refl)
  have "got' = got_after ex got p \<and> emits c c' (acks_for c [p]) \<and>
      clRemoteMachineID c' = (if gType p = Handshake \<or> is_ack ex p then hSrc (gHeader p)
                              else clRemoteMachineID c)"
  proof (cases "is_hs p")
    case True
    then obtain h where h: "gType p = Handshake" "gHandshake p = Some h" by (auto simp add: is_hs_def)
    then have s: "Client_Send (ack_packet p h ?c) ?c = (None, c')" "got' = (fst got, True)"
      using assms(1) by (auto simp add: hs_step_def Let_def split: prod.splits)
    have iv: "length (encIV (clCipher ?c)) = 16" using assms(2) by simp
    from Send_emits [OF s(1) iv] Send_frame(6) [OF s(1) iv]
    show ?thesis using h s(2) True by (simp add: em ack_remote got_after_def is_ack_def)
  next
    case False
    show ?thesis
      using assms(1) False refl
      by (cases "gType p = Handshake")
        (auto simp add: hs_step_def is_hs_def is_ack_def got_after_def em prod_eq_iff split: if_splits)
  qed
  then show "got' = got_after ex got p" and "emits c c' (acks_for c [p])"
    and "clRemoteMachineID c' = (if gType p = Handshake \<or> is_ack ex p then hSrc (gHeader p)
                                 else clRemoteMachineID c)" by blast+
qed

lemma hs_step_plain:
  assumes "wr (clConn c) = []"
  shows "\<exists>got' c'. hs_step ex p got c = (None, got', c') \<and> wr (clConn c') = []"
proof -
  let ?c = "c\<lparr>clRemoteMachineID := hSrc (gHeader p)\<rparr>"
  show ?thesis
  proof (cases "is_hs p")
    case True
    then obtain h where h: "gType p = Handshake" "gHandshake p = Some h" by (auto simp add: is_hs_def)
    have w: "wr (clConn ?c) = []" using assms by simp
    obtain b where b: "Marshal (fill_defaults ?c (ack_packet p h ?c)) (clMagic ?c) = Inr b"
      using ack_Marshal [of p h c "clMagic c"] by (auto simp add: ack_remote)
    obtain x sc where "Client_Send (ack_packet p h ?c) ?c
        = (None, ?c\<lparr>clCipher := sc, clConn := (clConn ?c)\<lparr>tx := tx (clConn ?c) @ x\<rparr>\<rparr>)"
      using Send_plain [OF w b] by blast
    then show ?thesis using h assms
      by (intro exI [of _ "(fst got, True)"] exI [of _ "?c\<lparr>clCipher := sc, clConn := (clConn ?c)\<lparr>tx := tx (clConn ?c) @ x\<rparr>\<rparr>"])
        (simp add: hs_step_def)
  qed (use assms in \<open>auto simp add: hs_step_def is_hs_def split: option.split\<close>)
qed

lemma emits_read: "readPacket c = (r, c1) \<Longrightarrow> emits c1 c' ds = emits c c' ds"
  using readPacket_frame [of c r c1] encode_all_cong [of "clCipher c1" "clCipher c" "clMagic c" ds]
  by (auto simp add: emits_def same_peer_def split: option.splits)

lemma hs_loop_sound:
  "hs_loop ex got c = (None, c') \<Longrightarrow> length (encIV (clCipher c)) = 16 \<Longrightarrow>
   \<exists>ps c1. receive_n (length ps) c = (Inr ps, c1) \<and> rv c1 = rv c' \<and>
     fold (\<lambda>p g. got_after ex g p) ps got = (True, True) \<and>
     (\<forall>k<length ps. fold (\<lambda>p g. got_after ex g p) (take k ps) got \<noteq> (True, True)) \<and>
     emits c c' (acks_for c ps) \<and>
     (ps \<noteq> [] \<longrightarrow> clRemoteMachineID c' = hSrc (gHeader (last ps)))"
proof (induction ex got c arbitrary: c' rule: hs_loop.induct)
  case (1 ex got c)
  show ?case
  proof (cases "fst got \<and> snd got")
    case True
    then have "c' = c" using "1.prems"(1) by (simp add: hs_loop.simps)
    with True "1.prems"(2) show ?thesis by (intro exI [of _ "[]"]) (auto simp add: emits_refl prod_eq_iff)
  next
    case False
    obtain p c1 where r: "readPacket c = (Inr p, c1)"
      using "1.prems"(1) False by (auto simp add: hs_loop.simps [of ex got c] split: prod.splits sum.splits)
    obtain e got2 c2 where s: "hs_step ex p got c1 = (e, got2, c2)" by (metis prod_cases3)
    then have e: "e = None" and l: "hs_loop ex got2 c2 = (None, c')"
      using "1.prems"(1) False r by (auto simp add: hs_loop.simps [of ex got c] split: option.splits)
    have iv1: "length (encIV (clCipher c1)) = 16"
      using readPacket_frame(5) [OF r] "1.prems"(2) by simp
    note st = hs_step_ok [OF s [unfolded e] iv1]
    have iv2: "length (encIV (clCipher c2)) = 16" using emits_same [OF st(2)] by simp
    have em: "emits c c2 (acks_for c [p])"
      using st(2) readPacket_frame(1) [OF r] emits_read [OF r, of c2] acks_for_cong [of c1 c "[p]"]
      by (simp add: same_peer_def)
    obtain ps c3 where ih: "receive_n (length ps) c2 = (Inr ps, c3)" "rv c3 = rv c'"
      "fold (\<lambda>p g. got_after ex g p) ps got2 = (True, True)"
      "\<forall>k<length ps. fold (\<lambda>p g. got_after ex g p) (take k ps) got2 \<noteq> (True, True)"
      "emits c2 c' (acks_for c2 ps)"
      "ps \<noteq> [] \<longrightarrow> clRemoteMachineID c' = hSrc (gHeader (last ps))"
      using "1.IH" [OF False r [symmetric] refl s [symmetric] e refl l iv2] by blast
    have "rv c2 = rv c1" using hs_step_rv [of ex p got c1] s by simp
    then obtain c4 where c4: "receive_n (length ps) c1 = (Inr ps, c4)" "rv c4 = rv c3"
      using receive_n_rv [of c2 c1 "length ps"] ih(1) by (cases "receive_n (length ps) c1") auto
    have "acks_for c2 ps = acks_for c ps"
      using emits_same [OF em] by (intro acks_for_cong) (simp_all add: same_peer_def)
    then have "emits c c' (acks_for c (p # ps))"
      using emits_trans [OF em ih(5)] by (cases "is_hs p") simp_all
    moreover have "clRemoteMachineID c' = hSrc (gHeader (last (p # ps)))"
    proof (cases "ps = []")
      case True
      then have "got2 = (True, True)" using ih(3) by simp
      then have "c' = c2" using l by (simp add: hs_loop.simps)
      have "is_hs p \<or> is_ack ex p" using \<open>got2 = (True, True)\<close> st(1) False by (auto simp add: got_after_def)
      then show ?thesis using True \<open>c' = c2\<close> st(3) by (auto simp add: is_hs_def)
    qed (use ih(6) in simp)
    moreover have "fold (\<lambda>p g. got_after ex g p) (take k (p # ps)) got \<noteq> (True, True)"
      if "k < length (p # ps)" for k
      using that ih(4) False st(1) by (cases k) auto
    ultimately show ?thesis using r c4 ih(2,3) st(1)
      by (intro exI [of _ "p # ps"]) (simp add: Client_Receive_def)
  qed
qed

lemma got_fold:
  "fold (\<lambda>p g. got_after ex g p) ps got =
     (fst got \<or> (\<exists>p\<in>set ps. is_ack ex p), snd got \<or> (\<exists>p\<in>set ps. is_hs p))"
  by (induction ps arbitrary: got) (auto simp add: got_after_def)

lemma hs_loop_complete:
  "receive_n n c = (Inr ps, c1) \<Longrightarrow> wr (clConn c) = [] \<Longrightarrow> length (encIV (clCipher c)) = 16 \<Longrightarrow>
   fold (\<lambda>p g. got_after ex g p) ps got = (True, True) \<Longrightarrow> fst (hs_loop ex got c) = None"
proof (induction n arbitrary: ps c c1 got)
  case 0
  then show ?case by (simp add: hs_loop.simps)
next
  case (Suc n)
  show ?case
  proof (cases "fst got \<and> snd got")
    case True
    then show ?thesis by (simp add: hs_loop.simps)
  next
    case False
    obtain p c2 qs where r: "readPacket c = (Inr p, c2)" "receive_n n c2 = (Inr qs, c1)" "ps = p # qs"
      using Suc.prems(1) by (auto simp add: Client_Receive_def split: prod.splits sum.splits)
    have w: "wr (clConn c2) = []" "length (encIV (clCipher c2)) = 16"
      using readPacket_frame [OF r(1)] Suc.prems by simp_all
    obtain got3 c3 where s: "hs_step ex p got c2 = (None, got3, c3)" "wr (clConn c3) = []"
      using hs_step_plain [OF w(1)] by blast
    note st = hs_step_ok [OF s(1) w(2)]
    have "rv c3 = rv c2" using hs_step_rv [of ex p got c2] s by simp
    then obtain c4 where "receive_n n c3 = (Inr qs, c4)"
      using receive_n_rv [of c3 c2 n] r(2) by (cases "receive_n n c3") auto
    then have "fst (hs_loop ex got3 c3) = None"
      using Suc.IH [of c3 qs c4 got3] s st emits_same [OF st(2)] Suc.prems(4) r(3) by simp
    then show ?thesis using False r s by (simp add: hs_loop.simps [of ex got c])
  qed
qed

section \<open>The whole handshake\<close>

lemma hs_writes_frame:
  "hs_writes n p c = (e, c') \<Longrightarrow> length (encIV (clCipher c)) = 16 \<Longrightarrow>
   rv c' = rv c \<and> same_peer c c' \<and> length (encIV (clCipher c')) = 16 \<and> clConnected c' = clConnected c"
proof (induction n arbitrary: c)
  case (Suc n)
  show ?case
  proof (cases "Encrypt p (clCipher c)")
    case None
    with Suc.prems show ?thesis by auto
  next
    case (Some xs)
    obtain x sc k f conn where x: "xs = (x, sc)" "conn_write x (clConn c) = (k, f, conn)"
      by (metis prod_cases3 surj_pair)
    let ?c = "c\<lparr>clCipher := sc, clConn := conn\<rparr>"
    have "rv ?c = rv c \<and> same_peer c ?c \<and> length (encIV sc) = 16 \<and> clConnected ?c = clConnected c"
      using Encrypt_props [OF Some [unfolded x(1)] Suc.prems(2)] conn_write_frame [OF x(2)]
      by (simp add: rv_def same_peer_def)
    moreover have "(e, c') = (Some HsWrite, ?c) \<or> hs_writes n p ?c = (e, c')"
      using Suc.prems(1) Some x by (auto split: bool.splits)
    ultimately show ?thesis using Suc.IH [of ?c] same_peer_trans [of c ?c c'] by auto
  qed
qed simp

lemma hs_writes_plain:
  "wr (clConn c) = [] \<Longrightarrow> Marshal d (clMagic c) = Inr p \<Longrightarrow> length (encIV (clCipher c)) = 16 \<Longrightarrow>
   \<exists>c'. hs_writes n p c = (None, c') \<and> wr (clConn c') = [] \<and> emits c c' (replicate n d)"
proof (induction n arbitrary: c)
  case 0
  then show ?case by (simp add: emits_refl)
next
  case (Suc n)
  obtain x sc where x: "Encrypt p (clCipher c) = Some (x, sc)"
    using Marshal_Encrypt [OF Suc.prems(2)] by blast
  let ?c = "c\<lparr>clCipher := sc, clConn := (clConn c)\<lparr>tx := tx (clConn c) @ x\<rparr>\<rparr>"
  have e: "emits c ?c [d]"
    using Suc.prems x Encrypt_props [OF x Suc.prems(3)] by (simp add: emits_def same_peer_def)
  obtain c' where c': "hs_writes n p ?c = (None, c')" "wr (clConn c') = []" "emits ?c c' (replicate n d)"
    using Suc.IH [of ?c] Suc.prems emits_same [OF e] by auto
  have "hs_writes (Suc n) p c = (None, c')" using c' x Suc.prems(1) by (simp add: conn_write_def)
  then show ?case using c' emits_trans [OF e c'(3)] by auto
qed

lemma hs_Marshal: "\<exists>b. Marshal (hs_packet h c) m = Inr b"
  by (simp add: Marshal_def marshal_payload_def hs_packet_def Let_def)

text \<open>The result of a handshake whose random numbers could be drawn.\<close>

lemma handshake_eq:
  assumes "Marshal (hs_packet (hs_numbers rb) c) (clMagic c) = Inr p"
  shows "handshake (Some rb) c =
    (case hs_writes 10 p c of
       (Some e, c) \<Rightarrow> (Some e, c)
     | (None, c) \<Rightarrow>
         (case hs_loop (complement (hs_numbers rb)) (False, False) c of
            (Some e, c) \<Rightarrow> (Some e, c) | (None, c) \<Rightarrow> (None, c\<lparr>clConnected := True\<rparr>)))"
  using assms by (simp add: handshake_def)

lemma handshake_sound:
  assumes "handshake rnd c = (None, c')" and "length (encIV (clCipher c)) = 16"
  shows "\<exists>rb ps c1. rnd = Some rb \<and> receive_n (length ps) c = (Inr ps, c1) \<and> rv c1 = rv c' \<and>
     trusted (complement (hs_numbers rb)) ps \<and>
     (\<forall>k<length ps. \<not> trusted (complement (hs_numbers rb)) (take k ps)) \<and>
     clRemoteMachineID c' = hSrc (gHeader (last ps)) \<and> IsConnected c' \<and> same_peer c c'"
proof -
  obtain rb where rb: "rnd = Some rb" using assms(1) by (cases rnd) (simp_all add: handshake_def)
  obtain p where p: "Marshal (hs_packet (hs_numbers rb) c) (clMagic c) = Inr p" using hs_Marshal by blast
  obtain c1 c2 where c1: "hs_writes 10 p c = (None, c1)"
    "hs_loop (complement (hs_numbers rb)) (False, False) c1 = (None, c2)"
    "c' = c2\<lparr>clConnected := True\<rparr>"
    using assms(1) unfolding rb handshake_eq [OF p] by (auto split: prod.splits option.splits)
  note f = hs_writes_frame [OF c1(1) assms(2)]
  obtain ps c3 where l: "receive_n (length ps) c1 = (Inr ps, c3)" "rv c3 = rv c2"
    "fold (\<lambda>p g. got_after (complement (hs_numbers rb)) g p) ps (False, False) = (True, True)"
    "\<forall>k<length ps. fold (\<lambda>p g. got_after (complement (hs_numbers rb)) g p) (take k ps) (False, False) \<noteq> (True, True)"
    "emits c1 c2 (acks_for c1 ps)"
    "ps \<noteq> [] \<longrightarrow> clRemoteMachineID c2 = hSrc (gHeader (last ps))"
    using hs_loop_sound [OF c1(2)] f by blast
  obtain c4 where c4: "receive_n (length ps) c = (Inr ps, c4)" "rv c4 = rv c3"
    using receive_n_rv [of c1 c "length ps"] f l(1) by (cases "receive_n (length ps) c") auto
  have "ps \<noteq> []" using l(3) by auto
  moreover have "rv c' = rv c2" using c1(3) by (simp add: rv_def)
  moreover have "same_peer c c'"
    using f emits_same [OF l(5)] c1(3) by (simp add: same_peer_def)
  ultimately show ?thesis using rb c4 l c1(3)
    by (intro exI [of _ rb] exI [of _ ps] exI [of _ c4])
      (simp add: trusted_def got_fold IsConnected_def)
qed

lemma handshake_complete:
  assumes "receive_n n c = (Inr ps, c1)" and "trusted (complement (hs_numbers rb)) ps"
    and "wr (clConn c) = []" and "length (encIV (clCipher c)) = 16"
  shows "fst (handshake (Some rb) c) = None"
proof -
  obtain p where p: "Marshal (hs_packet (hs_numbers rb) c) (clMagic c) = Inr p" using hs_Marshal by blast
  obtain c2 where c2: "hs_writes 10 p c = (None, c2)" "wr (clConn c2) = []"
    using hs_writes_plain [OF assms(3) p assms(4)] by blast
  note f = hs_writes_frame [OF c2(1) assms(4)]
  obtain c3 where "receive_n n c2 = (Inr ps, c3)"
    using receive_n_rv [of c2 c n] f assms(1) by (cases "receive_n n c2") auto
  then have "fst (hs_loop (complement (hs_numbers rb)) (False, False) c2) = None"
    using f c2 assms(2) by (intro hs_loop_complete) (simp_all add: got_fold trusted_def)
  then show ?thesis using c2 unfolding handshake_eq [OF p] by (auto split: prod.split)
qed

lemma hs_loop_wr:
  "hs_loop ex got c = (None, c') \<Longrightarrow> wr (clConn c) = [] \<Longrightarrow> wr (clConn c') = []"
proof (induction ex got c arbitrary: c' rule: hs_loop.induct)
  case (1 ex got c)
  show ?case
  proof (cases "fst got \<and> snd got")
    case True
    then show ?thesis using "1.prems" by (simp add: hs_loop.simps)
  next
    case False
    obtain p c1 where r: "readPacket c = (Inr p, c1)"
      using "1.prems"(1) False by (auto simp add: hs_loop.simps [of ex got c] split: prod.splits sum.splits)
    have w: "wr (clConn c1) = []" using readPacket_frame(3) [OF r] "1.prems"(2) by simp
    obtain got2 c2 where s: "hs_step ex p got c1 = (None, got2, c2)" "wr (clConn c2) = []"
      using hs_step_plain [OF w] by blast
    then have l: "hs_loop ex got2 c2 = (None, c')"
      using "1.prems"(1) False r by (auto simp add: hs_loop.simps [of ex got c])
    show ?thesis using "1.IH" [OF False r [symmetric] refl s(1) [symmetric] refl refl l s(2)] .
  qed
qed

lemma handshake_wr:
  assumes "handshake (Some rb) c = (None, c')" and "wr (clConn c) = []" and "length (encIV (clCipher c)) = 16"
  shows "wr (clConn c') = []"
proof -
  obtain p where p: "Marshal (hs_packet (hs_numbers rb) c) (clMagic c) = Inr p" using hs_Marshal by blast
  obtain c1 where c1: "hs_writes 10 p c = (None, c1)" "wr (clConn c1) = []"
    using hs_writes_plain [OF assms(2) p assms(3), of 10] by blast
  then show ?thesis using assms(1) hs_loop_wr unfolding handshake_eq [OF p]
    by (auto split: prod.splits option.splits)
qed

text \<open>What a handshake that succeeds has sent, on a connection that takes every write.\<close>

lemma handshake_emits:
  assumes "handshake (Some rb) c = (None, c')" and "length (encIV (clCipher c)) = 16"
    and "wr (clConn c) = []"
  shows "\<exists>ps c1. receive_n (length ps) c = (Inr ps, c1) \<and>
     trusted (complement (hs_numbers rb)) ps \<and>
     (\<forall>k<length ps. \<not> trusted (complement (hs_numbers rb)) (take k ps)) \<and>
     emits c c' (replicate 10 (hs_packet (hs_numbers rb) c) @ acks_for c ps)"
proof -
  obtain p where p: "Marshal (hs_packet (hs_numbers rb) c) (clMagic c) = Inr p" using hs_Marshal by blast
  obtain c1 c2 where c1: "hs_writes 10 p c = (None, c1)"
    "hs_loop (complement (hs_numbers rb)) (False, False) c1 = (None, c2)"
    "c' = c2\<lparr>clConnected := True\<rparr>"
    using assms(1) unfolding handshake_eq [OF p] by (auto split: prod.splits option.splits)
  have em: "emits c c1 (replicate 10 (hs_packet (hs_numbers rb) c))"
    using hs_writes_plain [OF assms(3) p assms(2), of 10] c1(1) by auto
  note f = hs_writes_frame [OF c1(1) assms(2)]
  obtain ps c3 where l: "receive_n (length ps) c1 = (Inr ps, c3)"
    "fold (\<lambda>p g. got_after (complement (hs_numbers rb)) g p) ps (False, False) = (True, True)"
    "\<forall>k<length ps. fold (\<lambda>p g. got_after (complement (hs_numbers rb)) g p) (take k ps) (False, False) \<noteq> (True, True)"
    "emits c1 c2 (acks_for c1 ps)"
    using hs_loop_sound [OF c1(2)] f by blast
  obtain c4 where c4: "receive_n (length ps) c = (Inr ps, c4)"
    using receive_n_rv [of c1 c "length ps"] f l(1) by (cases "receive_n (length ps) c") auto
  have "acks_for c1 ps = acks_for c ps" using f by (intro acks_for_cong) (simp_all add: same_peer_def)
  moreover have "emits c1 c' ds = emits c1 c2 ds" for ds
    unfolding c1(3) by (simp add: emits_def same_peer_def split: option.split)
  ultimately have "emits c c' (replicate 10 (hs_packet (hs_numbers rb) c) @ acks_for c ps)"
    using emits_trans [OF em] l(4) by simp
  with c4 l show ?thesis by (auto simp add: trusted_def got_fold)
qed

lemma receive_n_length: "receive_n n c = (Inr ps, c') \<Longrightarrow> length ps = n"
  by (induction n arbitrary: c ps c') (auto split: prod.splits sum.splits)

lemma receive_n_prefix:
  "receive_n n c = (Inr ps, c') \<Longrightarrow> m \<le> n \<Longrightarrow> \<exists>c1. receive_n m c = (Inr (take m ps), c1)"
proof (induction n arbitrary: m c ps)
  case (Suc n)
  show ?case
  proof (cases m)
    case (Suc k)
    obtain p c2 qs where r: "readPacket c = (Inr p, c2)" "receive_n n c2 = (Inr qs, c')" "ps = p # qs"
      using Suc.prems(1) by (auto simp add: Client_Receive_def split: prod.splits sum.splits)
    then show ?thesis using Suc.IH [OF r(2), of k] Suc.prems(2) Suc by (auto simp add: Client_Receive_def)
  qed simp
qed simp

section \<open>Two peers that both run the handshake\<close>

text \<open>What each sends: ten handshakes, then one acknowledgement per handshake of the other.\<close>

definition hs_stream :: "Client \<Rightarrow> HandshakeData \<Rightarrow> Client \<Rightarrow> HandshakeData \<Rightarrow> GenericData list" where
  "hs_stream a ra b rb =
     replicate 10 (hs_packet ra a) @ replicate 10 (ack_packet (wire_view (hs_packet rb b)) rb a)"

lemma receive_n_add:
  "receive_n (m + n) c =
    (case receive_n m c of
       (Inl e, c) \<Rightarrow> (Inl e, c)
     | (Inr ps, c) \<Rightarrow>
         (case receive_n n c of (Inl e, c) \<Rightarrow> (Inl e, c) | (Inr qs, c) \<Rightarrow> (Inr (ps @ qs), c)))"
  by (induction m arbitrary: c) (auto split: sum.split prod.split)

lemma wire_hs:
  "gType (wire_view (hs_packet h c)) = Handshake" "gHandshake (wire_view (hs_packet h c)) = Some h"
  "hSrc (gHeader (wire_view (hs_packet h c))) = clMachineID c"
  by (simp_all add: wire_view_def hs_packet_def Let_def)

lemma wire_ack:
  "gType (wire_view (ack_packet p h c)) = HandshakeAck"
  "gHandshake (wire_view (ack_packet p h c)) = Some (complement h)"
  "hSrc (gHeader (wire_view (ack_packet p h c))) = clMachineID c"
  by (simp_all add: wire_view_def ack_packet_def Let_def)

lemma wire_kinds:
  "is_hs (wire_view (hs_packet h c))" "\<not> is_hs (wire_view (ack_packet p h c))"
  "\<not> is_ack ex (wire_view (hs_packet h c))"
  "is_ack ex (wire_view (ack_packet p h c)) \<longleftrightarrow> ex = complement h"
  by (auto simp add: is_hs_def is_ack_def wire_hs wire_ack simp del: gType_wire_view)

text \<open>The first packets of a peer's stream that complete our handshake are eleven.\<close>

lemma hs_stream_trusted:
  fixes b a rb ra defines "W \<equiv> map wire_view (hs_stream b rb a ra)"
  shows "trusted (complement ra) W"
    and "n \<le> 20 \<Longrightarrow> trusted (complement ra) (take n W) \<Longrightarrow>
         (\<forall>k<n. \<not> trusted (complement ra) (take k (take n W))) \<Longrightarrow>
         take n W = replicate 10 (wire_view (hs_packet rb b)) @
                    [wire_view (ack_packet (wire_view (hs_packet ra a)) ra b)]"
proof -
  let ?h = "wire_view (hs_packet rb b)" and ?k = "wire_view (ack_packet (wire_view (hs_packet ra a)) ra b)"
  have W: "W = replicate 10 ?h @ replicate 10 ?k" by (simp add: W_def hs_stream_def)
  have t11: "trusted (complement ra) (replicate 10 ?h @ [?k])"
    by (simp add: trusted_def wire_kinds)
  have tk: "take 11 W = replicate 10 ?h @ [?k]" unfolding W
    by (simp add: numeral_eq_Suc)
  show "trusted (complement ra) W" unfolding W by (simp add: trusted_def wire_kinds)
  assume n: "n \<le> 20" and t: "trusted (complement ra) (take n W)"
    and m: "\<forall>k<n. \<not> trusted (complement ra) (take k (take n W))"
  have "\<not> n \<le> 10"
  proof
    assume "n \<le> 10"
    then have "take n W = replicate n ?h" unfolding W by (simp add: min_def)
    with t show False by (auto simp add: trusted_def wire_kinds)
  qed
  moreover have "\<not> 11 < n"
  proof
    assume "11 < n"
    with m have "\<not> trusted (complement ra) (take 11 (take n W))" by blast
    with t11 tk \<open>11 < n\<close> show False by (simp add: min_def)
  qed
  ultimately have "n = 11" by simp
  with tk show "take n W = replicate 10 ?h @ [?k]" by simp
qed

lemma acks_stream:
  "acks_for a (replicate 10 (wire_view (hs_packet rb b)) @ [wire_view (ack_packet p h b)])
   = replicate 10 (ack_packet (wire_view (hs_packet rb b)) rb a)"
  by (simp add: acks_for_def wire_kinds wire_hs numeral_eq_Suc)

lemma hs_stream_types: "\<forall>d\<in>set (hs_stream b rb a ra). gType d < 256"
  by (auto simp add: hs_stream_def hs_packet_def ack_packet_def)

lemma handshake_honest:
  assumes "encode_all (clMagic b) (hs_stream b (hs_numbers rb) a (hs_numbers ra)) (clCipher b) = Some (wb, sb)"
    and "rx (clConn a) = wb @ rest" and "in_step (clCipher b) (clCipher a)"
    and "drop_bit 16 (clMagic b) = drop_bit 16 (clMagic a)"
    and "wr (clConn a) = []" and "length (encIV (clCipher a)) = 16"
  shows "\<exists>a' a''. handshake (Some ra) a = (None, a') \<and>
     emits a a' (hs_stream a (hs_numbers ra) b (hs_numbers rb)) \<and>
     IsConnected a' \<and> clRemoteMachineID a' = clMachineID b \<and>
     receive_n 9 a' = (Inr (replicate 9
        (wire_view (ack_packet (wire_view (hs_packet (hs_numbers ra) a)) (hs_numbers ra) b))), a'') \<and>
     rx (clConn a'') = rest \<and> in_step sb (clCipher a'')"
proof -
  let ?B = "hs_stream b (hs_numbers rb) a (hs_numbers ra)"
  let ?h = "wire_view (hs_packet (hs_numbers rb) b)"
  let ?k = "wire_view (ack_packet (wire_view (hs_packet (hs_numbers ra) a)) (hs_numbers ra) b)"
  have l20: "length ?B = 20" by (simp add: hs_stream_def)
  obtain c20 where c20: "receive_n 20 a = (Inr (map wire_view ?B), c20)" "rx (clConn c20) = rest"
      "in_step sb (clCipher c20)"
    using encode_all_decode [OF assms(1) hs_stream_types assms(3,4,2)] unfolding l20 by blast
  obtain a' where a': "handshake (Some ra) a = (None, a')"
    using handshake_complete [OF c20(1) hs_stream_trusted(1) assms(5,6)]
    by (metis prod.collapse)
  obtain ps c1 where ps: "receive_n (length ps) a = (Inr ps, c1)" "rv c1 = rv a'"
      "trusted (complement (hs_numbers ra)) ps"
      "\<forall>k<length ps. \<not> trusted (complement (hs_numbers ra)) (take k ps)"
      "clRemoteMachineID a' = hSrc (gHeader (last ps))" "IsConnected a'"
    using handshake_sound [OF a' assms(6)] by auto
  obtain qs c2 where qs: "receive_n (length qs) a = (Inr qs, c2)"
      "trusted (complement (hs_numbers ra)) qs"
      "\<forall>k<length qs. \<not> trusted (complement (hs_numbers ra)) (take k qs)"
      "emits a a' (replicate 10 (hs_packet (hs_numbers ra) a) @ acks_for a qs)"
    using handshake_emits [OF a' assms(6,5)] by auto
  have eleven: "xs = replicate 10 ?h @ [?k]"
    if xs: "receive_n (length xs) a = (Inr xs, c)" "trusted (complement (hs_numbers ra)) xs"
      "\<forall>k<length xs. \<not> trusted (complement (hs_numbers ra)) (take k xs)" for xs c
  proof -
    have n20: "length xs \<le> 20"
    proof (rule ccontr)
      assume "\<not> length xs \<le> 20"
      then have "20 < length xs" by simp
      obtain c' where "receive_n 20 a = (Inr (take 20 xs), c')"
        using receive_n_prefix [OF xs(1), of 20] \<open>20 < length xs\<close> by auto
      with c20(1) have "take 20 xs = map wire_view ?B" by simp
      with xs(3) \<open>20 < length xs\<close> hs_stream_trusted(1) show False by fastforce
    qed
    have "xs = take (length xs) (map wire_view ?B)"
      using receive_n_prefix [OF c20(1) n20] xs(1) by auto
    with hs_stream_trusted(2) [OF n20] xs show ?thesis by metis
  qed
  note psq = eleven [OF ps(1,3,4)] and qsq = eleven [OF qs(1-3)]
  have em: "emits a a' (hs_stream a (hs_numbers ra) b (hs_numbers rb))"
    using qs(4) unfolding qsq acks_stream hs_stream_def .
  have "receive_n (11 + 9) a = (Inr (map wire_view ?B), c20)" using c20(1) by simp
  moreover have "receive_n 11 a = (Inr ps, c1)" using ps(1) psq by simp
  ultimately obtain rs where rs: "receive_n 9 c1 = (Inr rs, c20)" "ps @ rs = map wire_view ?B"
    unfolding receive_n_add by (auto split: prod.splits sum.splits)
  have "replicate 10 ?h @ [?k] @ rs = replicate 10 ?h @ replicate 10 ?k"
    using rs(2) psq by (simp add: hs_stream_def)
  then have "[?k] @ rs = [?k] @ replicate 9 ?k" by (simp add: numeral_eq_Suc)
  then have rs9: "rs = replicate 9 ?k" by simp
  obtain a'' where a'': "receive_n 9 a' = (Inr rs, a'')" "rv a'' = rv c20"
    using receive_n_rv [OF ps(2), of 9] rs(1) by (cases "receive_n 9 a'") auto
  have "rx (clConn a'') = rest" "in_step sb (clCipher a'')"
    using a''(2) c20 by (auto simp add: rv_def in_step_def)
  moreover have "clRemoteMachineID a' = clMachineID b" using ps(5) psq wire_ack by simp
  ultimately show ?thesis using a' em ps(6) a''(1) rs9 by blast
qed

section \<open>Connect and Accept together\<close>

lemma cIV_length: "length (cIV (NewMWBCrypto pbkdf2 sha512 key)) = 16"
  by (simp add: NewMWBCrypto_def Let_def)

lemma NewStreamCipher_in_step: "NewStreamCipher mc = Some sc \<Longrightarrow> length (cIV mc) = 16 \<Longrightarrow> in_step sc sc"
  by (auto simp add: NewStreamCipher_def in_step_def split: if_splits)

lemma SendRandomBlock_plain:
  assumes "wr w = []"
  obtains x sc' where "SendRandomBlock (Some rnd) sc w = (False, sc', w\<lparr>tx := tx w @ x\<rparr>)"
    "Encrypt (take 16 (rnd @ replicate 16 0)) sc = Some (x, sc')"
proof -
  have "length (take 16 (rnd @ replicate 16 (0::u8))) mod 16 = 0" by (simp add: min_def)
  from Encrypt_total [OF this] obtain x sc'
    where "Encrypt (take 16 (rnd @ replicate 16 0)) sc = Some (x, sc')" by blast
  then show thesis using that assms by (simp add: SendRandomBlock_def conn_write_def)
qed

text \<open>The state of the two ciphers after the exchange of the primer blocks.\<close>

lemma primers:
  assumes "in_step sc sc"
  obtains s1 xa xb s2 t1 t2 where
    "\<And>conn. wr conn = [] \<Longrightarrow> SendRandomBlock (Some pa) sc conn = (False, s1, conn\<lparr>tx := tx conn @ xa\<rparr>)"
    "\<And>conn rest. rx conn = xb @ rest \<Longrightarrow> ReceiveRandomBlock s1 conn = (None, s2, conn\<lparr>rx := rest\<rparr>)"
    "\<And>conn rest. rx conn = xa @ rest \<Longrightarrow> ReceiveRandomBlock sc conn = (None, t1, conn\<lparr>rx := rest\<rparr>)"
    "\<And>conn. wr conn = [] \<Longrightarrow> SendRandomBlock (Some pb) t1 conn = (False, t2, conn\<lparr>tx := tx conn @ xb\<rparr>)"
    "in_step s2 t2" "in_step t2 s2"
proof -
  let ?pa = "take 16 (pa @ replicate 16 (0::u8))" and ?pb = "take 16 (pb @ replicate 16 (0::u8))"
  have l: "length ?pa = 16" "length ?pb = 16" "?pa \<noteq> []" "?pb \<noteq> []" by (simp_all add: min_def)
  have iv: "length (encIV sc) = 16" using assms unfolding in_step_def by blast
  have m: "length ?pa mod 16 = 0" "length ?pb mod 16 = 0" unfolding l by simp_all
  obtain xa s1 where s1: "Encrypt ?pa sc = Some (xa, s1)" using Encrypt_total [OF m(1)] by blast
  obtain t1 where t1: "Decrypt xa sc = (Some ?pa, t1)" "in_step s1 t1" "encIV t1 = encIV sc"
    using Decrypt_Encrypt [OF s1 assms l(3)] by blast
  obtain xb t2 where t2: "Encrypt ?pb t1 = Some (xb, t2)" using Encrypt_total [OF m(2)] by blast
  note p1 = Encrypt_props [OF s1 iv]
  have iv1: "length (encIV t1) = 16" using t1(3) iv by simp
  note p2 = Encrypt_props [OF t2 iv1]
  have dec: "encIV sc = decIV sc" using assms unfolding in_step_def by blast
  have st: "in_step t1 s1" using t1 p1 iv dec unfolding in_step_def by simp
  obtain s2 where s2: "Decrypt xb s1 = (Some ?pb, s2)" "in_step t2 s2" "encIV s2 = encIV s1"
    using Decrypt_Encrypt [OF t2 st l(4)] by blast
  have "in_step s2 t2" using s2 t1(2) p1 p2 unfolding in_step_def by auto
  show thesis
  proof (rule that)
    show "SendRandomBlock (Some pa) sc conn = (False, s1, conn\<lparr>tx := tx conn @ xa\<rparr>)" if "wr conn = []" for conn
      using that s1 by (simp add: SendRandomBlock_def conn_write_def)
    show "SendRandomBlock (Some pb) t1 conn = (False, t2, conn\<lparr>tx := tx conn @ xb\<rparr>)" if "wr conn = []" for conn
      using that t2 by (simp add: SendRandomBlock_def conn_write_def)
    show "ReceiveRandomBlock s1 conn = (None, s2, conn\<lparr>rx := rest\<rparr>)" if "rx conn = xb @ rest" for conn rest
      using ReadFull_ok [OF _ that] p2(1) l s2 by (simp add: ReceiveRandomBlock_def)
    show "ReceiveRandomBlock sc conn = (None, t1, conn\<lparr>rx := rest\<rparr>)" if "rx conn = xa @ rest" for conn rest
      using ReadFull_ok [OF _ that] p1(1) l t1 by (simp add: ReceiveRandomBlock_def)
  qed fact+
qed

lemma hs_stream_encodes:
  "\<exists>w s. encode_all m (hs_stream a ra b rb) sc = Some (w, s)"
  by (rule encode_all_total) (auto simp add: hs_stream_def hs_Marshal ack_Marshal)

lemma emits_tx:
  "emits c c' ds \<Longrightarrow> encode_all (clMagic c) ds (clCipher c) = Some (w, s) \<Longrightarrow>
   tx (clConn c') = tx (clConn c) @ w"
  by (simp add: emits_def)

lemma emits_end:
  "emits c c' ds \<Longrightarrow> encode_all (clMagic c) ds (clCipher c) = Some (w, s) \<Longrightarrow>
   encIV (clCipher c') = encIV s \<and> scKey (clCipher c') = scKey s \<and> clMagic c' = clMagic c"
  using encode_all_keeps [of "clMagic c" ds "clCipher c" w s] by (simp add: emits_def same_peer_def)

lemma hs_stream_cong:
  "clMachineID a = clMachineID a' \<Longrightarrow> clMachineName a = clMachineName a' \<Longrightarrow>
   clMachineID b = clMachineID b' \<Longrightarrow> clMachineName b = clMachineName b' \<Longrightarrow>
   hs_stream a ra b rb = hs_stream a' ra b' rb"
  by (simp add: hs_stream_def hs_packet_def ack_packet_def)

lemma connect_accept_aux:
  assumes key: "length (cKey (NewMWBCrypto pbkdf2 sha512 key)) = 32"
  shows "\<exists>wa wb. \<forall>dial listen incoming.
     dial addr (port + 1) = Some \<lparr>rx = wb, rxEnd = EOF, tx = [], wr = []\<rparr> \<longrightarrow> listen (port + 1) \<longrightarrow>
     (\<exists>a s b. Connect pbkdf2 sha512 dial addr port key ida na (Some pa) (Some ra) = (Inr a, [])
       \<and> NewServer pbkdf2 sha512 listen port key idb nb = Some s
       \<and> Accept s ((\<lparr>rx = wa, rxEnd = EOF, tx = [], wr = []\<rparr>, Some pb, Some rb) # incoming) = (Inr b, [])
       \<and> tx (clConn a) = wa \<and> tx (clConn b) = wb \<and> IsConnected a \<and> IsConnected b
       \<and> wr (clConn a) = [] \<and> wr (clConn b) = []
       \<and> clRemoteMachineID a = idb \<and> clRemoteMachineID b = ida
       \<and> (\<exists>as bs. in_transit b a as \<and> in_transit a b bs \<and> length as = 9 \<and> length bs = 9 \<and>
            (\<forall>d\<in>set (as @ bs). gType d = HandshakeAck)))"
proof -
  let ?mc = "NewMWBCrypto pbkdf2 sha512 key"
  obtain sc where sc: "NewStreamCipher ?mc = Some sc" using key by (simp add: NewStreamCipher_def)
  obtain s1 xa xb s2 t1 t2 where pr:
    "\<And>conn. wr conn = [] \<Longrightarrow> SendRandomBlock (Some pa) sc conn = (False, s1, conn\<lparr>tx := tx conn @ xa\<rparr>)"
    "\<And>conn rest. rx conn = xb @ rest \<Longrightarrow> ReceiveRandomBlock s1 conn = (None, s2, conn\<lparr>rx := rest\<rparr>)"
    "\<And>conn rest. rx conn = xa @ rest \<Longrightarrow> ReceiveRandomBlock sc conn = (None, t1, conn\<lparr>rx := rest\<rparr>)"
    "\<And>conn. wr conn = [] \<Longrightarrow> SendRandomBlock (Some pb) t1 conn = (False, t2, conn\<lparr>tx := tx conn @ xb\<rparr>)"
    "in_step s2 t2" "in_step t2 s2"
    by (rule primers [OF NewStreamCipher_in_step [OF sc cIV_length], of pa pb]) (rule that; simp)
  define A where "A w = new_client s2 (cMagicNumber ?mc) ida na \<lparr>rx = w, rxEnd = EOF, tx = xa, wr = []\<rparr>" for w
  define B where "B w = new_client t2 (cMagicNumber ?mc) idb nb \<lparr>rx = w, rxEnd = EOF, tx = xb, wr = []\<rparr>" for w
  let ?na = "hs_numbers ra" and ?nb = "hs_numbers rb"
  obtain wa sa where wa: "encode_all (clMagic (A [])) (hs_stream (A []) ?na (B []) ?nb) (clCipher (A [])) = Some (wa, sa)"
    using hs_stream_encodes by blast
  obtain wb sb where wb: "encode_all (clMagic (B [])) (hs_stream (B []) ?nb (A []) ?na) (clCipher (B [])) = Some (wb, sb)"
    using hs_stream_encodes by blast
  have streams: "hs_stream (A u) ?na (B v) ?nb = hs_stream (A []) ?na (B []) ?nb"
    "hs_stream (B v) ?nb (A u) ?na = hs_stream (B []) ?nb (A []) ?na" for u v
    using hs_stream_cong [of "A u" "A []" "B v" "B []" ?na ?nb] hs_stream_cong [of "B v" "B []" "A u" "A []" ?nb ?na]
    by (simp_all add: A_def B_def new_client_def)
  have iv: "length (encIV s2) = 16" "length (encIV t2) = 16" using pr(5,6) unfolding in_step_def by metis+
  have sel: "clMagic (A u) = cMagicNumber ?mc" "clCipher (A u) = s2" "rx (clConn (A u)) = u"
    "tx (clConn (A u)) = xa" "wr (clConn (A u)) = []" "clMachineID (A u) = ida"
    "clMagic (B u) = cMagicNumber ?mc" "clCipher (B u) = t2" "rx (clConn (B u)) = u"
    "tx (clConn (B u)) = xb" "wr (clConn (B u)) = []" "clMachineID (B u) = idb" for u
    by (simp_all add: A_def B_def new_client_def)
  have wa': "encode_all (clMagic (A wb)) (hs_stream (A wb) ?na (B []) ?nb) (clCipher (A wb)) = Some (wa, sa)"
    and wb': "encode_all (clMagic (B wa)) (hs_stream (B wa) ?nb (A []) ?na) (clCipher (B wa)) = Some (wb, sb)"
    using wa wb by (simp_all add: sel streams [where u = wb and v = "[]"] streams [where u = "[]" and v = wa])
  have wb2: "encode_all (clMagic (B [])) (hs_stream (B []) ?nb (A wb) ?na) (clCipher (B [])) = Some (wb, sb)"
    and wa2: "encode_all (clMagic (A [])) (hs_stream (A []) ?na (B wa) ?nb) (clCipher (A [])) = Some (wa, sa)"
    using wa wb by (simp_all add: streams [where u = wb and v = "[]"] streams [where u = "[]" and v = wa])
  obtain a a2 where a: "handshake (Some ra) (A wb) = (None, a)"
    "emits (A wb) a (hs_stream (A wb) ?na (B []) ?nb)" "IsConnected a" "clRemoteMachineID a = clMachineID (B [])"
    "receive_n 9 a = (Inr (replicate 9 (wire_view (ack_packet (wire_view (hs_packet ?na (A wb))) ?na (B [])))), a2)"
    "rx (clConn a2) = []" "in_step sb (clCipher a2)"
    using handshake_honest [OF wb2, of "[]"] pr(6) iv by (simp add: sel) blast
  note a' = emits_tx [OF a(2) wa', unfolded sel] and ae = emits_end [OF a(2) wa', unfolded sel]
  obtain b b2 where b: "handshake (Some rb) (B wa) = (None, b)"
    "emits (B wa) b (hs_stream (B wa) ?nb (A []) ?na)" "IsConnected b" "clRemoteMachineID b = clMachineID (A [])"
    "receive_n 9 b = (Inr (replicate 9 (wire_view (ack_packet (wire_view (hs_packet ?nb (B wa))) ?nb (A [])))), b2)"
    "rx (clConn b2) = []" "in_step sa (clCipher b2)"
    using handshake_honest [OF wa2, of "[]"] pr(5) iv by (simp add: sel) blast
  note b' = emits_tx [OF b(2) wb', unfolded sel] and be = emits_end [OF b(2) wb', unfolded sel]
  have W: "wr (clConn a) = []" "wr (clConn b) = []"
    using handshake_wr [OF a(1)] handshake_wr [OF b(1)] iv by (simp_all add: sel)
  have in_step_ends: "in_step (clCipher b) (clCipher a2)" "in_step (clCipher a) (clCipher b2)"
    using a(7) b(7) ae be unfolding in_step_def by metis+
  have "in_transit b a (replicate 9 (wire_view (ack_packet (wire_view (hs_packet ?na (A wb))) ?na (B []))))"
    "in_transit a b (replicate 9 (wire_view (ack_packet (wire_view (hs_packet ?nb (B wa))) ?nb (A []))))"
    using a(5,6) b(5,6) ae be in_step_ends by (simp_all add: in_transit_def)
  then have t: "\<exists>as bs. in_transit b a as \<and> in_transit a b bs \<and> length as = 9 \<and> length bs = 9 \<and>
      (\<forall>d\<in>set (as @ bs). gType d = HandshakeAck)"
    by (intro exI conjI) (assumption | auto simp add: wire_ack simp del: gType_wire_view)+
  have A: "Connect pbkdf2 sha512 dial addr port key ida na (Some pa) (Some ra) = (Inr a, [])
        \<and> tx (clConn a) = xa @ wa \<and> IsConnected a \<and> clRemoteMachineID a = idb"
    if "dial addr (port + 1) = Some \<lparr>rx = xb @ wb, rxEnd = EOF, tx = [], wr = []\<rparr>" for dial
    using a a' that sc pr(1,2) by (simp add: Connect_def sel Let_def A_def [symmetric])
  have B: "\<exists>s. NewServer pbkdf2 sha512 listen port key idb nb = Some s
         \<and> Accept s ((\<lparr>rx = xa @ wa, rxEnd = EOF, tx = [], wr = []\<rparr>, Some pb, Some rb) # incoming) = (Inr b, [])
         \<and> tx (clConn b) = xb @ wb \<and> IsConnected b \<and> clRemoteMachineID b = ida"
    if "listen (port + 1)" for listen incoming
    using b b' that sc pr(3,4) by (simp add: NewServer_def sel Let_def B_def [symmetric])
  show ?thesis
  proof (rule exI [of _ "xa @ wa"], rule exI [of _ "xb @ wb"], intro allI impI)
    fix dial :: "gostring \<Rightarrow> int \<Rightarrow> Conn option" and listen incoming
    assume d: "dial addr (port + 1) = Some \<lparr>rx = xb @ wb, rxEnd = EOF, tx = [], wr = []\<rparr>" and l: "listen (port + 1)"
    obtain s where "NewServer pbkdf2 sha512 listen port key idb nb = Some s"
         "Accept s ((\<lparr>rx = xa @ wa, rxEnd = EOF, tx = [], wr = []\<rparr>, Some pb, Some rb) # incoming) = (Inr b, [])"
         "tx (clConn b) = xb @ wb" "IsConnected b" "clRemoteMachineID b = ida"
      using B [of listen incoming, OF l] by blast
    then show "\<exists>a s b. Connect pbkdf2 sha512 dial addr port key ida na (Some pa) (Some ra) = (Inr a, [])
       \<and> NewServer pbkdf2 sha512 listen port key idb nb = Some s
       \<and> Accept s ((\<lparr>rx = xa @ wa, rxEnd = EOF, tx = [], wr = []\<rparr>, Some pb, Some rb) # incoming) = (Inr b, [])
       \<and> tx (clConn a) = xa @ wa \<and> tx (clConn b) = xb @ wb \<and> IsConnected a \<and> IsConnected b
       \<and> wr (clConn a) = [] \<and> wr (clConn b) = []
       \<and> clRemoteMachineID a = idb \<and> clRemoteMachineID b = ida
       \<and> (\<exists>as bs. in_transit b a as \<and> in_transit a b bs \<and> length as = 9 \<and> length bs = 9 \<and>
            (\<forall>d\<in>set (as @ bs). gType d = HandshakeAck))"
      using A [of dial, OF d] W by (intro exI [of _ a] exI [of _ s] exI [of _ b] conjI t) simp_all
  qed
qed

section \<open>The server's loop\<close>

text \<open>What becomes of one incoming connection: closed, or a client.\<close>

definition accept_one :: "Server \<Rightarrow> StreamCipher \<Rightarrow> Conn \<times> bytes option \<times> bytes option \<Rightarrow> Conn + Client" where
  "accept_one s cipher x =
    (let (conn, primer, rnd) = x;
         (e, cipher, conn) = ReceiveRandomBlock cipher conn
     in if e \<noteq> None then Inl conn
        else let (failed, cipher, conn) = SendRandomBlock primer cipher conn
             in if failed then Inl conn
                else let (e, c) = handshake rnd (new_client cipher (cMagicNumber (svCrypto s))
                                    (svMachineID s) (svMachineName s) conn)
                     in if e \<noteq> None then Inl (clConn c) else Inr c)"

lemma Accept_Cons:
  assumes "NewStreamCipher (svCrypto s) = Some cipher"
  shows "Accept s (x # incoming) =
    (case accept_one s cipher x of
       Inl conn \<Rightarrow> (fst (Accept s incoming), conn # snd (Accept s incoming))
     | Inr c \<Rightarrow> (Inr c, []))"
proof -
  obtain conn primer rnd where x: "x = (conn, primer, rnd)" by (metis prod_cases3)
  show ?thesis unfolding x using assms
    by (simp add: accept_one_def Let_def split_beta split: option.split bool.split)
qed

lemma accept_one_connected: "accept_one s cipher x = Inr c \<Longrightarrow> IsConnected c"
  by (auto simp add: accept_one_def Let_def split_beta handshake_def IsConnected_def
      split: if_splits option.splits sum.splits)

lemma Accept_find:
  assumes "NewStreamCipher (svCrypto s) = Some cipher"
  shows "Accept s incoming =
    (case find (\<lambda>x. \<not> isl (accept_one s cipher x)) incoming of
       None \<Rightarrow> Inl AcceptError
     | Some x \<Rightarrow> Inr (projr (accept_one s cipher x)),
     map (projl \<circ> accept_one s cipher) (takeWhile (isl \<circ> accept_one s cipher) incoming))"
  by (induction incoming)
    (simp, simp only: Accept_Cons [OF assms], simp split: sum.split)

section \<open>Properties\<close>

text \<open>C14: A handshake succeeds only after a packet with the complement of the four random numbers
  that were sent, and a handshake of the peer, were read; it stops at the first packet that
  completes the pair, takes the peer's id from that packet, and leaves the client connected.\<close>

theorem handshake_trust:
  assumes "handshake rnd c = (None, c')" and "length (encIV (clCipher c)) = 16"
  shows "\<exists>rb ps c1. rnd = Some rb \<and> receive_n (length ps) c = (Inr ps, c1) \<and>
     trusted (complement (hs_numbers rb)) ps \<and>
     (\<forall>k<length ps. \<not> trusted (complement (hs_numbers rb)) (take k ps)) \<and>
     clRemoteMachineID c' = hSrc (gHeader (last ps)) \<and> IsConnected c' \<and> same_peer c c'"
  using handshake_sound [OF assms] by blast

text \<open>C30: On a connection that takes every write, a handshake succeeds exactly when some packets
  that the client can read contain the peer's handshake and the right acknowledgement.\<close>

theorem handshake_succeeds_iff:
  assumes "wr (clConn c) = []" and "length (encIV (clCipher c)) = 16"
  shows "fst (handshake (Some rb) c) = None \<longleftrightarrow>
    (\<exists>n ps c1. receive_n n c = (Inr ps, c1) \<and> trusted (complement (hs_numbers rb)) ps)"
proof
  assume "fst (handshake (Some rb) c) = None"
  then obtain c' where "handshake (Some rb) c = (None, c')" by (metis prod.collapse)
  from handshake_sound [OF this assms(2)]
  show "\<exists>n ps c1. receive_n n c = (Inr ps, c1) \<and> trusted (complement (hs_numbers rb)) ps" by auto
next
  assume "\<exists>n ps c1. receive_n n c = (Inr ps, c1) \<and> trusted (complement (hs_numbers rb)) ps"
  then show "fst (handshake (Some rb) c) = None" using handshake_complete assms by blast
qed

text \<open>A peer of \<open>sample_client\<close> whose stream completes the handshake.\<close>

lemma sample_handshake:
  "\<exists>w c'. handshake (Some (replicate 16 3))
       (sample_client\<lparr>clConn := (clConn sample_client)\<lparr>rx := w\<rparr>\<rparr>) = (None, c')"
proof -
  let ?rb = "replicate 16 (3::u8)"
  obtain w s where w: "encode_all (clMagic sample_client)
      (hs_stream sample_client (hs_numbers ?rb) sample_client (hs_numbers ?rb))
      (clCipher sample_client) = Some (w, s)"
    using hs_stream_encodes by blast
  let ?a = "sample_client\<lparr>clConn := (clConn sample_client)\<lparr>rx := w\<rparr>\<rparr>"
  have "hs_stream sample_client (hs_numbers ?rb) ?a (hs_numbers ?rb)
      = hs_stream sample_client (hs_numbers ?rb) sample_client (hs_numbers ?rb)"
    by (rule hs_stream_cong) simp_all
  then show ?thesis
    using handshake_honest [of sample_client ?rb ?a ?rb w s "[]"] w
    by (fastforce simp add: in_step_def sample_client_def)
qed

theorem handshake_trust_witness:
  "\<exists>c c' ps. handshake (Some (replicate 16 3)) c = (None, c') \<and>
     trusted (complement (hs_numbers (replicate 16 3))) ps \<and> IsConnected c'"
proof -
  obtain w c' where h: "handshake (Some (replicate 16 3))
       (sample_client\<lparr>clConn := (clConn sample_client)\<lparr>rx := w\<rparr>\<rparr>) = (None, c')"
    using sample_handshake by blast
  have "length (encIV (clCipher (sample_client\<lparr>clConn := (clConn sample_client)\<lparr>rx := w\<rparr>\<rparr>))) = 16"
    by (simp add: sample_client_def)
  from handshake_trust [OF h this] h show ?thesis by auto
qed

theorem handshake_succeeds_iff_witness:
  "\<exists>c n ps c1. receive_n n c = (Inr ps, c1) \<and> trusted (complement (hs_numbers (replicate 16 3))) ps"
proof -
  obtain w c' where h: "handshake (Some (replicate 16 3))
       (sample_client\<lparr>clConn := (clConn sample_client)\<lparr>rx := w\<rparr>\<rparr>) = (None, c')"
    using sample_handshake by blast
  let ?c = "sample_client\<lparr>clConn := (clConn sample_client)\<lparr>rx := w\<rparr>\<rparr>"
  have "wr (clConn ?c) = []" and "length (encIV (clCipher ?c)) = 16"
    by (simp_all add: sample_client_def)
  from handshake_succeeds_iff [OF this, of "replicate 16 3"] h show ?thesis by auto
qed

text \<open>C13: Two programs with one security key that connect to each other complete \<open>Connect\<close> and
  \<open>Accept\<close>: there are two byte streams such that each side, reading the other's stream, writes
  its own and ends connected, with the other's machine id, and on the way to each are then exactly
  nine acknowledgements, after which the two are in step.\<close>

theorem connect_accept:
  assumes "\<forall>p s i n. length (pbkdf2 p s i n) = n"
  shows "\<exists>wa wb. \<forall>dial listen incoming.
     dial addr (port + 1) = Some \<lparr>rx = wb, rxEnd = EOF, tx = [], wr = []\<rparr> \<longrightarrow> listen (port + 1) \<longrightarrow>
     (\<exists>a s b. Connect pbkdf2 sha512 dial addr port key ida na (Some pa) (Some ra) = (Inr a, [])
       \<and> NewServer pbkdf2 sha512 listen port key idb nb = Some s
       \<and> Accept s ((\<lparr>rx = wa, rxEnd = EOF, tx = [], wr = []\<rparr>, Some pb, Some rb) # incoming) = (Inr b, [])
       \<and> tx (clConn a) = wa \<and> tx (clConn b) = wb \<and> IsConnected a \<and> IsConnected b
       \<and> wr (clConn a) = [] \<and> wr (clConn b) = []
       \<and> clRemoteMachineID a = idb \<and> clRemoteMachineID b = ida
       \<and> (\<exists>as bs. in_transit b a as \<and> in_transit a b bs \<and> length as = 9 \<and> length bs = 9 \<and>
            (\<forall>d\<in>set (as @ bs). gType d = HandshakeAck)))"
proof -
  have "length (cKey (NewMWBCrypto pbkdf2 sha512 key)) = 32"
    using assms by (simp add: NewMWBCrypto_def Let_def)
  then show ?thesis by (rule connect_accept_aux)
qed

theorem connect_accept_witness:
  "\<exists>wa wb a s b. Connect (\<lambda>_ _ _ n. replicate n 9) (\<lambda>bs. replicate 64 1)
       (\<lambda>_ p. if p = 15101 then Some \<lparr>rx = wb, rxEnd = EOF, tx = [], wr = []\<rparr> else None)
       (gostr ''10.0.0.2'') 15100 (gostr ''secret'') 11 (gostr ''a'') (Some [1]) (Some (replicate 16 2)) = (Inr a, [])
     \<and> NewServer (\<lambda>_ _ _ n. replicate n 9) (\<lambda>bs. replicate 64 1) (\<lambda>p. p = 15101) 15100
         (gostr ''secret'') 22 (gostr ''b'') = Some s
     \<and> Accept s [(\<lparr>rx = wa, rxEnd = EOF, tx = [], wr = []\<rparr>, Some [5], Some (replicate 16 6))] = (Inr b, [])
     \<and> tx (clConn a) = wa \<and> tx (clConn b) = wb \<and> clRemoteMachineID a = 22 \<and> clRemoteMachineID b = 11"
proof -
  have l: "\<forall>p s i n. length ((\<lambda>_ _ _ n. replicate n 9) p s i n) = n" by simp
  obtain wa wb where w: "\<forall>dial listen incoming.
     dial (gostr ''10.0.0.2'') (15100 + 1) = Some \<lparr>rx = wb, rxEnd = EOF, tx = [], wr = []\<rparr> \<longrightarrow> listen (15100 + 1) \<longrightarrow>
     (\<exists>a s b. Connect (\<lambda>_ _ _ n. replicate n 9) (\<lambda>bs. replicate 64 1) dial (gostr ''10.0.0.2'') 15100
         (gostr ''secret'') 11 (gostr ''a'') (Some [1]) (Some (replicate 16 2)) = (Inr a, [])
       \<and> NewServer (\<lambda>_ _ _ n. replicate n 9) (\<lambda>bs. replicate 64 1) listen 15100 (gostr ''secret'') 22 (gostr ''b'') = Some s
       \<and> Accept s ((\<lparr>rx = wa, rxEnd = EOF, tx = [], wr = []\<rparr>, Some [5], Some (replicate 16 6)) # incoming) = (Inr b, [])
       \<and> tx (clConn a) = wa \<and> tx (clConn b) = wb \<and> IsConnected a \<and> IsConnected b
       \<and> wr (clConn a) = [] \<and> wr (clConn b) = []
       \<and> clRemoteMachineID a = 22 \<and> clRemoteMachineID b = 11
       \<and> (\<exists>as bs. in_transit b a as \<and> in_transit a b bs \<and> length as = 9 \<and> length bs = 9 \<and>
            (\<forall>d\<in>set (as @ bs). gType d = HandshakeAck)))"
    using connect_accept [OF l, of "gostr ''10.0.0.2''" 15100 "\<lambda>bs. replicate 64 1" "gostr ''secret''" 11 "gostr ''a''" "[1]" "replicate 16 2" 22 "gostr ''b''" "[5]" "replicate 16 6"] by (elim exE) (rule that, assumption)
  let ?dial = "\<lambda>_ p. if p = 15101 then Some \<lparr>rx = wb, rxEnd = EOF, tx = [], wr = []\<rparr> else None"
  have p: "?dial (gostr ''10.0.0.2'') (15100 + 1) = Some \<lparr>rx = wb, rxEnd = EOF, tx = [], wr = []\<rparr>"
    "(\<lambda>p::int. p = 15101) (15100 + 1)" by simp_all
  from w [THEN spec [of _ ?dial], THEN spec [of _ "\<lambda>p. p = 15101"], THEN spec [of _ "[]"],
      THEN mp [OF _ p(1)], THEN mp [OF _ p(2)]]
  show ?thesis by (elim exE conjE) (intro exI conjI, assumption+)
qed

text \<open>What \<open>Connect\<close> returns is a connected client with its connection left open, or an
  error; a connection that was dialled is closed on every error, and the cipher's panic needs a
  key of a wrong length.\<close>

lemma Connect_result:
  "case Connect pbkdf2 sha512 dial addr port key mid name primer rnd of
     (Inr c, closed) \<Rightarrow> IsConnected c \<and> closed = [] \<and> dial addr (port + 1) \<noteq> None
   | (Inl DialFailed, closed) \<Rightarrow> closed = [] \<and> dial addr (port + 1) = None
   | (Inl CipherPanic, closed) \<Rightarrow> length (cKey (NewMWBCrypto pbkdf2 sha512 key)) \<notin> {16, 24, 32}
   | (Inl _, closed) \<Rightarrow> length closed = 1 \<and> dial addr (port + 1) \<noteq> None"
proof -
  have hs: "IsConnected c'" if "handshake r c = (None, c')" for r c c'
    using that by (auto simp add: handshake_def IsConnected_def Let_def split: option.splits sum.splits prod.splits)
  show ?thesis
    by (auto simp add: Connect_def NewStreamCipher_def Let_def split: option.split prod.split bool.split if_splits
        dest: hs)
qed



end
