(* ===== verification/Channel.thy ===== *)
theory Channel
  imports Runs Handshake
begin

text \<open>
  Two clients of \<open>network/client.go\<close> that are connected to each other, each sending and receiving
  at any time.  The specification is a pair of queues of packets: \<open>Send\<close> puts a packet at the end of
  one, \<open>Receive\<close> takes the first of the other.  The clients refine it: whatever the order of the
  calls on the two sides, marshalling, encryption and framing never lose, change or reorder a
  packet.
\<close>

section \<open>What is on its way\<close>

text \<open>Bytes that arrive.\<close>

definition feed :: "bytes \<Rightarrow> Client \<Rightarrow> Client" where
  "feed w c = c\<lparr>clConn := (clConn c)\<lparr>rx := rx (clConn c) @ w\<rparr>\<rparr>"

lemma feed_sel [simp]:
  "clCipher (feed w c) = clCipher c" "clMagic (feed w c) = clMagic c" "rx (clConn (feed w c)) = rx (clConn c) @ w"
  "clMachineID (feed w c) = clMachineID c" "clMachineName (feed w c) = clMachineName c"
  "tx (clConn (feed w c)) = tx (clConn c)"
  by (simp_all add: feed_def)

lemma ReadFull_feed:
  "ReadFull n c = (Inr bs, c') \<Longrightarrow> ReadFull n (c\<lparr>rx := rx c @ w\<rparr>) = (Inr bs, c'\<lparr>rx := rx c' @ w\<rparr>)"
  by (auto simp add: ReadFull_def split: if_splits)

lemma readPacket_feed:
  assumes "readPacket c = (Inr d, c')"
  shows "readPacket (feed w c) = (Inr d, feed w c')"
proof -
  obtain buf conn where rf: "ReadFull 32 (clConn c) = (Inr buf, conn)"
    using assms by (auto simp add: readPacket_def split: prod.splits sum.splits)
  obtain plain sc where dc: "Decrypt buf (clCipher c) = (Some plain, sc)"
    using assms rf by (auto simp add: readPacket_def split: prod.splits option.splits)
  note f1 = ReadFull_feed [OF rf, of w]
  show ?thesis
  proof (cases "IsBigPackage (ucast (plain ! 0))")
    case False
    then show ?thesis using assms rf dc f1
      by (auto simp add: readPacket_def Let_def feed_def split: sum.splits)
  next
    case True
    then obtain buf2 conn2 where rf2: "ReadFull 32 conn = (Inr buf2, conn2)"
      using assms rf dc by (auto simp add: readPacket_def Let_def split: prod.splits sum.splits)
    note f2 = ReadFull_feed [OF rf2, of w]
    show ?thesis using True assms rf dc rf2 f1 f2
      by (auto simp add: readPacket_def Let_def feed_def split: prod.splits option.splits sum.splits)
  qed
qed

lemma receive_n_feed: "receive_n n c = (Inr ds, c') \<Longrightarrow> receive_n n (feed w c) = (Inr ds, feed w c')"
proof (induction n arbitrary: c ds)
  case (Suc n)
  then obtain d c1 es where r: "readPacket c = (Inr d, c1)" "receive_n n c1 = (Inr es, c')" "ds = d # es"
    by (auto simp add: Client_Receive_def split: prod.splits sum.splits)
  show ?case using readPacket_feed [OF r(1), of w] Suc.IH [OF r(2)] r(3) by (simp add: Client_Receive_def)
qed simp

section \<open>One direction\<close>

lemma receive_n_frame: "receive_n n c = (Inr ds, c') \<Longrightarrow> clMagic c' = clMagic c"
proof (induction n arbitrary: c ds)
  case (Suc n)
  then obtain d c1 es where r: "readPacket c = (Inr d, c1)" "receive_n n c1 = (Inr es, c')"
    by (auto simp add: Client_Receive_def split: prod.splits sum.splits)
  show ?case using Suc.IH [OF r(2)] readPacket_frame(1) [OF r(1)] by (simp add: same_peer_def)
qed simp

lemma in_transit_emits:
  assumes "in_transit a b ds" and "emits a a' es" and "\<forall>d\<in>set es. gType d < 256"
    and "tx (clConn a') = tx (clConn a) @ w"
  shows "in_transit a' (feed w b) (ds @ map wire_view es)"
proof -
  obtain b' where b': "receive_n (length ds) b = (Inr ds, b')" "rx (clConn b') = []"
      "in_step (clCipher a) (clCipher b')"
    using assms(1) by (auto simp add: in_transit_def)
  note k = receive_n_frame [OF b'(1)]
  have "\<exists>c'. receive_n (length es) (feed w b') = (Inr (map wire_view es), c')
     \<and> rx (clConn c') = [] \<and> in_step (clCipher a') (clCipher c') \<and> same_peer (feed w b') c'"
    using assms(1,3,4) b'(2,3) k by (intro emits_received [OF assms(2)]) (simp_all add: in_transit_def)
  then obtain c' where c': "receive_n (length es) (feed w b') = (Inr (map wire_view es), c')" "rx (clConn c') = []"
      "in_step (clCipher a') (clCipher c')" by auto
  have "receive_n (length ds + length es) (feed w b) = (Inr (ds @ map wire_view es), c')"
    unfolding receive_n_add using receive_n_feed [OF b'(1), of w] c'(1) by simp
  moreover have "clMagic a' = clMagic a" using emits_same [OF assms(2)] by (simp add: same_peer_def)
  ultimately show ?thesis using c' assms(1) by (simp add: in_transit_def)
qed

lemma in_transit_iv: "in_transit a b ds \<Longrightarrow> length (encIV (clCipher a)) = 16"
  unfolding in_transit_def in_step_def by blast

lemma in_transit_send:
  assumes "in_transit a b ds" and "Client_Send d a = (None, a')" and "gType d < 256"
    and "tx (clConn a') = tx (clConn a) @ w"
  shows "in_transit a' (feed w b) (ds @ [wire_view (fill_defaults a d)])"
  using in_transit_emits [OF assms(1) Send_emits [OF assms(2) in_transit_iv [OF assms(1)]] _ assms(4)] assms(3)
  by simp

lemma in_transit_next:
  assumes "in_transit a b (d # ds)"
  obtains b' where "Client_Receive b = (Inr d, b')" "in_transit a b' ds"
proof -
  obtain b2 where b2: "receive_n (length (d # ds)) b = (Inr (d # ds), b2)" "rx (clConn b2) = []"
      "in_step (clCipher a) (clCipher b2)"
    using assms unfolding in_transit_def by blast
  then obtain b' where r: "readPacket b = (Inr d, b')" "receive_n (length ds) b' = (Inr ds, b2)"
    by (auto simp add: Client_Receive_def split: prod.splits sum.splits)
  have "clMagic b' = clMagic b" using readPacket_frame(1) [OF r(1)] by (simp add: same_peer_def)
  then show ?thesis using that r b2(2,3) assms by (auto simp add: in_transit_def Client_Receive_def)
qed

lemma in_transit_none: "in_transit a b [] \<Longrightarrow> fst (Client_Receive b) = Inl (RdIO (rxEnd (clConn b)))"
  by (auto simp add: in_transit_def Client_Receive_def readPacket_def ReadFull_closed)

lemma in_transit_sender:
  "clMagic a' = clMagic a \<Longrightarrow> scKey (clCipher a') = scKey (clCipher a) \<Longrightarrow> encIV (clCipher a') = encIV (clCipher a) \<Longrightarrow>
   in_transit a' b ds = in_transit a b ds"
  by (simp add: in_transit_def in_step_def)

lemma in_transit_receiver:
  assumes "rv b' = rv b" and "in_transit a b ds"
  shows "in_transit a b' ds"
proof -
  obtain c where c: "receive_n (length ds) b = (Inr ds, c)" "rx (clConn c) = []" "in_step (clCipher a) (clCipher c)"
    using assms(2) by (auto simp add: in_transit_def)
  obtain c' where "receive_n (length ds) b' = (Inr ds, c')" "rv c' = rv c"
    using receive_n_rv [OF assms(1), of "length ds"] c(1) by (cases "receive_n (length ds) b'") auto
  then show ?thesis using c assms by (auto simp add: in_transit_def rv_def in_step_def)
qed

section \<open>Both directions\<close>

datatype side = Here | There

definition other :: "side \<Rightarrow> side" where
  "other p = (case p of Here \<Rightarrow> There | There \<Rightarrow> Here)"

lemma other_simps [simp]: "other (other p) = p" "other p \<noteq> p" "p \<noteq> other p"
  by (cases p; simp add: other_def)+

lemma side_cases: "q = p \<or> q = other p"
  by (cases p; cases q) (simp_all add: other_def)

text \<open>\<open>linked l q\<close>: on the way to \<open>p\<close> are the packets \<open>q p\<close>.\<close>

definition linked :: "(side \<Rightarrow> Client) \<Rightarrow> (side \<Rightarrow> GenericData list) \<Rightarrow> bool" where
  "linked l q \<longleftrightarrow> (\<forall>p. in_transit (l (other p)) (l p) (q p))"

lemma linkedD: "linked l q \<Longrightarrow> in_transit (l (other p)) (l p) (q p)"
  by (simp add: linked_def)

lemma linkedI:
  assumes "in_transit (l (other p)) (l p) (q p)" and "in_transit (l p) (l (other p)) (q (other p))"
  shows "linked l q"
  unfolding linked_def
proof
  fix s show "in_transit (l (other s)) (l s) (q s)" using side_cases [of s p] assms by auto
qed

text \<open>Two clients as \<open>connect_accept\<close> leaves them.\<close>

lemma linked_pair: "in_transit b a as \<Longrightarrow> in_transit a b bs \<Longrightarrow> linked (case_side a b) (case_side as bs)"
  by (rule linkedI [of _ Here]) (simp_all add: other_def)

lemma linked_emits:
  assumes "linked l q" and "emits (l p) c es" and "\<forall>d\<in>set es. gType d < 256"
    and "tx (clConn c) = tx (clConn (l p)) @ w" and "rv c = rv (l p)"
  shows "linked (l(p := c, other p := feed w (l (other p)))) (q(other p := q (other p) @ map wire_view es))"
proof -
  note t = linkedD [OF assms(1)]
  have "in_transit c (feed w (l (other p))) (q (other p) @ map wire_view es)"
    using in_transit_emits [OF _ assms(2-4)] t [of "other p"] by simp
  moreover have "in_transit (feed w (l (other p))) c (q p)"
    using in_transit_receiver [OF assms(5) t] in_transit_sender [of "feed w (l (other p))" "l (other p)"] by simp
  ultimately show ?thesis by (intro linkedI [of _ p]) simp_all
qed

lemma linked_receive:
  assumes "linked l q" and "Client_Receive (l p) = (Inr d, c)"
  obtains ds where "q p = d # ds" "linked (l(p := c)) (q(p := ds))"
proof -
  note t = linkedD [OF assms(1)]
  have "q p \<noteq> []" using in_transit_none [of "l (other p)" "l p"] t [of p] assms(2) by auto
  then obtain d' ds where q: "q p = d' # ds" by (cases "q p") auto
  obtain c' where "Client_Receive (l p) = (Inr d', c')" "in_transit (l (other p)) c' ds"
    using in_transit_next t [of p] unfolding q by metis
  then have d: "d' = d" and i: "in_transit (l (other p)) c ds" using assms(2) by simp_all
  have rp: "readPacket (l p) = (Inr d, c)" using assms(2) by (simp add: Client_Receive_def)
  have "in_transit c (l (other p)) (q (other p))"
    using t [of "other p"] readPacket_frame(1,5) [OF rp] in_transit_sender [of c "l p"] by (simp add: same_peer_def)
  with i have "linked (l(p := c)) (q(p := ds))" by (intro linkedI [of _ p]) simp_all
  with q d show ?thesis using that by simp
qed

lemma linked_empty:
  assumes "linked l q" and "Client_Receive (l p) = (Inl e, c)"
  shows "q p = [] \<and> rx (clConn (l p)) = [] \<and> e = RdIO (rxEnd (clConn (l p))) \<and> c = l p"
proof -
  note t = linkedD [OF assms(1), of p]
  have q: "q p = []"
  proof (cases "q p")
    case (Cons d ds)
    then show ?thesis using in_transit_next t assms(2) by (metis Inl_Inr_False prod.inject)
  qed simp
  then have "rx (clConn (l p)) = []" using t by (auto simp add: in_transit_def)
  then show ?thesis using q assms(2) by (auto simp add: Client_Receive_def readPacket_def ReadFull_closed)
qed

section \<open>The two clients and the two queues\<close>

datatype link_label = Sent side GenericData | Got side GenericData | Refused side GenericData

text \<open>
  What one side writes arrives at the other.  The program sends only packets whose type is a byte.
  A send that is refused because the packet has no encoding changes nothing.
\<close>

inductive link_step :: "(side \<Rightarrow> Client) \<Rightarrow> link_label \<Rightarrow> (side \<Rightarrow> Client) \<Rightarrow> bool" where
  send: "gType d < 256 \<Longrightarrow> Client_Send d (l p) = (None, c) \<Longrightarrow> tx (clConn c) = tx (clConn (l p)) @ w \<Longrightarrow>
     link_step l (Sent p d) (l(p := c, other p := feed w (l (other p))))"
| refuse: "Client_Send d (l p) = (Some (SendMarshal e), c) \<Longrightarrow> link_step l (Refused p d) (l(p := c))"
| receive: "Client_Receive (l p) = (Inr d, c) \<Longrightarrow> link_step l (Got p d) (l(p := c))"

text \<open>
  The specification: \<open>q p\<close> is what \<open>p\<close> will receive, \<open>view p\<close> how a packet of \<open>p\<close> looks to the other
  side.
\<close>

inductive fifo_step ::
  "(side \<Rightarrow> GenericData \<Rightarrow> GenericData) \<Rightarrow> (side \<Rightarrow> GenericData list) \<Rightarrow> link_label \<Rightarrow> (side \<Rightarrow> GenericData list) \<Rightarrow> bool"
  for view where
  put: "fifo_step view q (Sent p d) (q(other p := q (other p) @ [view p d]))"
| skip: "fifo_step view q (Refused p d) q"
| take: "q p = d # ds \<Longrightarrow> fifo_step view q (Got p d) (q(p := ds))"

definition views :: "(side \<Rightarrow> Client) \<Rightarrow> side \<Rightarrow> GenericData \<Rightarrow> GenericData" where
  "views l p d = wire_view (fill_defaults (l p) d)"

definition link_rel ::
  "(side \<Rightarrow> GenericData \<Rightarrow> GenericData) \<Rightarrow> (side \<Rightarrow> Client) \<Rightarrow> (side \<Rightarrow> GenericData list) \<Rightarrow> bool" where
  "link_rel view l q \<longleftrightarrow> views l = view \<and> linked l q"

lemma link_step_sim:
  assumes "link_rel view l q" and "link_step l x m"
  shows "\<exists>r. fifo_step view q x r \<and> link_rel view m r"
  using assms(2)
proof cases
  case (send d p c w)
  have lk: "linked l q" and vw: "views l = view" using assms(1) by (simp_all add: link_rel_def)
  then have "in_transit (l p) (l (other p)) (q (other p))" using linkedD [of l q "other p"] by simp
  note iv = in_transit_iv [OF this]
  note fr = Send_frame [OF send(4) iv]
  have v: "wire_view (fill_defaults (l p) d) = view p d" using vw by (auto simp add: views_def)
  have "linked m (q(other p := q (other p) @ [view p d]))"
    using linked_emits [OF lk Send_emits [OF send(4) iv] _ send(5) Send_rv [OF send(4)]] send(2,3) v by simp
  moreover have "views m s = views l s" for s
    using side_cases [of s p] fill_defaults_same [OF fr(1)] fill_defaults_same [of "l (other p)" "feed w (l (other p))"]
    unfolding send(2) by (auto simp add: views_def same_peer_def fun_eq_iff)
  ultimately have "link_rel view m (q(other p := q (other p) @ [view p d]))"
    using vw by (simp add: link_rel_def fun_eq_iff)
  then show ?thesis unfolding send(1) using fifo_step.put by blast
next
  case (refuse d p e c)
  have "c = l p" using Send_error_disconnects [OF refuse(3)] by auto
  then have "m = l" using refuse(2) by simp
  then show ?thesis unfolding refuse(1) using assms(1) fifo_step.skip by blast
next
  case (receive p d c)
  have lk: "linked l q" using assms(1) by (simp add: link_rel_def)
  obtain ds where q: "q p = d # ds" "linked m (q(p := ds))"
    using linked_receive [OF lk receive(3)] unfolding receive(2) by blast
  have "readPacket (l p) = (Inr d, c)" using receive(3) by (simp add: Client_Receive_def)
  note fr = readPacket_frame(1) [OF this]
  have "views m s = views l s" for s
    using fill_defaults_same [OF fr] unfolding receive(2) by (auto simp add: views_def fun_eq_iff)
  then have "link_rel view m (q(p := ds))" using assms(1) q(2) by (simp add: link_rel_def fun_eq_iff)
  then show ?thesis unfolding receive(1) using fifo_step.take q(1) by blast
qed

interpretation link: simulation link_step "fifo_step view" "link_rel view" for view
  by unfold_locales (rule link_step_sim)

section \<open>What a run of the queues says\<close>

definition sent_by :: "side \<Rightarrow> link_label list \<Rightarrow> GenericData list" where
  "sent_by p ls = concat (map (\<lambda>x. case x of Sent q d \<Rightarrow> if q = p then [d] else [] | _ \<Rightarrow> []) ls)"

definition got_by :: "side \<Rightarrow> link_label list \<Rightarrow> GenericData list" where
  "got_by p ls = concat (map (\<lambda>x. case x of Got q d \<Rightarrow> if q = p then [d] else [] | _ \<Rightarrow> []) ls)"

lemma fifo_run:
  "lrun (fifo_step view) q ls r \<Longrightarrow> q p @ map (view (other p)) (sent_by (other p) ls) = got_by p ls @ r p"
proof (induction rule: lrun.induct)
  case (snoc q ls r x u)
  from snoc.hyps(2) show ?case
    using snoc.IH by cases (auto simp add: sent_by_def got_by_def)
qed (simp add: sent_by_def got_by_def)

text \<open>C6: Two connected clients with nothing, or some packets \<open>q\<close>, on the way refine two queues: however
  their sends and receives interleave, each side has received, after the packets that were on the
  way, what the other sent, in order and as its \<open>wire_view\<close>, up to a rest; the next receive
  returns the first packet of that rest, and is without a packet only if nothing is left.\<close>

theorem link_refines:
  assumes "linked l0 q" and "lrun link_step l0 ls l"
  shows "\<exists>r. lrun (fifo_step (views l0)) q ls r \<and>
    (\<forall>p. q p @ map (views l0 (other p)) (sent_by (other p) ls) = got_by p ls @ r p \<and>
       (case r p of
          [] \<Rightarrow> fst (Client_Receive (l p)) = Inl (RdIO (rxEnd (clConn (l p))))
        | d # ds \<Rightarrow> fst (Client_Receive (l p)) = Inr d))"
proof -
  have "link_rel (views l0) l0 q" using assms(1) by (simp add: link_rel_def)
  from link.run_sim [OF assms(2) this] obtain r
    where r: "lrun (fifo_step (views l0)) q ls r" "link_rel (views l0) l r" by blast
  have t: "in_transit (l (other p)) (l p) (r p)" for p using r(2) linkedD by (simp add: link_rel_def)
  have "case r p of
          [] \<Rightarrow> fst (Client_Receive (l p)) = Inl (RdIO (rxEnd (clConn (l p))))
        | d # ds \<Rightarrow> fst (Client_Receive (l p)) = Inr d" for p
  proof (cases "r p")
    case Nil
    then show ?thesis using t [of p] in_transit_none by simp
  next
    case (Cons d ds)
    obtain c where "Client_Receive (l p) = (Inr d, c)"
      using in_transit_next t [of p] unfolding Cons by metis
    then show ?thesis using Cons by simp
  qed
  then show ?thesis using r(1) fifo_run [OF r(1)] by blast
qed

lemma sample_linked: "linked (\<lambda>_. sample_client) (\<lambda>_. [])"
  by (simp add: linked_def in_transit_def in_step_def sample_client_def)

theorem link_refines_witness:
  "\<exists>l. lrun link_step (\<lambda>_. sample_client) [Sent Here sample_heartbeat] l \<and>
    fst (Client_Receive (l There)) = Inr (wire_view (fill_defaults sample_client sample_heartbeat))"
proof -
  let ?l = "\<lambda>_. sample_client"
  obtain p where p: "Marshal (fill_defaults sample_client sample_heartbeat) (clMagic sample_client) = Inr p"
    by (simp add: fill_defaults_def sample_client_def sample_heartbeat_def Marshal_def Let_def marshal_payload_def)
  have wr: "wr (clConn sample_client) = []" by (simp add: sample_client_def)
  obtain x sc where s: "Client_Send sample_heartbeat sample_client =
      (None, sample_client\<lparr>clCipher := sc, clConn := (clConn sample_client)\<lparr>tx := tx (clConn sample_client) @ x\<rparr>\<rparr>)"
    using Send_plain [OF wr p] by blast
  have "gType sample_heartbeat < 256" by (simp add: sample_heartbeat_def)
  from link_step.send [OF this, of ?l Here, OF s, of x]
  obtain l where l: "lrun link_step ?l [Sent Here sample_heartbeat] l"
    using lrun_one [of link_step ?l] by auto
  obtain r where "(\<lambda>_. []) There @ map (views ?l (other There)) (sent_by (other There) [Sent Here sample_heartbeat])
        = got_by There [Sent Here sample_heartbeat] @ r There"
      "case r There of
          [] \<Rightarrow> fst (Client_Receive (l There)) = Inl (RdIO (rxEnd (clConn (l There))))
        | d # ds \<Rightarrow> fst (Client_Receive (l There)) = Inr d"
    using link_refines [OF sample_linked l] by blast
  then have "fst (Client_Receive (l There)) = Inr (wire_view (fill_defaults sample_client sample_heartbeat))"
    by (auto simp add: sent_by_def got_by_def other_def views_def split: list.splits)
  with l show ?thesis by blast
qed

end
