(* ===== verification/Config.thy ===== *)
theory Config
  imports GoString
begin

text \<open>
  \<open>src/config/config.go\<close>: the configuration, its sources in their order (defaults, the first
  file that parses, the questions of the first run, the command line, the host name) and its
  validation.  The file system, \<open>encoding/json\<close>, \<open>fmt.Sscanf\<close>, \<open>strings.TrimSpace\<close> and the
  random source are arguments; standard input is the list of bytes still to be read.  The
  questions are asked in loops that may not end, so they are partial functions.
\<close>

record Config =
  SecurityKey :: gostring
  RemoteAddress :: gostring
  ListenPort :: u64
  MachineID :: u32
  RemoteMachineID :: u32
  MachineName :: gostring
  ScreenWidth :: u64
  ScreenHeight :: u64
  MouseSensitivity :: u64
  MouseDevice :: gostring
  KeyboardDevice :: gostring
  Mode :: gostring
  Debug :: bool
  MouseJiggler :: bool
  ListDevices :: bool
  ConfigFile :: gostring
  ShowVersion :: bool
  Demo :: bool

section \<open>Files\<close>

text \<open>
  \<open>exe\<close> is \<open>os.Executable\<close>, \<open>beside\<close> the path of \<open>config.json\<close> in the directory of a file.
\<close>

definition defaultConfigPaths :: "(gostring \<Rightarrow> gostring) \<Rightarrow> gostring option \<Rightarrow> gostring list" where
  "defaultConfigPaths beside exe =
     (case exe of None \<Rightarrow> [] | Some e \<Rightarrow> [beside e]) @ [gostr ''config.json'', gostr ''../config.json'']"

text \<open>
  The loop over the paths.  \<open>unmarshal\<close> is \<open>json.Unmarshal\<close> into the configuration, which
  changes it also when it fails in the middle.
\<close>

fun load_paths ::
  "(gostring \<Rightarrow> bytes option) \<Rightarrow> (bytes \<Rightarrow> Config \<Rightarrow> bool \<times> Config) \<Rightarrow> gostring list \<Rightarrow> Config \<Rightarrow> bool \<times> Config" where
  "load_paths readFile unmarshal [] c = (False, c)"
| "load_paths readFile unmarshal (path # paths) c =
    (case readFile path of
       None \<Rightarrow> load_paths readFile unmarshal paths c
     | Some data \<Rightarrow>
         (case unmarshal data c of
            (False, c) \<Rightarrow> load_paths readFile unmarshal paths c
          | (True, c) \<Rightarrow> (True, c)))"

definition loadFromJSON ::
  "(gostring \<Rightarrow> gostring) \<Rightarrow> gostring option \<Rightarrow> (gostring \<Rightarrow> bytes option) \<Rightarrow> (bytes \<Rightarrow> Config \<Rightarrow> bool \<times> Config)
   \<Rightarrow> Config \<Rightarrow> bool \<times> Config" where
  "loadFromJSON beside exe readFile unmarshal c =
    (let searchPaths = (if ConfigFile c \<noteq> [] then [ConfigFile c] else defaultConfigPaths beside exe)
     in load_paths readFile unmarshal searchPaths c)"

record SlimConfig =
  slKey :: gostring
  slRemote :: gostring
  slMouseSensitivity :: u64
  slMouseJiggler :: bool
  slMode :: gostring
  slID :: u32
  slName :: gostring
  slDebug :: bool

definition slim :: "Config \<Rightarrow> SlimConfig" where
  "slim c =
     \<lparr>slKey = SecurityKey c, slRemote = RemoteAddress c, slMouseSensitivity = MouseSensitivity c,
      slMouseJiggler = MouseJiggler c, slMode = Mode c, slID = MachineID c, slName = MachineName c,
      slDebug = False\<rparr>"

datatype save_error = SaveMarshal | SaveWrite

text \<open>The result is the error, or the path and the data of the file that was written.\<close>

definition saveToJSON ::
  "(gostring \<Rightarrow> gostring) \<Rightarrow> gostring option \<Rightarrow> (SlimConfig \<Rightarrow> bytes option) \<Rightarrow> (gostring \<Rightarrow> bytes \<Rightarrow> bool)
   \<Rightarrow> Config \<Rightarrow> save_error + (gostring \<times> bytes)" where
  "saveToJSON beside exe marshalIndent writeFile c =
    (let savePath = (case exe of None \<Rightarrow> gostr ''config.json'' | Some e \<Rightarrow> beside e)
     in case marshalIndent (slim c) of
          None \<Rightarrow> Inl SaveMarshal
        | Some data \<Rightarrow> if \<not> writeFile savePath data then Inl SaveWrite else Inr (savePath, data))"

section \<open>Random values\<close>

definition key_charset :: gostring where
  "key_charset = gostr ''abcdefghijklmnopqrstuvwxyzABCDEFGHIJKLMNOPQRSTUVWXYZ0123456789''"

text \<open>\<open>draw i\<close> is the \<open>i\<close>-th result of \<open>rand.Int\<close>, below the length of the character set.\<close>

definition randomKey :: "(nat \<Rightarrow> nat) \<Rightarrow> gostring" where
  "randomKey draw = map (\<lambda>i. key_charset ! draw i) [0..<16]"

definition randomID :: "bytes \<Rightarrow> u32" where
  "randomID buf =
    (let n = ucast (buf ! 3) OR push_bit 8 (ucast (buf ! 2)) OR push_bit 16 (ucast (buf ! 1))
              OR push_bit 24 (ucast (buf ! 0)) :: u32
     in if n = 0 then 1 else n)"

section \<open>Questions\<close>

text \<open>\<open>reader.ReadString\<close> up to a newline: the line and the rest of the input.\<close>

definition read_line :: "bytes \<Rightarrow> bytes \<times> bytes" where
  "read_line input =
    (let line = takeWhile (\<lambda>b. b \<noteq> 10) input in (take (Suc (length line)) input, drop (Suc (length line)) input))"

definition prompt :: "(gostring \<Rightarrow> gostring) \<Rightarrow> bytes \<Rightarrow> gostring \<times> bytes" where
  "prompt trim input = (let (line, rest) = read_line input in (trim line, rest))"

definition promptDefault :: "(gostring \<Rightarrow> gostring) \<Rightarrow> gostring \<Rightarrow> bytes \<Rightarrow> gostring \<times> bytes" where
  "promptDefault trim defaultVal input =
    (let (val, rest) = prompt trim input in (if val = [] then defaultVal else val, rest))"

text \<open>\<open>scan\<close> is \<open>fmt.Sscanf\<close> of a decimal number into 32 bits; \<open>fresh\<close> the random identifier.\<close>

partial_function (option) ask_id ::
  "(gostring \<Rightarrow> gostring) \<Rightarrow> (gostring \<Rightarrow> u32 option) \<Rightarrow> u32 \<Rightarrow> bytes \<Rightarrow> (u32 \<times> bytes) option" where
  "ask_id trim scan fresh input =
    (case prompt trim input of (raw, input) \<Rightarrow>
       if raw = [] then Some (fresh, input)
       else case scan raw of
              None \<Rightarrow> ask_id trim scan fresh input
            | Some n \<Rightarrow> if n = 0 then ask_id trim scan fresh input else Some (n, input))"

partial_function (option) ask_remote :: "(gostring \<Rightarrow> gostring) \<Rightarrow> bytes \<Rightarrow> (gostring \<times> bytes) option" where
  "ask_remote trim input =
    (case prompt trim input of (remote, input) \<Rightarrow>
       if remote = [] then ask_remote trim input else Some (remote, input))"

definition validModes :: "gostring list" where
  "validModes = [gostr ''client'', gostr ''server'', gostr ''tui'']"

partial_function (option) ask_mode :: "(gostring \<Rightarrow> gostring) \<Rightarrow> bytes \<Rightarrow> (gostring \<times> bytes) option" where
  "ask_mode trim input =
    (case promptDefault trim (gostr ''client'') input of (mode, input) \<Rightarrow>
       if mode \<notin> set validModes then ask_mode trim input else Some (mode, input))"

text \<open>The answers; saving the file does not change the configuration.\<close>

definition runOnboarding ::
  "(gostring \<Rightarrow> gostring) \<Rightarrow> (gostring \<Rightarrow> u32 option) \<Rightarrow> (nat \<Rightarrow> nat) \<Rightarrow> bytes \<Rightarrow> gostring \<Rightarrow> bytes \<Rightarrow> Config
   \<Rightarrow> Config option" where
  "runOnboarding trim scan draw idBuf hostname input c =
    (let (key, input) = prompt trim input;
         c = c\<lparr>SecurityKey := (if key = [] then randomKey draw else key)\<rparr>
     in case ask_id trim scan (randomID idBuf) input of
          None \<Rightarrow> None
        | Some (machineID, input) \<Rightarrow>
            (case ask_remote trim input of
               None \<Rightarrow> None
             | Some (remote, input) \<Rightarrow>
                 (case ask_mode trim input of
                    None \<Rightarrow> None
                  | Some (mode, input) \<Rightarrow>
                      Some (c\<lparr>MachineID := machineID, RemoteAddress := remote, Mode := mode,
                              MachineName := fst (promptDefault trim hostname input)\<rparr>))))"

section \<open>Command line\<close>

text \<open>The flags that were set, each with its value; \<open>flag.Uint\<close> values have 64 bits.\<close>

datatype cli_flag =
    FlagKey gostring | FlagRemote gostring | FlagPort u64 | FlagID u64 | FlagRemoteID u64
  | FlagWidth u64 | FlagHeight u64 | FlagMouse gostring | FlagKeyboard gostring | FlagMode gostring
  | FlagDebug bool | FlagMouseSens u64 | FlagJiggler bool

fun apply_flag :: "cli_flag \<Rightarrow> Config \<Rightarrow> Config" where
  "apply_flag (FlagKey v) c = c\<lparr>SecurityKey := v\<rparr>"
| "apply_flag (FlagRemote v) c = c\<lparr>RemoteAddress := v\<rparr>"
| "apply_flag (FlagPort v) c = c\<lparr>ListenPort := v\<rparr>"
| "apply_flag (FlagID v) c = c\<lparr>MachineID := ucast v\<rparr>"
| "apply_flag (FlagRemoteID v) c = c\<lparr>RemoteMachineID := ucast v\<rparr>"
| "apply_flag (FlagWidth v) c = c\<lparr>ScreenWidth := v\<rparr>"
| "apply_flag (FlagHeight v) c = c\<lparr>ScreenHeight := v\<rparr>"
| "apply_flag (FlagMouse v) c = c\<lparr>MouseDevice := v\<rparr>"
| "apply_flag (FlagKeyboard v) c = c\<lparr>KeyboardDevice := v\<rparr>"
| "apply_flag (FlagMode v) c = c\<lparr>Mode := v\<rparr>"
| "apply_flag (FlagDebug v) c = c\<lparr>Debug := v\<rparr>"
| "apply_flag (FlagMouseSens v) c = c\<lparr>MouseSensitivity := v\<rparr>"
| "apply_flag (FlagJiggler v) c = c\<lparr>MouseJiggler := v\<rparr>"

definition default_config :: Config where
  "default_config =
     \<lparr>SecurityKey = [], RemoteAddress = [], ListenPort = 15100, MachineID = 1, RemoteMachineID = 0,
      MachineName = [], ScreenWidth = 1920, ScreenHeight = 1080, MouseSensitivity = 24,
      MouseDevice = [], KeyboardDevice = [], Mode = gostr ''client'', Debug = False,
      MouseJiggler = False, ListDevices = False, ConfigFile = [], ShowVersion = False, Demo = False\<rparr>"

text \<open>
  \<open>listDevices\<close>, \<open>showVersion\<close>, \<open>demo\<close> and \<open>configFile\<close> are the values of the flags of these
  names; \<open>onboarding\<close> is \<open>runOnboarding\<close> on what the terminal gives.
\<close>

definition Parse ::
  "bool \<Rightarrow> bool \<Rightarrow> bool \<Rightarrow> gostring \<Rightarrow> (Config \<Rightarrow> bool \<times> Config) \<Rightarrow> (Config \<Rightarrow> Config option)
   \<Rightarrow> cli_flag list \<Rightarrow> gostring option \<Rightarrow> Config option" where
  "Parse listDevices showVersion demo configFile load onboarding flags hostname =
    (let c = default_config\<lparr>ListDevices := listDevices, ShowVersion := showVersion, Demo := demo,
                            ConfigFile := configFile\<rparr>
     in case (case load c of (True, c) \<Rightarrow> Some c | (False, c) \<Rightarrow> onboarding c) of
          None \<Rightarrow> None
        | Some c \<Rightarrow>
            (let c = fold apply_flag flags c
             in Some (if MachineName c = []
                      then (case hostname of None \<Rightarrow> c | Some h \<Rightarrow> c\<lparr>MachineName := h\<rparr>)
                      else c)))"

datatype config_error = KeyRequired | RemoteRequired | IDRequired | SensitivityRequired

definition Validate :: "Config \<Rightarrow> config_error option" where
  "Validate c =
    (if ListDevices c \<or> Demo c then None
     else if SecurityKey c = [] then Some KeyRequired
     else if (Mode c = gostr ''client'' \<or> Mode c = gostr ''tui'') \<and> RemoteAddress c = [] then Some RemoteRequired
     else if MachineID c = 0 then Some IDRequired
     else if sint (MouseSensitivity c) \<le> 0 then Some SensitivityRequired
     else None)"


section \<open>The usage text\<close>

text \<open>\<open>defaults\<close> is what \<open>flag.PrintDefaults\<close> writes after it.\<close>

definition usage_lines :: "gostring list" where
  "usage_lines =
    [gostr ''Mouse Without Borders - Linux POC'',
     gostr ''Usage:'',
     gostr ''  open-mwb [options]'',
     gostr '''',
     gostr ''Config is loaded from config.json (auto-detected next to binary, in cwd,'',
     gostr ''or in parent dir). CLI flags override config.json values.'',
     gostr ''If no config.json is found, an interactive setup wizard will run.'',
     gostr '''',
     gostr ''config.json example:'',
     gostr ''  {'',
     gostr ''    \"key\": \"YourSecurityKey\",'',
     gostr ''    \"remote\": \"192.168.1.100\",'',
     gostr ''    \"mouse_sensitivity\": 24,'',
     gostr ''    \"mouse_jiggler\": false,'',
     gostr ''    \"mode\": \"client\",'',
     gostr ''    \"id\": 1001'',
     gostr ''  }'',
     gostr '''',
     gostr ''Options:'']"

definition PrintUsage :: "gostring \<Rightarrow> gostring" where
  "PrintUsage defaults = concat (map (\<lambda>l. l @ [10]) usage_lines) @ defaults"

section \<open>When the questions end\<close>

lemma read_line_shorter: "input \<noteq> [] \<Longrightarrow> length (snd (read_line input)) < length input"
  by (simp add: read_line_def Let_def)

lemma read_line_Nil [simp]: "read_line [] = ([], [])"
  by (simp add: read_line_def)

function input_lines :: "bytes \<Rightarrow> gostring list" where
  "input_lines input =
    (if input = [] then [] else fst (read_line input) # input_lines (snd (read_line input)))"
  by pat_completeness auto
termination by (relation "measure length") (auto intro: read_line_shorter)

declare input_lines.simps [simp del]

lemma input_lines_Nil [simp]: "input_lines [] = []"
  by (simp add: input_lines.simps)

lemma input_lines_Cons:
  "input \<noteq> [] \<Longrightarrow> input_lines input = fst (read_line input) # input_lines (snd (read_line input))"
  by (simp add: input_lines.simps [of input])

lemma prompt_eq: "prompt trim input = (trim (fst (read_line input)), snd (read_line input))"
  by (simp add: prompt_def split_beta)

text \<open>Whoever stops asking has an answer; whoever asks again has read a line.\<close>

lemma ask_remote_sound:
  "ask_remote trim input = Some y \<Longrightarrow>
   fst y \<noteq> [] \<and> (input = [] \<longrightarrow> fst y = trim []) \<and> (trim [] = [] \<longrightarrow> fst y \<in> trim ` set (input_lines input))"
proof (rule ask_remote.raw_induct [where P = "\<lambda>trim input y. fst y \<noteq> [] \<and> (input = [] \<longrightarrow> fst y = trim []) \<and>
      (trim [] = [] \<longrightarrow> fst y \<in> trim ` set (input_lines input))"])
  fix ask :: "(gostring \<Rightarrow> gostring) \<Rightarrow> bytes \<Rightarrow> (gostring \<times> bytes) option" and trim input y
  assume ih: "\<And>trim input y. ask trim input = Some y \<Longrightarrow> fst y \<noteq> [] \<and> (input = [] \<longrightarrow> fst y = trim []) \<and>
      (trim [] = [] \<longrightarrow> fst y \<in> trim ` set (input_lines input))"
    and "(case prompt trim input of (remote, input) \<Rightarrow>
            if remote = [] then ask trim input else Some (remote, input)) = Some y"
  then show "fst y \<noteq> [] \<and> (input = [] \<longrightarrow> fst y = trim []) \<and>
      (trim [] = [] \<longrightarrow> fst y \<in> trim ` set (input_lines input))"
    using ih [of trim "snd (read_line input)" y] input_lines_Cons [of input]
    by (cases "input = []") (auto simp add: prompt_eq split: if_splits)
qed

lemma ask_remote_returns:
  "\<exists>l\<in>set (input_lines input). trim l \<noteq> [] \<Longrightarrow> \<exists>y. ask_remote trim input = Some y"
proof (induction input rule: input_lines.induct)
  case (1 input)
  then have ne: "input \<noteq> []" by auto
  show ?case
  proof (cases "trim (fst (read_line input)) = []")
    case True
    with 1(2) ne have "\<exists>l\<in>set (input_lines (snd (read_line input))). trim l \<noteq> []"
      by (auto simp add: input_lines_Cons)
    with 1(1) [OF ne] True show ?thesis by (simp add: ask_remote.simps [of trim input] prompt_eq)
  qed (simp add: ask_remote.simps [of trim input] prompt_eq)
qed

lemma ask_remote_iff:
  assumes "trim [] = []"
  shows "ask_remote trim input = None \<longleftrightarrow> (\<forall>l\<in>set (input_lines input). trim l = [])"
  using ask_remote_sound [of trim input] ask_remote_returns [of input trim] assms
  by (cases "ask_remote trim input") auto

lemma ask_mode_sound: "ask_mode trim input = Some y \<Longrightarrow> fst y \<in> set validModes"
proof (rule ask_mode.raw_induct [where P = "\<lambda>trim input y. fst y \<in> set validModes"])
  fix ask :: "(gostring \<Rightarrow> gostring) \<Rightarrow> bytes \<Rightarrow> (gostring \<times> bytes) option" and trim input y
  assume ih: "\<And>trim input y. ask trim input = Some y \<Longrightarrow> fst y \<in> set validModes"
    and "(case promptDefault trim (gostr ''client'') input of (mode, input) \<Rightarrow>
            if mode \<notin> set validModes then ask trim input else Some (mode, input)) = Some y"
  then show "fst y \<in> set validModes" using ih
    by (auto simp add: split_beta split: if_splits)
qed

lemma ask_mode_returns:
  assumes "trim [] = []"
  shows "\<exists>y. ask_mode trim input = Some y"
proof (induction input rule: input_lines.induct)
  case (1 input)
  show ?case
  proof (cases "input = []")
    case True
    then show ?thesis using assms
      by (subst ask_mode.simps) (simp add: promptDefault_def prompt_eq validModes_def)
  next
    case False
    from 1 [OF False] show ?thesis
      by (subst ask_mode.simps) (simp add: promptDefault_def prompt_eq split_beta)
  qed
qed

lemma ask_id_sound:
  "ask_id trim scan fresh input = Some y \<Longrightarrow> fst y = fresh \<or> fst y \<noteq> 0"
proof (rule ask_id.raw_induct [where P = "\<lambda>trim scan fresh input y. fst y = fresh \<or> fst y \<noteq> 0"])
  fix ask :: "(gostring \<Rightarrow> gostring) \<Rightarrow> (gostring \<Rightarrow> u32 option) \<Rightarrow> u32 \<Rightarrow> bytes \<Rightarrow> (u32 \<times> bytes) option"
    and trim scan fresh input y
  assume ih: "\<And>trim scan fresh input y. ask trim scan fresh input = Some y \<Longrightarrow> fst y = fresh \<or> fst y \<noteq> 0"
    and "(case prompt trim input of (raw, input) \<Rightarrow>
       if raw = [] then Some (fresh, input)
       else case scan raw of
              None \<Rightarrow> ask trim scan fresh input
            | Some n \<Rightarrow> if n = 0 then ask trim scan fresh input else Some (n, input)) = Some y"
  then show "fst y = fresh \<or> fst y \<noteq> 0" using ih by (auto split: if_splits prod.splits option.splits)
qed

lemma ask_id_returns:
  assumes "trim [] = []"
  shows "\<exists>y. ask_id trim scan fresh input = Some y"
proof (induction input rule: input_lines.induct)
  case (1 input)
  show ?case
  proof (cases "input = []")
    case True
    then show ?thesis using assms by (subst ask_id.simps) (simp add: prompt_eq)
  next
    case False
    from 1 [OF False] show ?thesis
      by (subst ask_id.simps) (simp add: prompt_eq split: option.split)
  qed
qed

lemma randomID_nonzero: "randomID buf \<noteq> 0"
  by (simp add: randomID_def Let_def)

lemma randomKey_nonempty: "randomKey draw \<noteq> []"
  by (simp add: randomKey_def)

section \<open>Properties\<close>

text \<open>C38: What the questions of the first run produce is complete: whatever is typed, if the
  questions end then the key is not empty, the mode is one of the three, the other machine's
  address and the machine id are set, and the validation accepts the configuration.\<close>

theorem onboarding_valid:
  assumes "runOnboarding trim scan draw idBuf hostname input c = Some c'" and "0 < sint (MouseSensitivity c)"
  shows "Validate c' = None \<and> SecurityKey c' \<noteq> [] \<and> RemoteAddress c' \<noteq> [] \<and> MachineID c' \<noteq> 0 \<and>
    Mode c' \<in> set validModes"
proof -
  from assms(1) obtain n i2 r i3 m i4 where
    "ask_id trim scan (randomID idBuf) (snd (prompt trim input)) = Some (n, i2)"
    "ask_remote trim i2 = Some (r, i3)" "ask_mode trim i3 = Some (m, i4)"
    and c': "c' = c\<lparr>SecurityKey := (if fst (prompt trim input) = [] then randomKey draw else fst (prompt trim input)),
                MachineID := n, RemoteAddress := r, Mode := m,
                MachineName := fst (promptDefault trim hostname i4)\<rparr>"
    by (auto simp add: runOnboarding_def split_beta Let_def split: option.splits)
  from ask_id_sound [OF this(1)] ask_remote_sound [OF this(2)] ask_mode_sound [OF this(3)]
  have "n \<noteq> 0" "r \<noteq> []" "m \<in> set validModes" using randomID_nonzero by auto
  then show ?thesis using assms(2) randomKey_nonempty by (simp add: c' Validate_def)
qed

text \<open>C39: The questions end exactly when some line after the one with the machine id is not
  blank; when the input ends before the address of the other machine was typed, the question for
  it is repeated for ever.\<close>

theorem onboarding_returns:
  assumes "trim [] = []"
  shows "\<exists>n rest. ask_id trim scan (randomID idBuf) (snd (prompt trim input)) = Some (n, rest) \<and>
    ((\<exists>c'. runOnboarding trim scan draw idBuf hostname input c = Some c') \<longleftrightarrow>
     \<not> (\<forall>l\<in>set (input_lines rest). trim l = []))"
proof -
  obtain n rest where i: "ask_id trim scan (randomID idBuf) (snd (prompt trim input)) = Some (n, rest)"
    using ask_id_returns [of trim scan _ "snd (prompt trim input)", OF assms] by fastforce
  have "(\<exists>c'. runOnboarding trim scan draw idBuf hostname input c = Some c') \<longleftrightarrow> ask_remote trim rest \<noteq> None"
    using i ask_mode_returns [of trim, OF assms]
    by (fastforce simp add: runOnboarding_def split_beta Let_def split: option.splits)
  with i show ?thesis by (simp add: ask_remote_iff [where trim = trim, OF assms])
qed


definition chomp :: "gostring \<Rightarrow> gostring" where
  "chomp s = filter (\<lambda>b. b \<noteq> 10) s"

theorem onboarding_valid_witness:
  "\<exists>c'. runOnboarding chomp (\<lambda>s. Some 7) (\<lambda>i. i) [0, 0, 0, 0] (gostr ''tux'') [107, 10, 55, 10, 104, 10, 10, 10]
      default_config = Some c' \<and> Validate c' = None"
proof -
  let ?run = "runOnboarding chomp (\<lambda>s. Some 7) (\<lambda>i. i) [0, 0, 0, 0] (gostr ''tux'') [107, 10, 55, 10, 104, 10, 10, 10] default_config"
  have "\<exists>c'. ?run = Some c'"
    by (simp add: runOnboarding_def ask_id.simps ask_remote.simps ask_mode.simps prompt_def promptDefault_def
        read_line_def chomp_def validModes_def)
  then obtain c' where c': "?run = Some c'" by blast
  have "0 < sint (MouseSensitivity default_config)" by (simp add: default_config_def)
  from onboarding_valid [OF c' this] c' show ?thesis by blast
qed

theorem onboarding_returns_witness:
  "\<forall>c'. runOnboarding chomp (\<lambda>s. None) (\<lambda>i. i) [0, 0, 0, 1] (gostr ''tux'') [107, 10, 10] default_config \<noteq> Some c'"
proof -
  have "ask_id chomp (\<lambda>s. None) (randomID [0, 0, 0, 1]) (snd (prompt chomp [107, 10, 10])) = Some (1, [])"
    by (simp add: ask_id.simps prompt_def read_line_def chomp_def randomID_def)
  then show ?thesis
    using onboarding_returns [of chomp "\<lambda>s. None" "[0, 0, 0, 1]" "[107, 10, 10]" "\<lambda>i. i" "gostr ''tux''" default_config]
    by (simp add: chomp_def)
qed

end
