(* ===== verification/Device.thy ===== *)
theory Device
  imports Prelude "HOL-Library.Signed_Division"
begin

text \<open>
  Input events as the kernel exchanges them: the \<open>InputEvent\<close> of \<open>input/evdev.go\<close> with
  \<open>parseEvent\<close>, and \<open>writeEvent\<close> of \<open>input/uinput.go\<close>.  The main lemmas: what
  \<open>writeEvent\<close> writes is what \<open>parseEvent\<close> reads, one event after the other.
\<close>

section \<open>Integers\<close>

text \<open>Go's division truncates, on words at their width.\<close>

definition godiv :: "'a::len word \<Rightarrow> 'a word \<Rightarrow> 'a word" where
  "godiv a b = word_of_int (sint a sdiv sint b)"

section \<open>Events\<close>

record InputEvent =
  TimeSec :: u64
  TimeUsec :: u64
  evType :: u16
  evCode :: u16
  evValue :: i32

abbreviation (input) inputEventSize :: nat where "inputEventSize \<equiv> 24"

abbreviation (input) EV_SYN :: u16 where "EV_SYN \<equiv> 0"
abbreviation (input) EV_KEY :: u16 where "EV_KEY \<equiv> 1"
abbreviation (input) EV_REL :: u16 where "EV_REL \<equiv> 2"
abbreviation (input) EV_ABS :: u16 where "EV_ABS \<equiv> 3"
abbreviation (input) REL_X :: u16 where "REL_X \<equiv> 0"
abbreviation (input) REL_Y :: u16 where "REL_Y \<equiv> 1"
abbreviation (input) REL_WHEEL :: u16 where "REL_WHEEL \<equiv> 8"
abbreviation (input) REL_HWHEEL :: u16 where "REL_HWHEEL \<equiv> 6"
abbreviation (input) ABS_PRESSURE :: u16 where "ABS_PRESSURE \<equiv> 0x18"
abbreviation (input) BTN_MOUSE :: u16 where "BTN_MOUSE \<equiv> 0x110"
abbreviation (input) ABS_X :: u16 where "ABS_X \<equiv> 0"
abbreviation (input) ABS_Y :: u16 where "ABS_Y \<equiv> 1"
abbreviation (input) BTN_LEFT :: u16 where "BTN_LEFT \<equiv> 0x110"
abbreviation (input) BTN_RIGHT :: u16 where "BTN_RIGHT \<equiv> 0x111"
abbreviation (input) BTN_MIDDLE :: u16 where "BTN_MIDDLE \<equiv> 0x112"
abbreviation (input) BTN_SIDE :: u16 where "BTN_SIDE \<equiv> 0x113"
abbreviation (input) BTN_EXTRA :: u16 where "BTN_EXTRA \<equiv> 0x114"
abbreviation (input) SYN_REPORT :: u16 where "SYN_REPORT \<equiv> 0"

definition parseEvent :: "bytes \<Rightarrow> InputEvent" where
  "parseEvent buf =
     \<lparr>TimeSec = unle (gosub 0 8 buf), TimeUsec = unle (gosub 8 16 buf),
      evType = unle (gosub 16 18 buf), evCode = unle (gosub 18 20 buf),
      evValue = unle (gosub 20 24 buf)\<rparr>"

text \<open>The buffer that \<open>writeEvent\<close> writes to the file.\<close>

definition event_buf :: "u16 \<Rightarrow> u16 \<Rightarrow> i32 \<Rightarrow> bytes" where
  "event_buf ty code value =
    (let buf = replicate inputEventSize 0;
         buf = copy_into 0 8 (le 8 (0 :: u64)) buf;
         buf = copy_into 8 16 (le 8 (0 :: u64)) buf;
         buf = copy_into 16 18 (le 2 ty) buf;
         buf = copy_into 18 20 (le 2 code) buf
     in copy_into 20 24 (le 4 value) buf)"

definition event :: "u16 \<Rightarrow> u16 \<Rightarrow> i32 \<Rightarrow> InputEvent" where
  "event ty code value = \<lparr>TimeSec = 0, TimeUsec = 0, evType = ty, evCode = code, evValue = value\<rparr>"

lemma event_sel [simp]:
  "evType (event t c v) = t" "evCode (event t c v) = c" "evValue (event t c v) = v"
  by (simp_all add: event_def)

lemma length_event_buf [simp]: "length (event_buf t c v) = 24"
  by (simp add: event_buf_def Let_def)

lemma parse_event_buf [simp]: "parseEvent (event_buf t c v) = event t c v"
  by (simp add: parseEvent_def event_buf_def Let_def gosub_copy_same gosub_copy_other event_def unle_le_exact)

section \<open>Streams of events\<close>

text \<open>The events in what was written to a device, in chunks of 24 bytes.\<close>

fun parse_all :: "bytes \<Rightarrow> InputEvent list" where
  "parse_all b = (if length b < 24 then [] else parseEvent (take 24 b) # parse_all (drop 24 b))"

declare parse_all.simps [simp del]

lemma parse_all_Nil [simp]: "parse_all [] = []"
  by (subst parse_all.simps) simp

lemma parse_all_append:
  "length a mod 24 = 0 \<Longrightarrow> parse_all (a @ b) = parse_all a @ parse_all b"
proof (induction a rule: measure_induct_rule [where f = length])
  case (less a)
  show ?case
  proof (cases "a = []")
    case False
    then have l: "24 \<le> length a" using less.prems by (cases "length a < 24") auto
    have "parse_all (drop 24 a @ b) = parse_all (drop 24 a) @ parse_all b"
    proof (rule less.IH)
      show "length (drop 24 a) < length a" using l by simp
      show "length (drop 24 a) mod 24 = 0" using l less.prems by (simp add: le_mod_geq)
    qed
    then show ?thesis using l by (simp add: parse_all.simps [of a] parse_all.simps [of "a @ b"])
  qed simp
qed

lemma parse_all_event [simp]: "parse_all (event_buf t c v) = [event t c v]"
  by (subst parse_all.simps) simp

end
