(* ===== verification/Evdev.thy ===== *)
theory Evdev
  imports Device GoString
begin

text \<open>
  \<open>input/evdev.go\<close>: discovery and classification of the input devices, and the capture of
  their events.  Device handles are indices into the list \<open>ecDevs\<close>, so that one handle that is
  in several places is one object.  The handlers of a mouse and of a keyboard event return the
  callbacks they make, in order.  What the kernel decides (whether a grab succeeds), the clock
  and the order of a map iteration are arguments.  The main lemmas: the invariant
  \<open>capture_inv\<close> about what is grabbed, kept by every step, and which events are forwarded.
\<close>

section \<open>Capabilities and classification\<close>

record DeviceCapabilities =
  EvBits :: bytes
  RelBits :: bytes
  AbsBits :: bytes
  KeyBits :: bytes

record DeviceInfo =
  dPath :: gostring
  dName :: gostring
  dPhys :: gostring
  dCaps :: DeviceCapabilities
  dIsMouse :: bool
  dIsKeyboard :: bool
  dIsTouchpad :: bool

definition hasBit :: "bytes \<Rightarrow> nat \<Rightarrow> bool" where
  "hasBit bits n =
    (if length bits \<le> n div 8 then False
     else bits ! (n div 8) AND push_bit (n mod 8) 1 \<noteq> 0)"

text \<open>
  What \<open>ioctl\<close> answers on an open device: \<open>None\<close> for an error, otherwise the bytes that the
  kernel copies to the start of the zeroed buffer.
\<close>

record Node =
  nBits :: "nat \<Rightarrow> bytes option"
  nName :: "bytes option"
  nPhys :: "bytes option"

definition ioctl_buf :: "nat \<Rightarrow> bytes option \<Rightarrow> bytes option" where
  "ioctl_buf len r = map_option (\<lambda>bs. copy_into 0 len bs (replicate len 0)) r"

definition detectCapabilities :: "Node \<Rightarrow> DeviceCapabilities option" where
  "detectCapabilities node =
    (case ioctl_buf 8 (nBits node 0) of
       None \<Rightarrow> None
     | Some ev \<Rightarrow>
         (case (if hasBit ev (unat EV_REL) then ioctl_buf 8 (nBits node (unat EV_REL)) else Some (replicate 8 0)) of
            None \<Rightarrow> None
          | Some rel \<Rightarrow>
              (case (if hasBit ev (unat EV_ABS) then ioctl_buf 8 (nBits node (unat EV_ABS)) else Some (replicate 8 0)) of
                 None \<Rightarrow> None
               | Some ab \<Rightarrow>
                   (case (if hasBit ev (unat EV_KEY) then ioctl_buf 64 (nBits node (unat EV_KEY))
                          else Some (replicate 64 0)) of
                      None \<Rightarrow> None
                    | Some key \<Rightarrow> Some \<lparr>EvBits = ev, RelBits = rel, AbsBits = ab, KeyBits = key\<rparr>))))"

text \<open>Whether a device is a mouse, a keyboard, a touchpad.\<close>

definition classifyDevice :: "DeviceCapabilities \<Rightarrow> bool \<times> bool \<times> bool" where
  "classifyDevice caps =
    (let relMouse = hasBit (EvBits caps) (unat EV_REL) \<and>
           (hasBit (RelBits caps) (unat REL_X) \<or> hasBit (RelBits caps) (unat REL_Y));
         isTouchpad = (hasBit (EvBits caps) (unat EV_ABS) \<and>
           hasBit (AbsBits caps) (unat ABS_X) \<and> hasBit (AbsBits caps) (unat ABS_Y) \<and>
           hasBit (AbsBits caps) (unat ABS_PRESSURE) \<and> hasBit (KeyBits caps) (unat BTN_LEFT));
         typingKeys = length (filter (hasBit (KeyBits caps)) ([30..<46] @ [2..<12] @ [59..<71]));
         hasSpace = hasBit (KeyBits caps) 57;
         hasEnter = hasBit (KeyBits caps) 28;
         isKeyboard = (hasBit (EvBits caps) (unat EV_KEY) \<and> 15 \<le> typingKeys \<and> hasSpace \<and> hasEnter)
     in (relMouse \<or> isTouchpad, isKeyboard, isTouchpad))"

definition devicePhys :: "Node \<Rightarrow> gostring" where
  "devicePhys node =
    (case ioctl_buf 256 (nPhys node) of None \<Rightarrow> [] | Some buf \<Rightarrow> trim_right 0 buf)"

definition deviceName :: "Node \<Rightarrow> gostring \<Rightarrow> gostring" where
  "deviceName node fallback =
    (case ioctl_buf 256 (nName node) of
       None \<Rightarrow> fallback
     | Some buf \<Rightarrow> (let name = trim_right 0 buf in if name = [] then fallback else name))"

text \<open>The body of the discovery loop: \<open>nodes\<close> is what opening a path gives.\<close>

definition probe :: "(gostring \<Rightarrow> Node option) \<Rightarrow> gostring \<Rightarrow> DeviceInfo option" where
  "probe nodes path =
    (case nodes path of
       None \<Rightarrow> None
     | Some node \<Rightarrow>
         (case ioctl_buf 256 (nName node) of
            None \<Rightarrow> None
          | Some nameBuf \<Rightarrow>
              (case detectCapabilities node of
                 None \<Rightarrow> None
               | Some caps \<Rightarrow>
                   (let (isMouse, isKeyboard, isTouchpad) = classifyDevice caps
                    in Some \<lparr>dPath = path, dName = trim_right 0 nameBuf, dPhys = devicePhys node,
                             dCaps = caps, dIsMouse = isMouse, dIsKeyboard = isKeyboard,
                             dIsTouchpad = isTouchpad\<rparr>))))"

text \<open>\<open>glob\<close> are the paths of the event devices, \<open>None\<close> if \<open>Glob\<close> failed.\<close>

definition discoverDevices ::
  "gostring list option \<Rightarrow> (gostring \<Rightarrow> Node option) \<Rightarrow> (DeviceInfo list \<times> DeviceInfo list \<times> DeviceInfo list) option" where
  "discoverDevices glob nodes =
    (case glob of
       None \<Rightarrow> None
     | Some matches \<Rightarrow>
         (let infos = List.map_filter (probe nodes) matches
          in Some (filter (\<lambda>i. dIsMouse i \<and> \<not> dIsTouchpad i) infos, filter dIsKeyboard infos,
                   filter dIsTouchpad infos)))"

section \<open>Names of devices\<close>

text \<open>\<open>strings.LastIndex\<close>.\<close>

definition last_index_of :: "gostring \<Rightarrow> gostring \<Rightarrow> nat option" where
  "last_index_of s p =
    (case filter (\<lambda>i. has_prefix (drop i s) p) [0..<Suc (length s)] of
       [] \<Rightarrow> None | is \<Rightarrow> Some (last is))"

text \<open>
  \<open>trim\<close> and \<open>lower\<close> are \<open>strings.TrimSpace\<close> and \<open>strings.ToLower\<close>, whose Unicode tables are
  not modelled.
\<close>

definition normalizeDeviceName :: "(gostring \<Rightarrow> gostring) \<Rightarrow> (gostring \<Rightarrow> gostring) \<Rightarrow> gostring \<Rightarrow> gostring" where
  "normalizeDeviceName trim lower name = lower (trim name)"

definition normalizeDevicePhys :: "(gostring \<Rightarrow> gostring) \<Rightarrow> (gostring \<Rightarrow> gostring) \<Rightarrow> gostring \<Rightarrow> gostring" where
  "normalizeDevicePhys trim lower phys0 =
    (let phys = trim phys0 in
     if phys = [] then []
     else case last_index_of phys (gostr ''/input'') of
            None \<Rightarrow> lower phys
          | Some idx \<Rightarrow>
              (let suffix = drop (idx + length (gostr ''/input'')) phys;
                   allDigits = (suffix \<noteq> [] \<and> list_all (\<lambda>(i, r). 48 \<le> r \<and> r \<le> 57) (range_string suffix))
               in lower (if allDigits then take idx phys else phys)))"

definition isSamePhysicalDevice ::
  "(gostring \<Rightarrow> gostring) \<Rightarrow> (gostring \<Rightarrow> gostring) \<Rightarrow> DeviceInfo \<Rightarrow> DeviceInfo \<Rightarrow> bool" where
  "isSamePhysicalDevice trim lower a b =
    (let physA = normalizeDevicePhys trim lower (dPhys a);
         physB = normalizeDevicePhys trim lower (dPhys b);
         nameA = normalizeDeviceName trim lower (dName a);
         nameB = normalizeDeviceName trim lower (dName b)
     in if physA \<noteq> [] \<and> physA = physB then True
        else nameA \<noteq> [] \<and> nameA = nameB)"

section \<open>The capture state\<close>

record DeviceHandle =
  hInfo :: DeviceInfo
  hGrabbed :: bool
  hOpen :: bool

datatype callback =
    EdgeHit
  | ReturnToLocal
  | MouseEvent int int int
  | KeyEvent u16 bool
  | ButtonEvent u16 bool
  | Emergency

datatype callback_field = OnEdgeHit | OnReturn | OnMouseEvent | OnKeyEvent | OnButtonEvent | OnEmergency

text \<open>
  \<open>ecOn\<close> has the callback fields that are not \<open>nil\<close>, \<open>ecKernel\<close> the devices that the kernel
  has grabbed for this process; \<open>pendingUntil\<close> is \<open>None\<close> for the zero time.
\<close>

record EvdevCapture =
  ecDevs :: "DeviceHandle list"
  mouseDevs :: "nat list"
  kbdDevs :: "nat list"
  activeMouseDev :: "nat option"
  activeKbdDev :: "nat option"
  ecCursorX :: u64
  ecCursorY :: u64
  ecScreenW :: u64
  ecScreenH :: u64
  IsRemote :: bool
  ecOn :: "callback_field set"
  ecPressedKeys :: "u16 set"
  pendingMouse :: "nat option"
  pendingHits :: u64
  pendingMotion :: u64
  pendingUntil :: "int option"
  ecKernel :: "nat set"

definition NewEvdevCapture :: "u64 \<Rightarrow> u64 \<Rightarrow> EvdevCapture" where
  "NewEvdevCapture w h =
    \<lparr>ecDevs = [], mouseDevs = [], kbdDevs = [], activeMouseDev = None, activeKbdDev = None,
     ecCursorX = godiv w 2, ecCursorY = godiv h 2, ecScreenW = w, ecScreenH = h, IsRemote = False,
     ecOn = {}, ecPressedKeys = {}, pendingMouse = None, pendingHits = 0, pendingMotion = 0,
     pendingUntil = None, ecKernel = {}\<rparr>"

definition call :: "EvdevCapture \<Rightarrow> callback_field \<Rightarrow> callback \<Rightarrow> callback list" where
  "call e f c = (if f \<in> ecOn e then [c] else [])"

abbreviation handle :: "EvdevCapture \<Rightarrow> nat \<Rightarrow> DeviceHandle" where
  "handle e i \<equiv> ecDevs e ! i"

definition new_handle :: "DeviceInfo \<Rightarrow> DeviceHandle" where
  "new_handle info = \<lparr>hInfo = info, hGrabbed = False, hOpen = True\<rparr>"

definition add_mouse :: "DeviceInfo \<Rightarrow> EvdevCapture \<Rightarrow> EvdevCapture" where
  "add_mouse info e = e\<lparr>ecDevs := ecDevs e @ [new_handle info], mouseDevs := mouseDevs e @ [length (ecDevs e)]\<rparr>"

definition add_kbd :: "DeviceInfo \<Rightarrow> EvdevCapture \<Rightarrow> EvdevCapture" where
  "add_kbd info e = e\<lparr>ecDevs := ecDevs e @ [new_handle info], kbdDevs := kbdDevs e @ [length (ecDevs e)]\<rparr>"

datatype evdev_error =
    GlobFailed | NoMouse | NoKeyboard | OpenMouse | OpenKeyboard | NoMouseOpened | NoKeyboardOpened

text \<open>\<open>opens\<close> tells whether the second opening of a path succeeds.\<close>

definition DiscoverAndOpen ::
  "gostring list option \<Rightarrow> (gostring \<Rightarrow> Node option) \<Rightarrow> (gostring \<Rightarrow> bool) \<Rightarrow> EvdevCapture
   \<Rightarrow> evdev_error option \<times> EvdevCapture" where
  "DiscoverAndOpen glob nodes opens e =
    (case discoverDevices glob nodes of
       None \<Rightarrow> (Some GlobFailed, e)
     | Some (mice, keyboards, _) \<Rightarrow>
         if mice = [] then (Some NoMouse, e)
         else if keyboards = [] then (Some NoKeyboard, e)
         else
           (let e = fold add_mouse (filter (\<lambda>i. opens (dPath i)) mice) e;
                e = fold add_kbd (filter (\<lambda>i. opens (dPath i)) keyboards) e
            in if mouseDevs e = [] then (Some NoMouseOpened, e)
               else if kbdDevs e = [] then (Some NoKeyboardOpened, e)
               else (None, e)))"

definition FindMouseDevice ::
  "gostring list option \<Rightarrow> (gostring \<Rightarrow> Node option) \<Rightarrow> evdev_error + gostring" where
  "FindMouseDevice glob nodes =
    (case discoverDevices glob nodes of
       None \<Rightarrow> Inl GlobFailed
     | Some ([], _) \<Rightarrow> Inl NoMouse
     | Some (m # _, _) \<Rightarrow> Inr (dPath m))"

definition FindKeyboardDevice ::
  "gostring list option \<Rightarrow> (gostring \<Rightarrow> Node option) \<Rightarrow> evdev_error + gostring" where
  "FindKeyboardDevice glob nodes =
    (case discoverDevices glob nodes of
       None \<Rightarrow> Inl GlobFailed
     | Some (_, [], _) \<Rightarrow> Inl NoKeyboard
     | Some (_, k # _, _) \<Rightarrow> Inr (dPath k))"

text \<open>\<open>base\<close> is \<open>filepath.Base\<close>.\<close>

definition plain_info :: "(gostring \<Rightarrow> gostring) \<Rightarrow> gostring \<Rightarrow> Node \<Rightarrow> DeviceInfo" where
  "plain_info base path node =
     \<lparr>dPath = path, dName = deviceName node (base path), dPhys = devicePhys node,
      dCaps = \<lparr>EvBits = replicate 8 0, RelBits = replicate 8 0, AbsBits = replicate 8 0, KeyBits = replicate 64 0\<rparr>,
      dIsMouse = False, dIsKeyboard = False, dIsTouchpad = False\<rparr>"

definition Open ::
  "(gostring \<Rightarrow> gostring) \<Rightarrow> (gostring \<Rightarrow> Node option) \<Rightarrow> gostring \<Rightarrow> gostring \<Rightarrow> EvdevCapture
   \<Rightarrow> evdev_error option \<times> EvdevCapture" where
  "Open base nodes mousePath kbdPath e =
    (case nodes mousePath of
       None \<Rightarrow> (Some OpenMouse, e)
     | Some m \<Rightarrow>
         (case nodes kbdPath of
            None \<Rightarrow> (Some OpenKeyboard, e)
          | Some k \<Rightarrow>
              (None, add_kbd (plain_info base kbdPath k)
                       (add_mouse (plain_info base mousePath m) (e\<lparr>mouseDevs := [], kbdDevs := []\<rparr>)))))"

section \<open>Grabbing and releasing\<close>

text \<open>Requests \<open>EVIOCGRAB\<close> with 1 and 0; \<open>ok\<close> tells for which devices a grab succeeds.\<close>

definition set_grabbed :: "nat \<Rightarrow> bool \<Rightarrow> EvdevCapture \<Rightarrow> EvdevCapture" where
  "set_grabbed i g e = e\<lparr>ecDevs := (ecDevs e)[i := (handle e i)\<lparr>hGrabbed := g\<rparr>],
     ecKernel := (if g then insert i (ecKernel e) else ecKernel e - {i})\<rparr>"

definition resetPendingMouse :: "EvdevCapture \<Rightarrow> EvdevCapture" where
  "resetPendingMouse e = e\<lparr>pendingMouse := None, pendingHits := 0, pendingMotion := 0, pendingUntil := None\<rparr>"

definition isMouseDevicePath :: "gostring \<Rightarrow> EvdevCapture \<Rightarrow> bool" where
  "isMouseDevicePath path e \<longleftrightarrow> list_ex (\<lambda>i. dPath (hInfo (handle e i)) = path) (mouseDevs e)"

definition grab_keyboard :: "(nat \<Rightarrow> bool) \<Rightarrow> nat \<Rightarrow> EvdevCapture \<Rightarrow> EvdevCapture" where
  "grab_keyboard ok i e =
    (if isMouseDevicePath (dPath (hInfo (handle e i))) e then e
     else if \<not> hGrabbed (handle e i) then (if \<not> ok i then e else set_grabbed i True e)
     else e)"

text \<open>\<open>order\<close> is the order in which the last loop meets the keys of the map.\<close>

definition Grab :: "(nat \<Rightarrow> bool) \<Rightarrow> u16 list \<Rightarrow> nat option \<Rightarrow> EvdevCapture \<Rightarrow> EvdevCapture \<times> callback list" where
  "Grab ok order activeMouse e =
    (let e = (case activeMouse of
                Some m \<Rightarrow> if \<not> hGrabbed (handle e m) then
                            (if \<not> ok m then e else (set_grabbed m True e)\<lparr>activeMouseDev := Some m\<rparr>)
                          else e
              | None \<Rightarrow> resetPendingMouse e);
         e = fold (grab_keyboard ok) (kbdDevs e) e;
         e = e\<lparr>IsRemote := True\<rparr>
     in (e\<lparr>ecPressedKeys := ecPressedKeys e - set order\<rparr>,
         concat (map (\<lambda>code. call e OnKeyEvent (KeyEvent code False)) order)))"

definition ungrab_device :: "nat \<Rightarrow> EvdevCapture \<Rightarrow> EvdevCapture" where
  "ungrab_device i e = (if hGrabbed (handle e i) then set_grabbed i False e else e)"

definition Ungrab :: "EvdevCapture \<Rightarrow> EvdevCapture" where
  "Ungrab e =
    (let e = fold ungrab_device (mouseDevs e) e;
         e = fold ungrab_device (kbdDevs e) e
     in (resetPendingMouse (e\<lparr>IsRemote := False, activeMouseDev := None, activeKbdDev := None\<rparr>))
          \<lparr>ecCursorX := godiv (ecScreenW e) 2, ecCursorY := godiv (ecScreenH e) 2\<rparr>)"

definition IsRemoteMode :: "EvdevCapture \<Rightarrow> bool" where
  "IsRemoteMode e = IsRemote e"

definition close_device :: "nat \<Rightarrow> EvdevCapture \<Rightarrow> EvdevCapture" where
  "close_device i e = e\<lparr>ecDevs := (ecDevs e)[i := (handle e i)\<lparr>hOpen := False\<rparr>]\<rparr>"

definition Evdev_Close :: "EvdevCapture \<Rightarrow> EvdevCapture" where
  "Evdev_Close e = (let e = Ungrab e; e = fold close_device (mouseDevs e) e in fold close_device (kbdDevs e) e)"

section \<open>Which mouse is active\<close>

datatype mouseActivationAction = mouseActionNone | mouseActionActivate | mouseActionRebind

text \<open>Times are in nanoseconds.\<close>

abbreviation (input) mouseIntentWindow :: int where "mouseIntentWindow \<equiv> 150000000"
abbreviation (input) mouseIntentMinMotionMagnitude :: int where "mouseIntentMinMotionMagnitude \<equiv> 4"

definition time_after :: "int \<Rightarrow> int option \<Rightarrow> bool" where
  "time_after now t = (case t of None \<Rightarrow> True | Some u \<Rightarrow> u < now)"

definition time_before :: "int \<Rightarrow> int option \<Rightarrow> bool" where
  "time_before now t = (case t of None \<Rightarrow> False | Some u \<Rightarrow> now < u)"

definition isMouseButtonCode :: "u16 \<Rightarrow> bool" where
  "isMouseButtonCode code \<longleftrightarrow> BTN_MOUSE \<le> code \<and> code \<le> BTN_MOUSE + 0x0f"

definition isMouseButtonPress :: "InputEvent \<Rightarrow> bool" where
  "isMouseButtonPress ev \<longleftrightarrow> evType ev = EV_KEY \<and> evValue ev = 1 \<and> isMouseButtonCode (evCode ev)"

definition absInt :: "i32 \<Rightarrow> u64" where
  "absInt v = (if sint v < 0 then scast (- v) else scast v)"

definition registerPendingMouse :: "int \<Rightarrow> nat \<Rightarrow> InputEvent \<Rightarrow> EvdevCapture \<Rightarrow> EvdevCapture" where
  "registerPendingMouse now source ev e =
    (if pendingMouse e \<noteq> Some source \<or> time_after now (pendingUntil e) then
       e\<lparr>pendingMouse := Some source, pendingHits := 1, pendingMotion := absInt (evValue ev),
         pendingUntil := Some (now + mouseIntentWindow)\<rparr>
     else
       e\<lparr>pendingHits := pendingHits e + 1, pendingMotion := pendingMotion e + absInt (evValue ev),
         pendingUntil := Some (now + mouseIntentWindow)\<rparr>)"

definition isIntentionalRemoteMouseEvent :: "InputEvent \<Rightarrow> bool" where
  "isIntentionalRemoteMouseEvent ev =
    (if evType ev = EV_REL then (if evCode ev = REL_X \<or> evCode ev = REL_Y then evValue ev \<noteq> 0 else False)
     else if evType ev = EV_KEY \<and> evValue ev = 1 \<and> isMouseButtonCode (evCode ev) then True
     else False)"

definition remoteMouseActivationAction :: "nat option \<Rightarrow> nat \<Rightarrow> InputEvent \<Rightarrow> mouseActivationAction" where
  "remoteMouseActivationAction active source ev =
    (if \<not> isIntentionalRemoteMouseEvent ev then mouseActionNone
     else if active = None then mouseActionActivate
     else if active \<noteq> Some source then mouseActionRebind
     else mouseActionNone)"

definition decideMouseActivation ::
  "int \<Rightarrow> nat \<Rightarrow> InputEvent \<Rightarrow> EvdevCapture \<Rightarrow> mouseActivationAction \<times> EvdevCapture" where
  "decideMouseActivation now source ev e =
    (let base = remoteMouseActivationAction (activeMouseDev e) source ev in
     if base = mouseActionNone then
       (mouseActionNone, if \<not> time_before now (pendingUntil e) then resetPendingMouse e else e)
     else if isMouseButtonPress ev then (base, resetPendingMouse e)
     else
       (let e = registerPendingMouse now source ev e in
        if sint (pendingHits e) < 2 \<or> sint (pendingMotion e) < mouseIntentMinMotionMagnitude
        then (mouseActionNone, e)
        else (base, resetPendingMouse e)))"

definition ungrabMouse :: "nat option \<Rightarrow> EvdevCapture \<Rightarrow> EvdevCapture" where
  "ungrabMouse dev e =
    (case dev of None \<Rightarrow> e | Some d \<Rightarrow> if \<not> hGrabbed (handle e d) then e else set_grabbed d False e)"

definition grabMouse :: "(nat \<Rightarrow> bool) \<Rightarrow> nat \<Rightarrow> EvdevCapture \<Rightarrow> EvdevCapture" where
  "grabMouse ok dev e =
    (let e = e\<lparr>activeMouseDev := Some dev\<rparr>
     in if \<not> hGrabbed (handle e dev) then (if \<not> ok dev then e else set_grabbed dev True e) else e)"

text \<open>The switch on the decision, in both loops.\<close>

definition activate_mouse :: "(nat \<Rightarrow> bool) \<Rightarrow> int \<Rightarrow> nat \<Rightarrow> InputEvent \<Rightarrow> EvdevCapture \<Rightarrow> EvdevCapture" where
  "activate_mouse ok now source ev e =
    (case decideMouseActivation now source ev e of
       (mouseActionActivate, e) \<Rightarrow> grabMouse ok source e
     | (mouseActionRebind, e) \<Rightarrow> grabMouse ok source (ungrabMouse (activeMouseDev e) e)
     | (mouseActionNone, e) \<Rightarrow> e)"

section \<open>Mouse events\<close>

definition handleLocalMouseEvent :: "InputEvent \<Rightarrow> EvdevCapture \<Rightarrow> EvdevCapture" where
  "handleLocalMouseEvent ev e =
    (if evType ev = EV_REL then
       (if evCode ev = REL_X then e\<lparr>ecCursorX := ecCursorX e + scast (evValue ev)\<rparr>
        else if evCode ev = REL_Y then e\<lparr>ecCursorY := ecCursorY e + scast (evValue ev)\<rparr>
        else e)
     else e)"

definition handleRemoteMouseEvent :: "InputEvent \<Rightarrow> EvdevCapture \<Rightarrow> callback list" where
  "handleRemoteMouseEvent ev e =
    (if evType ev = EV_REL then
       (let dx = (if evCode ev = REL_X then sint (evValue ev) else 0);
            dy = (if evCode ev = REL_Y then sint (evValue ev) else 0);
            wheel = (if evCode ev = REL_WHEEL then sint (evValue ev) * 120 else 0)
        in if dx \<noteq> 0 \<or> dy \<noteq> 0 \<or> wheel \<noteq> 0 then call e OnMouseEvent (MouseEvent dx dy wheel) else [])
     else if evType ev = EV_KEY then
       (if evValue ev \<noteq> 0 \<and> evValue ev \<noteq> 1 then []
        else if evCode ev \<in> {BTN_LEFT, BTN_RIGHT, BTN_MIDDLE, BTN_SIDE, BTN_EXTRA}
        then call e OnButtonEvent (ButtonEvent (evCode ev) (evValue ev = 1)) else [])
     else [])"

text \<open>The body of the loop of \<open>runSingleMouseLoop\<close> for the mouse \<open>dev\<close>.\<close>

definition mouse_loop_step ::
  "(nat \<Rightarrow> bool) \<Rightarrow> int \<Rightarrow> nat \<Rightarrow> InputEvent \<Rightarrow> EvdevCapture \<Rightarrow> EvdevCapture \<times> callback list" where
  "mouse_loop_step ok now dev ev e =
    (if IsRemote e then
       (let e = activate_mouse ok now dev ev e
        in (e, if activeMouseDev e = Some dev then handleRemoteMouseEvent ev e else []))
     else (handleLocalMouseEvent ev e, []))"

section \<open>Keyboard events\<close>

definition mouseSourceForKeyboardButton ::
  "(gostring \<Rightarrow> gostring) \<Rightarrow> (gostring \<Rightarrow> gostring) \<Rightarrow> nat \<Rightarrow> EvdevCapture \<Rightarrow> nat option" where
  "mouseSourceForKeyboardButton trim lower kbd e =
    (if isMouseDevicePath (dPath (hInfo (handle e kbd))) e then None
     else case filter (\<lambda>m. isSamePhysicalDevice trim lower (hInfo (handle e kbd)) (hInfo (handle e m))) (mouseDevs e) of
            [] \<Rightarrow> None
          | [m] \<Rightarrow> Some m
          | matches \<Rightarrow>
              (case find (\<lambda>m. Some m = activeMouseDev e) matches of
                 Some m \<Rightarrow> Some m | None \<Rightarrow> Some (hd matches)))"

text \<open>A mouse button on a keyboard device.\<close>

definition keyboard_mouse_button ::
  "(gostring \<Rightarrow> gostring) \<Rightarrow> (gostring \<Rightarrow> gostring) \<Rightarrow> (nat \<Rightarrow> bool) \<Rightarrow> int \<Rightarrow> nat \<Rightarrow> InputEvent \<Rightarrow> EvdevCapture
   \<Rightarrow> EvdevCapture \<times> callback list" where
  "keyboard_mouse_button trim lower ok now dev ev e =
    (if \<not> IsRemote e then (e, [])
     else case mouseSourceForKeyboardButton trim lower dev e of
            None \<Rightarrow> (e, [])
          | Some sourceMouse \<Rightarrow>
              (let e = activate_mouse ok now sourceMouse ev e
               in (e, if activeMouseDev e = Some sourceMouse
                      then call e OnButtonEvent (ButtonEvent (evCode ev) (evValue ev = 1)) else [])))"

definition hasWin :: "EvdevCapture \<Rightarrow> bool" where
  "hasWin e \<longleftrightarrow> 125 \<in> ecPressedKeys e \<or> 126 \<in> ecPressedKeys e"

text \<open>In local mode, the shortcut with the function key \<open>key\<close>: the same code for F1 and F2.\<close>

definition local_shortcut ::
  "(nat \<Rightarrow> bool) \<Rightarrow> u16 list \<Rightarrow> u16 \<Rightarrow> InputEvent \<Rightarrow> EvdevCapture \<Rightarrow> EvdevCapture \<times> callback list" where
  "local_shortcut ok order key ev e =
    (if evCode ev = key \<and> evValue ev = 1 \<and> hasWin e
     then (let (e, rel) = Grab ok order None e in (e, rel @ call e OnEdgeHit EdgeHit))
     else (e, []))"

text \<open>
  The body of the loop of \<open>runSingleKeyboardLoop\<close> for the keyboard \<open>dev\<close>.  \<open>order\<close> is the
  iteration order of \<open>Grab\<close>.
\<close>

definition keyboard_loop_step ::
  "(gostring \<Rightarrow> gostring) \<Rightarrow> (gostring \<Rightarrow> gostring) \<Rightarrow> (nat \<Rightarrow> bool) \<Rightarrow> u16 list \<Rightarrow> int \<Rightarrow> nat \<Rightarrow> InputEvent
   \<Rightarrow> EvdevCapture \<Rightarrow> EvdevCapture \<times> callback list" where
  "keyboard_loop_step trim lower ok order now dev ev e =
    (if evType ev \<noteq> EV_KEY then (e, [])
     else if evValue ev = 2 then (e, [])
     else if isMouseButtonCode (evCode ev) then keyboard_mouse_button trim lower ok now dev ev e
     else
       (let pressed = evValue ev = 1; code = evCode ev;
            e = e\<lparr>ecPressedKeys := (if pressed then insert code (ecPressedKeys e) else ecPressedKeys e - {code})\<rparr>;
            isRemote = IsRemote e;
            activeKbd = activeKbdDev e;
            emergency = (if code = 119 \<and> evValue ev = 1 then call e OnEmergency Emergency else [])
        in if isRemote \<and> code = 59 \<and> evValue ev = 1 \<and> hasWin e then
             (Ungrab e, emergency @ call e OnReturn ReturnToLocal)
           else if isRemote \<and> code = 60 \<and> evValue ev = 1 \<and> hasWin e then
             (Ungrab e, emergency @ call e OnReturn ReturnToLocal)
           else if isRemote then
             (let (e, activeKbd) = (if activeKbd = None \<and> pressed then (e\<lparr>activeKbdDev := Some dev\<rparr>, Some dev)
                                    else (e, activeKbd))
              in (e, emergency @
                     (if activeKbd \<noteq> Some dev then [] else call e OnKeyEvent (KeyEvent code pressed))))
           else
             (let (e, out1) = local_shortcut ok order 59 ev e;
                  (e, out2) = local_shortcut ok order 60 ev e
              in (e, emergency @ out1 @ out2))))"

text \<open>Two unused helpers.\<close>

definition applyAcceleration :: "u64 \<Rightarrow> u64" where
  "applyAcceleration val =
    (let absVal = (if sint val < 0 then - val else val)
     in if 15 < sint absVal then val * 3 else if 5 < sint absVal then val * 2 else val)"

definition evdev_clamp :: "u64 \<Rightarrow> u64 \<Rightarrow> u64 \<Rightarrow> u64" where
  "evdev_clamp v lo hi = (if sint v < sint lo then lo else if sint hi < sint v then hi else v)"

lemma evdev_clamp_between:
  "sint lo \<le> sint hi \<Longrightarrow> sint lo \<le> sint (evdev_clamp v lo hi) \<and> sint (evdev_clamp v lo hi) \<le> sint hi"
  by (simp add: evdev_clamp_def)

section \<open>The invariant of the capture\<close>

text \<open>The grab flags of the handles are what the kernel has grabbed.\<close>

definition in_sync :: "EvdevCapture \<Rightarrow> bool" where
  "in_sync e \<longleftrightarrow> ecKernel e \<subseteq> {..<length (ecDevs e)} \<and>
     (\<forall>i<length (ecDevs e). hGrabbed (handle e i) \<longleftrightarrow> i \<in> ecKernel e)"

definition devices_ok :: "EvdevCapture \<Rightarrow> bool" where
  "devices_ok e \<longleftrightarrow> distinct (mouseDevs e @ kbdDevs e) \<and>
     set (mouseDevs e @ kbdDevs e) \<subseteq> {..<length (ecDevs e)}"

text \<open>
  Nothing is grabbed in local mode; in remote mode only the active mouse and keyboards that are
  not also a mouse are.
\<close>

definition capture_inv :: "EvdevCapture \<Rightarrow> bool" where
  "capture_inv e \<longleftrightarrow> devices_ok e \<and> in_sync e \<and>
     (\<forall>i\<in>ecKernel e. activeMouseDev e = Some i \<or>
        i \<in> set (kbdDevs e) \<and> \<not> isMouseDevicePath (dPath (hInfo (handle e i))) e) \<and>
     (\<forall>m. activeMouseDev e = Some m \<longrightarrow> m \<in> set (mouseDevs e)) \<and>
     (\<forall>k. activeKbdDev e = Some k \<longrightarrow> k \<in> set (kbdDevs e)) \<and>
     (\<not> IsRemote e \<longrightarrow> ecKernel e = {} \<and> activeMouseDev e = None \<and> activeKbdDev e = None \<and> pendingMouse e = None)"

text \<open>What a change of a grab flag leaves alone.\<close>

definition same_devices :: "EvdevCapture \<Rightarrow> EvdevCapture \<Rightarrow> bool" where
  "same_devices e e' \<longleftrightarrow> mouseDevs e' = mouseDevs e \<and> kbdDevs e' = kbdDevs e \<and>
     length (ecDevs e') = length (ecDevs e) \<and> (\<forall>i. hInfo (handle e' i) = hInfo (handle e i)) \<and>
     ecOn e' = ecOn e \<and> ecPressedKeys e' = ecPressedKeys e \<and> IsRemote e' = IsRemote e \<and>
     activeKbdDev e' = activeKbdDev e \<and> ecScreenW e' = ecScreenW e \<and> ecScreenH e' = ecScreenH e"

lemma same_devices_refl [simp]: "same_devices e e"
  by (simp add: same_devices_def)

lemma same_devices_trans: "same_devices a b \<Longrightarrow> same_devices b c \<Longrightarrow> same_devices a c"
  by (simp add: same_devices_def)

lemma isMouseDevicePath_same: "same_devices e e' \<Longrightarrow> isMouseDevicePath p e' = isMouseDevicePath p e"
  by (simp add: isMouseDevicePath_def same_devices_def)

lemma devices_ok_same: "same_devices e e' \<Longrightarrow> devices_ok e' = devices_ok e"
  by (simp add: devices_ok_def same_devices_def)

lemma set_grabbed_same: "same_devices e (set_grabbed i g e)"
proof -
  have "hInfo (handle (set_grabbed i g e) j) = hInfo (handle e j)" for j
    by (cases "i < length (ecDevs e)")
      (auto simp add: set_grabbed_def nth_list_update list_update_beyond not_less)
  then show ?thesis by (simp add: same_devices_def set_grabbed_def)
qed

lemma set_grabbed_sel [simp]:
  "activeMouseDev (set_grabbed i g e) = activeMouseDev e" "pendingMouse (set_grabbed i g e) = pendingMouse e"
  "ecKernel (set_grabbed i g e) = (if g then insert i (ecKernel e) else ecKernel e - {i})"
  "activeKbdDev (set_grabbed i g e) = activeKbdDev e" "IsRemote (set_grabbed i g e) = IsRemote e"
  "ecOn (set_grabbed i g e) = ecOn e"
  by (simp_all add: set_grabbed_def)

lemma set_grabbed_sync: "in_sync e \<Longrightarrow> i < length (ecDevs e) \<Longrightarrow> in_sync (set_grabbed i g e)"
  by (auto simp add: in_sync_def set_grabbed_def nth_list_update)

lemma sync_grabbed: "in_sync e \<Longrightarrow> i < length (ecDevs e) \<Longrightarrow> hGrabbed (handle e i) \<longleftrightarrow> i \<in> ecKernel e"
  by (simp add: in_sync_def)

lemma fold_ungrab:
  "in_sync e \<Longrightarrow> set is \<subseteq> {..<length (ecDevs e)} \<Longrightarrow>
   in_sync (fold ungrab_device is e) \<and> same_devices e (fold ungrab_device is e) \<and>
   ecKernel (fold ungrab_device is e) = ecKernel e - set is \<and>
   activeMouseDev (fold ungrab_device is e) = activeMouseDev e"
proof (induction "is" arbitrary: e)
  case (Cons i "is")
  let ?e = "ungrab_device i e"
  have s: "same_devices e ?e" using set_grabbed_same by (simp add: ungrab_device_def)
  have sy: "in_sync ?e" and k: "ecKernel ?e = ecKernel e - {i}" and a: "activeMouseDev ?e = activeMouseDev e"
    using Cons.prems sync_grabbed [of e i] set_grabbed_sync by (auto simp add: ungrab_device_def)
  have "set is \<subseteq> {..<length (ecDevs ?e)}" using Cons.prems s by (simp add: same_devices_def)
  from Cons.IH [OF sy this] s k a show ?case using same_devices_trans [OF s] by auto
qed simp

lemma grab_keyboard_props:
  assumes "in_sync e" and "i < length (ecDevs e)"
  shows "in_sync (grab_keyboard ok i e)" and "same_devices e (grab_keyboard ok i e)"
    and "activeMouseDev (grab_keyboard ok i e) = activeMouseDev e"
    and "pendingMouse (grab_keyboard ok i e) = pendingMouse e"
    and "ecKernel (grab_keyboard ok i e) =
      (if \<not> isMouseDevicePath (dPath (hInfo (handle e i))) e \<and> ok i then insert i (ecKernel e) else ecKernel e)"
  using assms set_grabbed_sync set_grabbed_same sync_grabbed [OF assms]
  by (auto simp add: grab_keyboard_def)

lemma fold_grab_keyboard:
  "in_sync e \<Longrightarrow> set is \<subseteq> {..<length (ecDevs e)} \<Longrightarrow>
   in_sync (fold (grab_keyboard ok) is e) \<and> same_devices e (fold (grab_keyboard ok) is e) \<and>
   ecKernel (fold (grab_keyboard ok) is e) =
     ecKernel e \<union> {i \<in> set is. ok i \<and> \<not> isMouseDevicePath (dPath (hInfo (handle e i))) e} \<and>
   activeMouseDev (fold (grab_keyboard ok) is e) = activeMouseDev e \<and>
   pendingMouse (fold (grab_keyboard ok) is e) = pendingMouse e"
proof (induction "is" arbitrary: e)
  case (Cons i "is")
  let ?e = "grab_keyboard ok i e"
  have i: "i < length (ecDevs e)" using Cons.prems by simp
  note g = grab_keyboard_props [OF Cons.prems(1) i, of ok]
  have "set is \<subseteq> {..<length (ecDevs ?e)}" using Cons.prems g(2) by (simp add: same_devices_def)
  note ih = Cons.IH [OF g(1) this]
  have "{j \<in> set is. ok j \<and> \<not> isMouseDevicePath (dPath (hInfo (handle ?e j))) ?e} =
      {j \<in> set is. ok j \<and> \<not> isMouseDevicePath (dPath (hInfo (handle e j))) e}"
    using isMouseDevicePath_same [OF g(2)] g(2) by (simp add: same_devices_def)
  with ih g same_devices_trans [OF g(2)] show ?case by auto
qed simp

section \<open>Releasing everything\<close>

lemma capture_invD:
  assumes "capture_inv e"
  shows "devices_ok e" and "in_sync e" and "ecKernel e \<subseteq> set (mouseDevs e) \<union> set (kbdDevs e)"
  using assms by (auto simp add: capture_inv_def)

lemma Ungrab_local:
  assumes "in_sync e" and "devices_ok e" and "ecKernel e \<subseteq> set (mouseDevs e) \<union> set (kbdDevs e)"
  shows "ecKernel (Ungrab e) = {}" and "\<not> IsRemote (Ungrab e)" and "activeMouseDev (Ungrab e) = None"
    and "activeKbdDev (Ungrab e) = None" and "pendingMouse (Ungrab e) = None"
    and "in_sync (Ungrab e)" and "devices_ok (Ungrab e)" and "ecPressedKeys (Ungrab e) = ecPressedKeys e"
    and "ecOn (Ungrab e) = ecOn e" and "kbdDevs (Ungrab e) = kbdDevs e" and "mouseDevs (Ungrab e) = mouseDevs e"
proof -
  let ?a = "fold ungrab_device (mouseDevs e) e"
  have m: "set (mouseDevs e) \<subseteq> {..<length (ecDevs e)}" using assms(2) by (simp add: devices_ok_def)
  note a = fold_ungrab [OF assms(1) m]
  have k: "set (kbdDevs ?a) \<subseteq> {..<length (ecDevs ?a)}"
    using assms(2) a by (simp add: devices_ok_def same_devices_def)
  note b = fold_ungrab [OF conjunct1 [OF a] k]
  let ?b = "fold ungrab_device (kbdDevs ?a) ?a"
  have s: "same_devices e ?b" using a b same_devices_trans by blast
  have e: "Ungrab e = (resetPendingMouse (?b\<lparr>IsRemote := False, activeMouseDev := None, activeKbdDev := None\<rparr>))
      \<lparr>ecCursorX := godiv (ecScreenW ?b) 2, ecCursorY := godiv (ecScreenH ?b) 2\<rparr>"
    by (simp add: Ungrab_def Let_def)
  have "in_sync ?b" "devices_ok ?b" using b s devices_ok_same [OF s] assms(2) by auto
  then show "in_sync (Ungrab e)" "devices_ok (Ungrab e)"
    unfolding e by (simp_all add: in_sync_def devices_ok_def resetPendingMouse_def)
  have "ecKernel ?b = ecKernel e - set (mouseDevs e) - set (kbdDevs e)"
    using a b by (auto simp add: same_devices_def)
  then show "ecKernel (Ungrab e) = {}" unfolding e using assms(3) by (auto simp add: resetPendingMouse_def)
  show "\<not> IsRemote (Ungrab e)" "activeMouseDev (Ungrab e) = None" "activeKbdDev (Ungrab e) = None"
    "pendingMouse (Ungrab e) = None" "ecPressedKeys (Ungrab e) = ecPressedKeys e" "ecOn (Ungrab e) = ecOn e"
    "kbdDevs (Ungrab e) = kbdDevs e" "mouseDevs (Ungrab e) = mouseDevs e"
    unfolding e using s by (simp_all add: resetPendingMouse_def same_devices_def)
qed

lemma Ungrab_inv:
  assumes "in_sync e" and "devices_ok e" and "ecKernel e \<subseteq> set (mouseDevs e) \<union> set (kbdDevs e)"
  shows "capture_inv (Ungrab e)"
  using Ungrab_local [OF assms] by (simp add: capture_inv_def)

section \<open>Every step keeps the invariant\<close>

lemma inv_pressed [simp]: "capture_inv (e\<lparr>ecPressedKeys := p\<rparr>) = capture_inv e"
  by (simp add: capture_inv_def devices_ok_def in_sync_def isMouseDevicePath_def)

lemma inv_cursor [simp]:
  "capture_inv (e\<lparr>ecCursorX := x\<rparr>) = capture_inv e" "capture_inv (e\<lparr>ecCursorY := x\<rparr>) = capture_inv e"
  by (simp_all add: capture_inv_def devices_ok_def in_sync_def isMouseDevicePath_def)

lemma inv_pending:
  "IsRemote e \<Longrightarrow> capture_inv (e\<lparr>pendingMouse := p, pendingHits := h, pendingMotion := m, pendingUntil := u\<rparr>) = capture_inv e"
  by (simp add: capture_inv_def devices_ok_def in_sync_def isMouseDevicePath_def)

lemma inv_reset: "capture_inv e \<Longrightarrow> capture_inv (resetPendingMouse e)"
  by (simp add: resetPendingMouse_def capture_inv_def devices_ok_def in_sync_def isMouseDevicePath_def)

text \<open>The decision only changes the pending candidate.\<close>

lemma decide_frame:
  "\<exists>p h m u. snd (decideMouseActivation now s ev e) =
     e\<lparr>pendingMouse := p, pendingHits := h, pendingMotion := m, pendingUntil := u\<rparr>"
proof -
  let ?pf = "\<lambda>e'. e' = e\<lparr>pendingMouse := pendingMouse e', pendingHits := pendingHits e',
      pendingMotion := pendingMotion e', pendingUntil := pendingUntil e'\<rparr>"
  have r: "resetPendingMouse (registerPendingMouse now s ev e) = resetPendingMouse e"
    by (simp add: resetPendingMouse_def registerPendingMouse_def)
  have "?pf e" "?pf (resetPendingMouse e)" "?pf (registerPendingMouse now s ev e)"
    by (simp_all add: resetPendingMouse_def registerPendingMouse_def)
  moreover have "snd (decideMouseActivation now s ev e) \<in>
      {e, resetPendingMouse e, registerPendingMouse now s ev e}"
    by (simp add: decideMouseActivation_def Let_def r)
  ultimately have "?pf (snd (decideMouseActivation now s ev e))" by auto
  then show ?thesis by blast
qed

lemma decide_action:
  assumes "decideMouseActivation now s ev e = (a, e')"
  shows "a = mouseActionActivate \<Longrightarrow> activeMouseDev e = None"
    and "a = mouseActionRebind \<Longrightarrow> \<exists>m. activeMouseDev e = Some m \<and> m \<noteq> s"
  using assms by (auto simp add: decideMouseActivation_def remoteMouseActivationAction_def Let_def split: if_splits)

lemma grabMouse_inv:
  assumes "capture_inv e" and "IsRemote e" and "s \<in> set (mouseDevs e)"
    and "\<forall>i\<in>ecKernel e. i \<in> set (kbdDevs e) \<and> \<not> isMouseDevicePath (dPath (hInfo (handle e i))) e"
  shows "capture_inv (grabMouse ok s e)" and "same_devices e (grabMouse ok s e)"
    and "activeMouseDev (grabMouse ok s e) = Some s"
proof -
  let ?e = "e\<lparr>activeMouseDev := Some s\<rparr>"
  have s: "s < length (ecDevs e)" using assms(1,3) by (auto simp add: capture_inv_def devices_ok_def)
  have i1: "capture_inv ?e"
    using assms by (auto simp add: capture_inv_def devices_ok_def in_sync_def isMouseDevicePath_def)
  note g = set_grabbed_same [of ?e s True]
  have "in_sync (set_grabbed s True ?e)" using i1 s by (intro set_grabbed_sync) (simp_all add: capture_inv_def)
  then have i2: "capture_inv (set_grabbed s True ?e)"
    using i1 assms isMouseDevicePath_same [OF g] devices_ok_same [OF g] g
    by (auto simp add: capture_inv_def same_devices_def)
  show "capture_inv (grabMouse ok s e)" using i1 i2 by (simp add: grabMouse_def Let_def)
  have "same_devices e ?e" by (simp add: same_devices_def)
  then show "same_devices e (grabMouse ok s e)"
    using same_devices_trans [OF _ g] by (simp add: grabMouse_def Let_def)
  show "activeMouseDev (grabMouse ok s e) = Some s" by (simp add: grabMouse_def Let_def)
qed

lemma ungrabMouse_inv:
  assumes "capture_inv e" and "IsRemote e"
  shows "capture_inv (ungrabMouse (activeMouseDev e) e)" and "same_devices e (ungrabMouse (activeMouseDev e) e)"
    and "\<forall>i\<in>ecKernel (ungrabMouse (activeMouseDev e) e). i \<in> set (kbdDevs e) \<and>
           \<not> isMouseDevicePath (dPath (hInfo (handle e i))) e"
proof -
  have "capture_inv (ungrabMouse (activeMouseDev e) e) \<and> same_devices e (ungrabMouse (activeMouseDev e) e) \<and>
    (\<forall>i\<in>ecKernel (ungrabMouse (activeMouseDev e) e). i \<in> set (kbdDevs e) \<and>
           \<not> isMouseDevicePath (dPath (hInfo (handle e i))) e)"
  proof (cases "activeMouseDev e")
    case None
    then show ?thesis using assms by (auto simp add: ungrabMouse_def capture_inv_def)
  next
    case (Some m)
    have m: "m < length (ecDevs e)" using assms(1) Some by (auto simp add: capture_inv_def devices_ok_def)
    note g = set_grabbed_same [of e m False]
    have "in_sync (set_grabbed m False e)" using assms m by (intro set_grabbed_sync) (simp_all add: capture_inv_def)
    then have "capture_inv (set_grabbed m False e)"
      using assms isMouseDevicePath_same [OF g] devices_ok_same [OF g] g
      by (auto simp add: capture_inv_def same_devices_def)
    moreover have "\<not> hGrabbed (handle e m) \<Longrightarrow> m \<notin> ecKernel e"
      using assms(1) m by (auto simp add: capture_inv_def in_sync_def)
    ultimately show ?thesis using Some assms g
      by (auto simp add: ungrabMouse_def capture_inv_def)
  qed
  then show "capture_inv (ungrabMouse (activeMouseDev e) e)" and "same_devices e (ungrabMouse (activeMouseDev e) e)"
    and "\<forall>i\<in>ecKernel (ungrabMouse (activeMouseDev e) e). i \<in> set (kbdDevs e) \<and>
           \<not> isMouseDevicePath (dPath (hInfo (handle e i))) e" by blast+
qed

lemma pending_same: "same_devices e (e\<lparr>pendingMouse := p, pendingHits := h, pendingMotion := m, pendingUntil := u\<rparr>)"
  by (simp add: same_devices_def)

lemma activate_mouse_inv:
  assumes "capture_inv e" and "IsRemote e" and "s \<in> set (mouseDevs e)"
  shows "capture_inv (activate_mouse ok now s ev e)" and "same_devices e (activate_mouse ok now s ev e)"
proof -
  obtain a e1 where d: "decideMouseActivation now s ev e = (a, e1)" by fastforce
  obtain p h m u where e1: "e1 = e\<lparr>pendingMouse := p, pendingHits := h, pendingMotion := m, pendingUntil := u\<rparr>"
    using decide_frame [of now s ev e] d by auto
  have s1: "same_devices e e1" unfolding e1 by (rule pending_same)
  have i1: "capture_inv e1" "IsRemote e1" "s \<in> set (mouseDevs e1)"
    unfolding e1 using assms by (simp_all add: inv_pending)
  have act: "activeMouseDev e1 = activeMouseDev e" unfolding e1 by simp
  have "capture_inv (activate_mouse ok now s ev e) \<and> same_devices e (activate_mouse ok now s ev e)"
  proof (cases a)
    case mouseActionNone
    then show ?thesis using d i1 s1 by (simp add: activate_mouse_def)
  next
    case mouseActionActivate
    then have "\<forall>i\<in>ecKernel e1. i \<in> set (kbdDevs e1) \<and> \<not> isMouseDevicePath (dPath (hInfo (handle e1 i))) e1"
      using decide_action(1) [OF d] act i1(1) by (auto simp add: capture_inv_def)
    note g = grabMouse_inv [OF i1 this, of ok]
    show ?thesis using g mouseActionActivate d same_devices_trans [OF s1] by (simp add: activate_mouse_def)
  next
    case mouseActionRebind
    let ?e2 = "ungrabMouse (activeMouseDev e1) e1"
    note u = ungrabMouse_inv [OF i1(1,2)]
    have r: "IsRemote ?e2" "s \<in> set (mouseDevs ?e2)" using u(2) i1 by (simp_all add: same_devices_def)
    have k: "\<forall>i\<in>ecKernel ?e2. i \<in> set (kbdDevs ?e2) \<and> \<not> isMouseDevicePath (dPath (hInfo (handle ?e2 i))) ?e2"
      using u(3) isMouseDevicePath_same [OF u(2)] u(2) by (simp add: same_devices_def)
    note g = grabMouse_inv [OF u(1) r k, of ok]
    show ?thesis using g mouseActionRebind d same_devices_trans [OF same_devices_trans [OF s1 u(2)]]
      by (simp add: activate_mouse_def)
  qed
  then show "capture_inv (activate_mouse ok now s ev e)" and "same_devices e (activate_mouse ok now s ev e)" by blast+
qed

lemma mouse_loop_step_inv:
  assumes "capture_inv e" and "dev \<in> set (mouseDevs e)"
  shows "capture_inv (fst (mouse_loop_step ok now dev ev e))"
  using assms activate_mouse_inv(1) by (simp add: mouse_loop_step_def Let_def handleLocalMouseEvent_def)

text \<open>Entering remote mode from the keyboard.\<close>

lemma Grab_None:
  assumes "capture_inv e" and "\<not> IsRemote e"
  shows "capture_inv (fst (Grab ok order None e))" and "IsRemote (fst (Grab ok order None e))"
    and "ecKernel (fst (Grab ok order None e)) =
      {i \<in> set (kbdDevs e). ok i \<and> \<not> isMouseDevicePath (dPath (hInfo (handle e i))) e}"
    and "ecPressedKeys (fst (Grab ok order None e)) = ecPressedKeys e - set order"
    and "activeMouseDev (fst (Grab ok order None e)) = None" and "activeKbdDev (fst (Grab ok order None e)) = None"
    and "ecOn (fst (Grab ok order None e)) = ecOn e"
proof -
  let ?r = "resetPendingMouse e"
  let ?g = "fold (grab_keyboard ok) (kbdDevs ?r) ?r"
  have r: "capture_inv ?r" using assms(1) by (rule inv_reset)
  have rs: "same_devices e ?r" by (simp add: resetPendingMouse_def same_devices_def)
  have k: "set (kbdDevs ?r) \<subseteq> {..<length (ecDevs ?r)}" using r by (simp add: capture_inv_def devices_ok_def)
  have sy: "in_sync ?r" using r by (simp add: capture_inv_def)
  note f = fold_grab_keyboard [OF sy k, of ok]
  have gs: "same_devices e ?g" using f same_devices_trans [OF rs] by blast
  have kr: "ecKernel ?r = {}" "activeMouseDev ?r = None" "activeKbdDev e = None"
    using assms by (simp_all add: resetPendingMouse_def capture_inv_def)
  have path: "isMouseDevicePath p ?r = isMouseDevicePath p e" "isMouseDevicePath p ?g = isMouseDevicePath p e" for p
    using isMouseDevicePath_same rs gs by blast+
  have ker: "ecKernel ?g = {i \<in> set (kbdDevs e). ok i \<and> \<not> isMouseDevicePath (dPath (hInfo (handle e i))) e}"
    using f kr path rs by (simp add: same_devices_def)
  have G: "fst (Grab ok order None e) = ?g\<lparr>IsRemote := True, ecPressedKeys := ecPressedKeys ?g - set order\<rparr>"
    by (simp add: Grab_def Let_def)
  show "ecKernel (fst (Grab ok order None e)) =
      {i \<in> set (kbdDevs e). ok i \<and> \<not> isMouseDevicePath (dPath (hInfo (handle e i))) e}"
    unfolding G using ker by simp
  show "IsRemote (fst (Grab ok order None e))" "activeMouseDev (fst (Grab ok order None e)) = None"
    "activeKbdDev (fst (Grab ok order None e)) = None" "ecPressedKeys (fst (Grab ok order None e)) = ecPressedKeys e - set order"
    "ecOn (fst (Grab ok order None e)) = ecOn e"
    unfolding G using f kr gs by (simp_all add: same_devices_def)
  have mp: "isMouseDevicePath p (?g\<lparr>IsRemote := True, ecPressedKeys := q\<rparr>) = isMouseDevicePath p e" for p q
    using path by (simp add: isMouseDevicePath_def)
  show "capture_inv (fst (Grab ok order None e))"
    unfolding G capture_inv_def mp
    using f kr gs ker devices_ok_same [OF gs] assms(1)
    by (auto simp add: capture_inv_def same_devices_def devices_ok_def in_sync_def)
qed

lemma mouseSource_in: "mouseSourceForKeyboardButton trim lower dev e = Some s \<Longrightarrow> s \<in> set (mouseDevs e)"
proof -
  assume s: "mouseSourceForKeyboardButton trim lower dev e = Some s"
  let ?m = "filter (\<lambda>m. isSamePhysicalDevice trim lower (hInfo (handle e dev)) (hInfo (handle e m))) (mouseDevs e)"
  have "s \<in> set ?m"
    using s unfolding mouseSourceForKeyboardButton_def
    by (auto split: if_splits list.splits option.splits dest!: find_Some_iff [THEN iffD1] simp del: set_filter
        intro: nth_mem)
  then show ?thesis by simp
qed

lemma keyboard_mouse_button_inv:
  assumes "capture_inv e"
  shows "capture_inv (fst (keyboard_mouse_button trim lower ok now dev ev e))"
proof (cases "IsRemote e \<and> mouseSourceForKeyboardButton trim lower dev e \<noteq> None")
  case True
  then obtain s where s: "mouseSourceForKeyboardButton trim lower dev e = Some s" by blast
  note mouseSource_in [OF s]
  then show ?thesis using True s assms activate_mouse_inv(1)
    by (simp add: keyboard_mouse_button_def Let_def)
qed (use assms in \<open>auto simp add: keyboard_mouse_button_def\<close>)

text \<open>Grabbing and releasing leave the callbacks.\<close>

lemma ecOn_fold:
  "(\<And>i e. ecOn (f i e) = ecOn e) \<Longrightarrow> ecOn (fold f is e) = ecOn e"
  by (induction "is" arbitrary: e) auto

lemma ecOn_Ungrab: "ecOn (Ungrab e) = ecOn e"
proof -
  have "ecOn (fold ungrab_device is e) = ecOn e" for "is" e
    by (rule ecOn_fold) (simp add: ungrab_device_def)
  then show ?thesis by (simp add: Ungrab_def Let_def resetPendingMouse_def)
qed

lemma ecOn_Grab: "ecOn (fst (Grab ok order m e)) = ecOn e"
proof -
  have "ecOn (fold (grab_keyboard ok) is e) = ecOn e" for "is" e
    by (rule ecOn_fold) (simp add: grab_keyboard_def)
  then show ?thesis by (simp add: Grab_def Let_def resetPendingMouse_def split: option.split)
qed

definition pressed_after :: "InputEvent \<Rightarrow> EvdevCapture \<Rightarrow> u16 set" where
  "pressed_after ev e = (if evValue ev = 1 then insert (evCode ev) (ecPressedKeys e)
                         else ecPressedKeys e - {evCode ev})"

text \<open>The four outcomes of a key event that is not a mouse button.\<close>

definition shortcut :: "InputEvent \<Rightarrow> EvdevCapture \<Rightarrow> bool" where
  "shortcut ev e \<longleftrightarrow> (evCode ev = 59 \<or> evCode ev = 60) \<and> evValue ev = 1 \<and>
     (125 \<in> ecPressedKeys e \<or> 126 \<in> ecPressedKeys e)"

definition pause_call :: "InputEvent \<Rightarrow> EvdevCapture \<Rightarrow> callback list" where
  "pause_call ev e = (if evCode ev = 119 \<and> evValue ev = 1 then call e OnEmergency Emergency else [])"

lemma keyboard_loop_step_eq:
  assumes "evType ev = EV_KEY" and "evValue ev \<noteq> 2" and "\<not> isMouseButtonCode (evCode ev)"
  shows "keyboard_loop_step trim lower ok order now dev ev e =
    (let e1 = e\<lparr>ecPressedKeys := pressed_after ev e\<rparr> in
     if shortcut ev e then
       (if IsRemote e then (Ungrab e1, call e OnReturn ReturnToLocal)
        else (fst (Grab ok order None e1), snd (Grab ok order None e1) @ call e OnEdgeHit EdgeHit))
     else if IsRemote e then
       (if activeKbdDev e = None \<and> evValue ev = 1
        then (e1\<lparr>activeKbdDev := Some dev\<rparr>, pause_call ev e @ call e OnKeyEvent (KeyEvent (evCode ev) True))
        else (e1, pause_call ev e @
               (if activeKbdDev e = Some dev then call e OnKeyEvent (KeyEvent (evCode ev) (evValue ev = 1)) else [])))
     else (e1, pause_call ev e))"
proof -
  have w: "hasWin (e\<lparr>ecPressedKeys := pressed_after ev e\<rparr>) \<longleftrightarrow>
      125 \<in> ecPressedKeys e \<or> 126 \<in> ecPressedKeys e" if "evCode ev = 59 \<or> evCode ev = 60"
    using that by (auto simp add: hasWin_def pressed_after_def)
  have p: "(if evValue ev = 1 then insert (evCode ev) (ecPressedKeys e) else ecPressedKeys e - {evCode ev})
      = pressed_after ev e" by (simp add: pressed_after_def)
  have c: "call (e\<lparr>ecPressedKeys := q\<rparr>) f x = call e f x" "call (e\<lparr>ecPressedKeys := q, activeKbdDev := k\<rparr>) f x = call e f x"
    "call (fst (Grab ok order None (e\<lparr>ecPressedKeys := q\<rparr>))) f x = call e f x" for q k f x
    by (simp_all add: call_def ecOn_Grab)
  show ?thesis
    using assms w unfolding keyboard_loop_step_def Let_def p
    by (cases "evCode ev = 59"; cases "evCode ev = 60"; cases "evCode ev = 119")
      (auto simp add: shortcut_def pause_call_def local_shortcut_def c split_beta)
qed

lemma keyboard_loop_step_inv:
  assumes "capture_inv e" and "dev \<in> set (kbdDevs e)"
  shows "capture_inv (fst (keyboard_loop_step trim lower ok order now dev ev e))"
proof (cases "evType ev = EV_KEY \<and> evValue ev \<noteq> 2")
  case False
  then show ?thesis using assms by (auto simp add: keyboard_loop_step_def)
next
  case True
  show ?thesis
  proof (cases "isMouseButtonCode (evCode ev)")
    case True
    then show ?thesis using assms keyboard_mouse_button_inv
      by (simp add: keyboard_loop_step_def)
  next
    case False
    let ?e1 = "e\<lparr>ecPressedKeys := pressed_after ev e\<rparr>"
    have i1: "capture_inv ?e1" using assms(1) by simp
    have "capture_inv (?e1\<lparr>activeKbdDev := Some dev\<rparr>)" if "IsRemote e"
      using i1 assms(2) that by (auto simp add: capture_inv_def devices_ok_def in_sync_def isMouseDevicePath_def)
    moreover have "capture_inv (Ungrab ?e1)" using capture_invD [OF i1] by (intro Ungrab_inv)
    moreover have "capture_inv (fst (Grab ok order None ?e1))" if "\<not> IsRemote e"
      using Grab_None(1) [OF i1] that by simp
    ultimately show ?thesis using True False i1 by (simp add: keyboard_loop_step_eq Let_def)
  qed
qed

section \<open>Steps of the running capture\<close>

text \<open>
  An event of a mouse, an event of a keyboard, and \<open>Ungrab\<close> called by the rest of the program.
  \<open>Grab\<close> meets every pressed key once.
\<close>

inductive capture_step ::
  "(gostring \<Rightarrow> gostring) \<Rightarrow> (gostring \<Rightarrow> gostring) \<Rightarrow> EvdevCapture \<Rightarrow> callback list \<Rightarrow> EvdevCapture \<Rightarrow> bool"
  for trim lower where
  mouse: "dev \<in> set (mouseDevs e) \<Longrightarrow> mouse_loop_step ok now dev ev e = (e', cs) \<Longrightarrow>
     capture_step trim lower e cs e'"
| keyboard: "dev \<in> set (kbdDevs e) \<Longrightarrow> set order = pressed_after ev e \<Longrightarrow> distinct order \<Longrightarrow>
     keyboard_loop_step trim lower ok order now dev ev e = (e', cs) \<Longrightarrow> capture_step trim lower e cs e'"
| ungrab: "capture_step trim lower e [] (Ungrab e)"

inductive capture_run ::
  "(gostring \<Rightarrow> gostring) \<Rightarrow> (gostring \<Rightarrow> gostring) \<Rightarrow> EvdevCapture \<Rightarrow> callback list \<Rightarrow> EvdevCapture \<Rightarrow> bool"
  for trim lower where
  nil: "capture_run trim lower e [] e"
| step: "capture_run trim lower e cs e1 \<Longrightarrow> capture_step trim lower e1 ds e2 \<Longrightarrow>
     capture_run trim lower e (cs @ ds) e2"

lemma capture_step_inv: "capture_step trim lower e cs e' \<Longrightarrow> capture_inv e \<Longrightarrow> capture_inv e'"
proof (induction rule: capture_step.induct)
  case (mouse dev e ok now ev e' cs)
  then show ?case using mouse_loop_step_inv [of e dev ok now ev] by simp
next
  case (keyboard dev e order ev ok now e' cs)
  then show ?case using keyboard_loop_step_inv [of e dev trim lower ok order now ev] by simp
next
  case (ungrab e)
  then show ?case using capture_invD [of e] by (intro Ungrab_inv)
qed

lemma capture_run_inv: "capture_run trim lower e cs e' \<Longrightarrow> capture_inv e \<Longrightarrow> capture_inv e'"
  by (induction rule: capture_run.induct) (auto intro: capture_step_inv)

section \<open>Opening the devices\<close>

lemma NewEvdevCapture_inv: "capture_inv (NewEvdevCapture w h) \<and> \<not> IsRemote (NewEvdevCapture w h)"
  by (simp add: NewEvdevCapture_def capture_inv_def devices_ok_def in_sync_def)

lemma add_inv:
  assumes "capture_inv e" and "\<not> IsRemote e"
  shows "capture_inv (add_mouse info e) \<and> \<not> IsRemote (add_mouse info e)"
    and "capture_inv (add_kbd info e) \<and> \<not> IsRemote (add_kbd info e)"
proof -
  have "\<forall>i<length (ecDevs e). \<not> hGrabbed (handle e i)" "ecKernel e = {}"
    using assms by (auto simp add: capture_inv_def in_sync_def)
  moreover have "length (ecDevs e) \<notin> set (mouseDevs e @ kbdDevs e)"
    using assms by (auto simp add: capture_inv_def devices_ok_def)
  ultimately show "capture_inv (add_mouse info e) \<and> \<not> IsRemote (add_mouse info e)"
    "capture_inv (add_kbd info e) \<and> \<not> IsRemote (add_kbd info e)"
    using assms
    by (auto simp add: capture_inv_def devices_ok_def in_sync_def add_mouse_def add_kbd_def new_handle_def
        nth_append less_Suc_eq)
qed

lemma fold_add_inv:
  assumes "capture_inv e" and "\<not> IsRemote e"
  shows "capture_inv (fold add_mouse is e) \<and> \<not> IsRemote (fold add_mouse is e)"
    and "capture_inv (fold add_kbd is e) \<and> \<not> IsRemote (fold add_kbd is e)"
  using assms by (induction "is" arbitrary: e) (use add_inv in auto)

lemma DiscoverAndOpen_inv:
  assumes "capture_inv e" and "\<not> IsRemote e" and "DiscoverAndOpen glob nodes opens e = (r, e')"
  shows "capture_inv e' \<and> \<not> IsRemote e'"
  using assms fold_add_inv
  by (fastforce simp add: DiscoverAndOpen_def Let_def split: option.splits if_splits)

lemma Open_inv:
  assumes "capture_inv e" and "\<not> IsRemote e" and "Open base nodes m k e = (r, e')"
  shows "capture_inv e' \<and> \<not> IsRemote e'"
proof -
  have "capture_inv (e\<lparr>mouseDevs := [], kbdDevs := []\<rparr>) \<and> \<not> IsRemote (e\<lparr>mouseDevs := [], kbdDevs := []\<rparr>)"
    using assms(1,2) by (auto simp add: capture_inv_def devices_ok_def in_sync_def)
  then show ?thesis using assms add_inv by (auto simp add: Open_def split: option.splits)
qed

section \<open>Properties\<close>

text \<open>After the devices were opened, through any sequence of mouse events, keyboard events and
  releases, what the kernel has grabbed is what the handles say; in local mode that is nothing;
  in remote mode it is at most the active mouse, and keyboards that are not also a mouse.\<close>

lemma capture_grabs:
  assumes "DiscoverAndOpen glob nodes opens (NewEvdevCapture w h) = (r, e0)"
    and "capture_run trim lower (e0\<lparr>ecOn := cbs\<rparr>) cs e"
  shows "(\<forall>i<length (ecDevs e). hGrabbed (handle e i) \<longleftrightarrow> i \<in> ecKernel e) \<and>
    (\<not> IsRemote e \<longrightarrow> ecKernel e = {} \<and> activeMouseDev e = None \<and> activeKbdDev e = None) \<and>
    (\<forall>i\<in>ecKernel e. activeMouseDev e = Some i \<or>
       i \<in> set (kbdDevs e) \<and> \<not> isMouseDevicePath (dPath (hInfo (handle e i))) e)"
proof -
  have "capture_inv (e0\<lparr>ecOn := cbs\<rparr>)"
    using DiscoverAndOpen_inv [OF _ _ assms(1)] NewEvdevCapture_inv
    by (simp add: capture_inv_def devices_ok_def in_sync_def isMouseDevicePath_def)
  from capture_run_inv [OF assms(2) this] show ?thesis by (simp add: capture_inv_def in_sync_def)
qed

text \<open>Two devices for the examples: a mouse, and a keyboard with all keys.\<close>

definition mouse_node :: Node where
  "mouse_node = \<lparr>nBits = (\<lambda>t. if t = 0 then Some [0x06] else if t = 2 then Some [0x03] else Some []),
     nName = Some (gostr ''mouse''), nPhys = Some (gostr ''usb-1/input0'')\<rparr>"

definition kbd_node :: Node where
  "kbd_node = \<lparr>nBits = (\<lambda>t. if t = 0 then Some [0x02] else Some (replicate 16 0xFF)),
     nName = Some (gostr ''kbd''), nPhys = Some (gostr ''usb-2/input0'')\<rparr>"

definition sample_nodes :: "gostring \<Rightarrow> Node option" where
  "sample_nodes p = (if p = [1] then Some mouse_node else if p = [2] then Some kbd_node else None)"

definition sample_info :: "gostring \<Rightarrow> DeviceInfo" where
  "sample_info p = \<lparr>dPath = p, dName = [], dPhys = [],
     dCaps = \<lparr>EvBits = [], RelBits = [], AbsBits = [], KeyBits = []\<rparr>,
     dIsMouse = True, dIsKeyboard = True, dIsTouchpad = False\<rparr>"

text \<open>A capture with one mouse (handle 0) and one keyboard (handle 1), in remote mode if \<open>r\<close>.\<close>

definition sample_capture :: "bool \<Rightarrow> EvdevCapture" where
  "sample_capture r = (add_kbd (sample_info [2]) (add_mouse (sample_info [1]) (NewEvdevCapture 1920 1080)))
     \<lparr>ecOn := UNIV, IsRemote := r\<rparr>"

lemma sample_capture_inv: "capture_inv (sample_capture r)"
proof -
  let ?e = "add_kbd (sample_info [2]) (add_mouse (sample_info [1]) (NewEvdevCapture 1920 1080))"
  have "capture_inv ?e \<and> \<not> IsRemote ?e"
    using add_inv NewEvdevCapture_inv by blast
  then show ?thesis
    by (simp add: sample_capture_def capture_inv_def devices_ok_def in_sync_def isMouseDevicePath_def)
qed

abbreviation (input) sample_event :: "u16 \<Rightarrow> i32 \<Rightarrow> InputEvent" where
  "sample_event code v \<equiv> event EV_KEY code v"

lemma quiet_keyboard:
  assumes "capture_inv e" and "\<not> IsRemote e"
  shows "snd (keyboard_loop_step trim lower ok order now dev ev e) =
      (if evType ev \<noteq> EV_KEY \<or> evValue ev = 2 \<or> isMouseButtonCode (evCode ev) then []
       else if shortcut ev e
            then concat (map (\<lambda>code. call e OnKeyEvent (KeyEvent code False)) order) @ call e OnEdgeHit EdgeHit
            else pause_call ev e)"
proof -
  have "ecOn (fold (grab_keyboard ok) is b) = ecOn b" for "is" b
    by (rule ecOn_fold) (simp add: grab_keyboard_def)
  then have g: "snd (Grab ok order None (e\<lparr>ecPressedKeys := q\<rparr>)) =
      concat (map (\<lambda>code. call e OnKeyEvent (KeyEvent code False)) order)" for q
    by (simp add: Grab_def Let_def call_def resetPendingMouse_def)
  show ?thesis
  proof (cases "evType ev \<noteq> EV_KEY \<or> evValue ev = 2 \<or> isMouseButtonCode (evCode ev)")
    case True
    then show ?thesis using assms
      by (auto simp add: keyboard_loop_step_def keyboard_mouse_button_def)
  next
    case False
    then have k: "evType ev = EV_KEY" "evValue ev \<noteq> 2" "\<not> isMouseButtonCode (evCode ev)" by simp_all
    show ?thesis using assms k g
      by (simp add: keyboard_loop_step_eq [OF k] Let_def)
  qed
qed

text \<open>In local mode nothing is forwarded: a mouse event makes no callback, and a keyboard event
  only the emergency call for the pause key or, for the switch shortcut, the releases of the held
  keys followed by the call for the edge.\<close>

lemma local_mode_quiet:
  assumes "capture_inv e" and "\<not> IsRemote e"
  shows "snd (mouse_loop_step ok now dev ev e) = [] \<and>
    snd (keyboard_loop_step trim lower ok order now dev ev e) =
      (if evType ev \<noteq> EV_KEY \<or> evValue ev = 2 \<or> isMouseButtonCode (evCode ev) then []
       else if shortcut ev e
            then concat (map (\<lambda>code. call e OnKeyEvent (KeyEvent code False)) order) @ call e OnEdgeHit EdgeHit
            else pause_call ev e)"
  using assms quiet_keyboard [OF assms] by (simp add: mouse_loop_step_def)

text \<open>A press of the pause key on any keyboard, in either mode and whatever is grabbed, makes
  the emergency call, before any other call.\<close>

lemma pause_is_emergency:
  assumes "evType ev = EV_KEY" and "evCode ev = 119" and "evValue ev = 1" and "OnEmergency \<in> ecOn e"
  shows "\<exists>rest. snd (keyboard_loop_step trim lower ok order now dev ev e) = Emergency # rest"
proof -
  have k: "evValue ev \<noteq> 2" "\<not> isMouseButtonCode (evCode ev)" using assms by (simp_all add: isMouseButtonCode_def)
  have "\<not> shortcut ev e" using assms by (simp add: shortcut_def)
  then show ?thesis using assms
    by (simp add: keyboard_loop_step_eq [OF assms(1) k] Let_def pause_call_def call_def)
qed

text \<open>C24: In remote mode a mouse event makes calls only if its mouse is the active one, which it
  then is after the event too, and a key event is forwarded only from the active keyboard; the
  first press makes a keyboard active.\<close>

theorem only_active_forwards:
  assumes "IsRemote e"
  shows "(snd (mouse_loop_step ok now dev ev e) = [] \<or>
      activeMouseDev (fst (mouse_loop_step ok now dev ev e)) = Some dev) \<and>
    (KeyEvent code p \<notin> set (snd (keyboard_loop_step trim lower ok order now kbd ev e)) \<or>
      code = evCode ev \<and> p = (evValue ev = 1) \<and>
      activeKbdDev (fst (keyboard_loop_step trim lower ok order now kbd ev e)) = Some kbd \<and>
      (activeKbdDev e = Some kbd \<or> activeKbdDev e = None \<and> evValue ev = 1))"
proof
  show "snd (mouse_loop_step ok now dev ev e) = [] \<or>
      activeMouseDev (fst (mouse_loop_step ok now dev ev e)) = Some dev"
    using assms by (simp add: mouse_loop_step_def Let_def)
  show "KeyEvent code p \<notin> set (snd (keyboard_loop_step trim lower ok order now kbd ev e)) \<or>
      code = evCode ev \<and> p = (evValue ev = 1) \<and>
      activeKbdDev (fst (keyboard_loop_step trim lower ok order now kbd ev e)) = Some kbd \<and>
      (activeKbdDev e = Some kbd \<or> activeKbdDev e = None \<and> evValue ev = 1)"
  proof (cases "evType ev \<noteq> EV_KEY \<or> evValue ev = 2 \<or> isMouseButtonCode (evCode ev)")
    case True
    then show ?thesis using assms
      by (auto simp add: keyboard_loop_step_def keyboard_mouse_button_def Let_def call_def split: option.split)
  next
    case False
    then have k: "evType ev = EV_KEY" "evValue ev \<noteq> 2" "\<not> isMouseButtonCode (evCode ev)" by simp_all
    show ?thesis using assms
      by (auto simp add: keyboard_loop_step_eq [OF k] Let_def pause_call_def call_def)
  qed
qed

theorem only_active_forwards_witness:
  "KeyEvent 30 True \<in> set (snd (keyboard_loop_step id id (\<lambda>_. True) [] 0 1 (sample_event 30 1) (sample_capture True)))
   \<and> activeKbdDev (fst (keyboard_loop_step id id (\<lambda>_. True) [] 0 1 (sample_event 30 1) (sample_capture True))) = Some 1"
proof -
  have r: "IsRemote (sample_capture True)" by (simp add: sample_capture_def)
  have "KeyEvent 30 True \<in> set (snd (keyboard_loop_step id id (\<lambda>_. True) [] 0 1 (sample_event 30 1) (sample_capture True)))"
    by (simp add: keyboard_loop_step_def isMouseButtonCode_def sample_capture_def add_kbd_def add_mouse_def
        NewEvdevCapture_def Let_def call_def)
  with only_active_forwards [OF r, of "\<lambda>_. True" 0 1 "sample_event 30 1" 30 True id id "[]" 1] show ?thesis by auto
qed

text \<open>Without a press of a mouse button, a mouse becomes the active one only by a motion that
  follows an earlier motion of the same mouse within the intent window, and only when the
  magnitudes of the motions since the candidate was observed add up to at least four.\<close>

lemma motion_needs_two:
  assumes "activeMouseDev (activate_mouse ok now s ev e) \<noteq> activeMouseDev e"
  shows "isMouseButtonPress ev \<or>
    evType ev = EV_REL \<and> pendingMouse e = Some s \<and> \<not> time_after now (pendingUntil e) \<and>
    4 \<le> sint (pendingMotion e + absInt (evValue ev)) \<and> 2 \<le> sint (pendingHits e + 1)"
proof (rule ccontr)
  assume n: "\<not> ?thesis"
  obtain a e1 where d: "decideMouseActivation now s ev e = (a, e1)" by fastforce
  have "a = mouseActionNone"
    using d n
    by (auto simp add: decideMouseActivation_def remoteMouseActivationAction_def isIntentionalRemoteMouseEvent_def
        isMouseButtonPress_def registerPendingMouse_def Let_def split: if_splits)
  moreover have "activeMouseDev e1 = activeMouseDev e" using decide_frame [of now s ev e] d by auto
  ultimately show False using assms d by (simp add: activate_mouse_def)
qed

text \<open>C23: The switch shortcut (a Win key held, F1 or F2 pressed) toggles the mode: from remote mode
  everything is released; from local mode all keyboards that can be and are not also a mouse are
  grabbed, a release is forwarded for every held key, and no key counts as held any more.\<close>

theorem shortcut_toggles:
  assumes "capture_inv e" and "evType ev = EV_KEY" and "shortcut ev e"
    and "set order = pressed_after ev e"
    and "keyboard_loop_step trim lower ok order now dev ev e = (e', cs)"
  shows "(IsRemote e' \<longleftrightarrow> \<not> IsRemote e) \<and> activeMouseDev e' = None \<and> activeKbdDev e' = None \<and>
    ecKernel e' = (if IsRemote e then {}
       else {i \<in> set (kbdDevs e). ok i \<and> \<not> isMouseDevicePath (dPath (hInfo (handle e i))) e}) \<and>
    (IsRemote e \<or> ecPressedKeys e' = {} \<and>
       cs = concat (map (\<lambda>code. call e OnKeyEvent (KeyEvent code False)) order) @ call e OnEdgeHit EdgeHit)"
proof -
  have k: "evValue ev \<noteq> 2" "\<not> isMouseButtonCode (evCode ev)"
    using assms(3) by (auto simp add: shortcut_def isMouseButtonCode_def)
  let ?e1 = "e\<lparr>ecPressedKeys := pressed_after ev e\<rparr>"
  have i1: "capture_inv ?e1" using assms(1) by simp
  show ?thesis
  proof (cases "IsRemote e")
    case True
    then have e': "e' = Ungrab ?e1"
      using assms(3,5) by (simp add: keyboard_loop_step_eq [OF assms(2) k] Let_def)
    show ?thesis using Ungrab_local [of ?e1] capture_invD [OF i1] True unfolding e' by simp
  next
    case False
    then have e': "e' = fst (Grab ok order None ?e1)"
      using assms(3,5) by (simp add: keyboard_loop_step_eq [OF assms(2) k] Let_def)
    have "cs = snd (keyboard_loop_step trim lower ok order now dev ev e)" using assms(5) by simp
    also have "\<dots> = concat (map (\<lambda>code. call e OnKeyEvent (KeyEvent code False)) order) @ call e OnEdgeHit EdgeHit"
      using quiet_keyboard [OF assms(1) False] assms(2,3) k by simp
    finally have c: "cs = concat (map (\<lambda>code. call e OnKeyEvent (KeyEvent code False)) order) @ call e OnEdgeHit EdgeHit" .
    have m: "isMouseDevicePath p ?e1 = isMouseDevicePath p e" for p by (simp add: isMouseDevicePath_def)
    have "\<not> IsRemote ?e1" using False by simp
    note g = Grab_None [OF i1 this, of ok order]
    show ?thesis using g False assms(4) c unfolding e' by (simp add: m)
  qed
qed

theorem shortcut_toggles_witness:
  "IsRemote (fst (keyboard_loop_step id id (\<lambda>_. True) [125, 59] 0 1 (sample_event 59 1)
     ((sample_capture False)\<lparr>ecPressedKeys := {125}\<rparr>)))"
proof -
  let ?e = "(sample_capture False)\<lparr>ecPressedKeys := {125}\<rparr>"
  obtain e' cs where s: "keyboard_loop_step id id (\<lambda>_. True) [125, 59] 0 1 (sample_event 59 1) ?e = (e', cs)"
    by fastforce
  have "capture_inv ?e" using sample_capture_inv by simp
  moreover have "shortcut (sample_event 59 1) ?e" by (simp add: shortcut_def)
  moreover have "set [125, 59] = pressed_after (sample_event 59 1) ?e" by (auto simp add: pressed_after_def)
  moreover have "\<not> IsRemote ?e" by (simp add: sample_capture_def)
  ultimately show ?thesis using shortcut_toggles [OF _ _ _ _ s] s by simp
qed

text \<open>C37: Leaving remote mode by the shortcut leaves the Win key pressed on the other machine: its
  press was forwarded, and neither the switch nor the later release of the keys forwards a
  release for it.\<close>

theorem win_key_stays_down:
  assumes "capture_inv e" and "IsRemote e" and "activeKbdDev e = Some dev" and "OnKeyEvent \<in> ecOn e"
    and "keyboard_loop_step trim lower ok o1 t1 dev (sample_event 125 1) e = (e1, c1)"
    and "keyboard_loop_step trim lower ok o2 t2 dev (sample_event 59 1) e1 = (e2, c2)"
    and "keyboard_loop_step trim lower ok o3 t3 dev (sample_event 59 0) e2 = (e3, c3)"
    and "keyboard_loop_step trim lower ok o4 t4 dev (sample_event 125 0) e3 = (e4, c4)"
  shows "c1 = [KeyEvent 125 True] \<and> \<not> IsRemote e4 \<and> set (c2 @ c3 @ c4) \<subseteq> {ReturnToLocal}"
proof -
  have k: "evType (sample_event c v) = EV_KEY" for c v by simp
  have m: "\<not> isMouseButtonCode 125" "\<not> isMouseButtonCode 59" by (simp_all add: isMouseButtonCode_def)
  have e1: "e1 = e\<lparr>ecPressedKeys := insert 125 (ecPressedKeys e)\<rparr>" and c1: "c1 = [KeyEvent 125 True]"
    using assms(2-5) m
    by (auto simp add: keyboard_loop_step_eq Let_def shortcut_def pause_call_def call_def pressed_after_def)
  have e2: "e2 = Ungrab (e1\<lparr>ecPressedKeys := insert 59 (ecPressedKeys e1)\<rparr>)" and c2: "c2 = call e1 OnReturn ReturnToLocal"
    using assms(2,6) m e1
    by (auto simp add: keyboard_loop_step_eq Let_def shortcut_def pressed_after_def)
  have i1: "capture_inv (e1\<lparr>ecPressedKeys := insert 59 (ecPressedKeys e1)\<rparr>)" using assms(1) e1 by simp
  have l2: "\<not> IsRemote e2" using Ungrab_local(2) capture_invD [OF i1] unfolding e2 by blast
  have e3: "\<not> IsRemote e3" "c3 = []"
    using assms(7) m l2
    by (auto simp add: keyboard_loop_step_eq Let_def shortcut_def pause_call_def)
  have e4: "\<not> IsRemote e4" "c4 = []"
    using assms(8) m e3(1)
    by (auto simp add: keyboard_loop_step_eq Let_def shortcut_def pause_call_def)
  show ?thesis using c1 c2 e3 e4 by (auto simp add: call_def)
qed

theorem win_key_stays_down_witness:
  "\<exists>e1 e2 e3 e4 c2 c3 c4.
     keyboard_loop_step id id (\<lambda>_. True) [] 0 1 (sample_event 125 1) ((sample_capture True)\<lparr>activeKbdDev := Some 1\<rparr>)
       = (e1, [KeyEvent 125 True]) \<and>
     keyboard_loop_step id id (\<lambda>_. True) [] 0 1 (sample_event 59 1) e1 = (e2, c2) \<and>
     keyboard_loop_step id id (\<lambda>_. True) [] 0 1 (sample_event 59 0) e2 = (e3, c3) \<and>
     keyboard_loop_step id id (\<lambda>_. True) [] 0 1 (sample_event 125 0) e3 = (e4, c4) \<and>
     set (c2 @ c3 @ c4) \<subseteq> {ReturnToLocal}"
proof -
  let ?e = "(sample_capture True)\<lparr>activeKbdDev := Some 1\<rparr>"
  let ?k = "keyboard_loop_step id id (\<lambda>_. True) [] 0 1"
  obtain e1 c1 where s1: "?k (sample_event 125 1) ?e = (e1, c1)" by fastforce
  obtain e2 c2 where s2: "?k (sample_event 59 1) e1 = (e2, c2)" by fastforce
  obtain e3 c3 where s3: "?k (sample_event 59 0) e2 = (e3, c3)" by fastforce
  obtain e4 c4 where s4: "?k (sample_event 125 0) e3 = (e4, c4)" by fastforce
  have "1 \<in> set (kbdDevs (sample_capture True))" "IsRemote (sample_capture True)" "ecOn (sample_capture True) = UNIV"
    by (simp_all add: sample_capture_def add_kbd_def add_mouse_def NewEvdevCapture_def)
  then have "capture_inv ?e" "IsRemote ?e" "activeKbdDev ?e = Some 1" "OnKeyEvent \<in> ecOn ?e"
    using sample_capture_inv [of True]
    by (simp_all add: capture_inv_def devices_ok_def in_sync_def isMouseDevicePath_def)
  from win_key_stays_down [OF this s1 s2 s3 s4] s1 s2 s3 s4 show ?thesis by blast
qed

end
