(* ===== verification/Sender.thy ===== *)
theory Sender
  imports Network "HOL-Library.Signed_Division"
begin

text \<open>
  \<open>session_sender.go\<close>: the sender that all parts of a session share.  It is written over the
  interface \<open>packetClient\<close>, so its operations take the client's \<open>Send\<close> and \<open>IsConnected\<close>
  as arguments; the locale \<open>packet_client\<close> has the laws that the sender relies on, and is
  interpreted on the client of \<open>network/client.go\<close>.  Goroutines that call \<open>Send\<close> at the same
  time are the step relation \<open>sess_step\<close>: the check of \<open>IsConnected\<close> and the section under
  the mutex are one step each.
\<close>

section \<open>The session sender\<close>

record 'c sessionSender =
  ssClient :: 'c
  ssSrcID :: u32
  ssDstID :: u32
  ssNextID :: u32

definition newSessionSender :: "'c \<Rightarrow> u32 \<Rightarrow> u32 \<Rightarrow> 'c sessionSender" where
  "newSessionSender client srcID dstID =
     \<lparr>ssClient = client, ssSrcID = srcID, ssDstID = dstID, ssNextID = 0\<rparr>"

text \<open>The dynamic types that the type switch knows; any other value is \<open>PNil\<close>.\<close>

datatype payload =
    PMouse "MouseData option"
  | PKeyboard "KeyboardData option"
  | PBytes "bytes option"
  | PNil

text \<open>The packet that is built before the mutex is taken; \<open>now\<close> is \<open>UnixNano\<close>.\<close>

definition build_packet :: "u64 \<Rightarrow> PackageType \<Rightarrow> payload \<Rightarrow> 'c sessionSender \<Rightarrow> GenericData" where
  "build_packet now pktType pay s =
    (let pkt = \<lparr>gHeader = \<lparr>hType = pktType, hId = 0, hSrc = ssSrcID s, hDes = ssDstID s,
                          hDateTime = word_of_int (sint now sdiv 10000)\<rparr>,
               gKeyboard = None, gMouse = None, gHandshake = None, gMachineName = [], gRaw = None\<rparr>
     in case pay of
          PMouse v \<Rightarrow> pkt\<lparr>gMouse := v\<rparr>
        | PKeyboard v \<Rightarrow> pkt\<lparr>gKeyboard := v\<rparr>
        | PBytes v \<Rightarrow> pkt\<lparr>gRaw := v\<rparr>
        | PNil \<Rightarrow> pkt)"

text \<open>The section under the mutex: the next id, then the client's \<open>Send\<close>.\<close>

definition locked_send ::
  "(GenericData \<Rightarrow> 'c \<Rightarrow> 'e option \<times> 'c) \<Rightarrow> GenericData \<Rightarrow> 'c sessionSender \<Rightarrow> 'e option \<times> 'c sessionSender" where
  "locked_send send pkt s =
    (let nextID = ssNextID s + 1;
         (err, client) = send (pkt\<lparr>gHeader := (gHeader pkt)\<lparr>hId := nextID\<rparr>\<rparr>) (ssClient s)
     in (err, s\<lparr>ssNextID := nextID, ssClient := client\<rparr>))"

text \<open>A call that nothing interleaves with; errors are logged.\<close>

definition Sender_Send ::
  "(GenericData \<Rightarrow> 'c \<Rightarrow> 'e option \<times> 'c) \<Rightarrow> ('c \<Rightarrow> bool) \<Rightarrow> u64 \<Rightarrow> PackageType \<Rightarrow> payload
   \<Rightarrow> 'c sessionSender \<Rightarrow> 'c sessionSender" where
  "Sender_Send send connected now pktType pay s =
    (if \<not> connected (ssClient s) then s
     else snd (locked_send send (build_packet now pktType pay s) s))"

section \<open>Concurrent calls\<close>

text \<open>
  The calls that have passed the check and wait for the mutex are a list of packets; the mutex
  is given to any of them.  A call on a client that is not connected returns at once.
\<close>

inductive sess_step ::
  "(GenericData \<Rightarrow> 'c \<Rightarrow> 'e option \<times> 'c) \<Rightarrow> ('c \<Rightarrow> bool) \<Rightarrow> (PackageType \<times> payload \<Rightarrow> bool)
   \<Rightarrow> 'c sessionSender \<times> GenericData list \<Rightarrow> 'c sessionSender \<times> GenericData list \<Rightarrow> bool"
  for send connected ok where
  check: "connected (ssClient s) \<Longrightarrow> ok (t, pay) \<Longrightarrow>
     sess_step send connected ok (s, wait) (s, wait @ [build_packet now t pay s])"
| locked: "pkt \<in> set wait \<Longrightarrow> snd (locked_send send pkt s) = s' \<Longrightarrow>
     sess_step send connected ok (s, wait) (s', remove1 pkt wait)"

inductive_cases sess_stepE: "sess_step send connected ok (s, w) (s', w')"

inductive sess_reach ::
  "(GenericData \<Rightarrow> 'c \<Rightarrow> 'e option \<times> 'c) \<Rightarrow> ('c \<Rightarrow> bool) \<Rightarrow> (PackageType \<times> payload \<Rightarrow> bool)
   \<Rightarrow> 'c sessionSender \<Rightarrow> 'c sessionSender \<times> GenericData list \<Rightarrow> bool"
  for send connected ok s0 where
  start: "sess_reach send connected ok s0 (s0, [])"
| more: "sess_reach send connected ok s0 x \<Longrightarrow> sess_step send connected ok x y \<Longrightarrow>
     sess_reach send connected ok s0 y"

text \<open>Calls whose payload fits the type; all calls of the program do.\<close>

fun fits :: "PackageType \<times> payload \<Rightarrow> bool" where
  "fits (t, pay) =
    (if t = Keyboard then (case pay of PKeyboard (Some _) \<Rightarrow> True | _ \<Rightarrow> False)
     else if t = Mouse then (case pay of PMouse (Some _) \<Rightarrow> True | _ \<Rightarrow> False)
     else t \<noteq> Handshake \<and> t \<noteq> HandshakeAck \<and> t < 256)"

definition encodable :: "GenericData \<Rightarrow> bool" where
  "encodable d \<longleftrightarrow> (gType d = Keyboard \<longrightarrow> gKeyboard d \<noteq> None) \<and>
     (gType d = Mouse \<longrightarrow> gMouse d \<noteq> None) \<and>
     (gType d = Handshake \<or> gType d = HandshakeAck \<longrightarrow> gHandshake d \<noteq> None)"

lemma build_packet_header:
  "gHeader (build_packet now t pay s) =
     \<lparr>hType = t, hId = 0, hSrc = ssSrcID s, hDes = ssDstID s, hDateTime = word_of_int (sint now sdiv 10000)\<rparr>"
  by (simp add: build_packet_def Let_def split: payload.split)

lemma fits_encodable: "fits (t, pay) \<Longrightarrow> encodable (build_packet now t pay s) \<and> t < 256"
  by (auto simp add: encodable_def build_packet_def Let_def split: payload.splits if_splits option.splits)

lemma encodable_id [simp]: "encodable (d\<lparr>gHeader := (gHeader d)\<lparr>hId := i\<rparr>\<rparr>) = encodable d"
  by (simp add: encodable_def)

section \<open>The client's contract\<close>

text \<open>
  \<open>emitted c0 c ds\<close>: between the two states of the client exactly the packets \<open>ds\<close> left it;
  \<open>view c0 d\<close> is the packet that leaves it for a \<open>Send\<close> of \<open>d\<close>.
\<close>

locale packet_client =
  fixes send :: "GenericData \<Rightarrow> 'c \<Rightarrow> 'e option \<times> 'c"
    and connected :: "'c \<Rightarrow> bool"
    and wf :: "'c \<Rightarrow> bool"
    and emitted :: "'c \<Rightarrow> 'c \<Rightarrow> GenericData list \<Rightarrow> bool"
    and view :: "'c \<Rightarrow> GenericData \<Rightarrow> GenericData"
  assumes emitted_refl: "wf c \<Longrightarrow> emitted c c []"
    and emitted_wf: "emitted c0 c ds \<Longrightarrow> wf c"
    and send_emits: "emitted c0 c ds \<Longrightarrow> send d c = (None, c') \<Longrightarrow> emitted c0 c' (ds @ [view c0 d])"
    and send_fails: "wf c \<Longrightarrow> encodable d \<Longrightarrow> send d c = (Some e, c') \<Longrightarrow> \<not> connected c'"
    and stays_down: "send d c = (r, c') \<Longrightarrow> connected c' \<Longrightarrow> connected c"
begin

text \<open>As long as the client is connected, the packets left in the order of their ids.\<close>

definition ordered :: "'c sessionSender \<Rightarrow> 'c sessionSender \<times> GenericData list \<Rightarrow> bool" where
  "ordered s0 x \<longleftrightarrow>
    (\<forall>p\<in>set (snd x). encodable p \<and> gType p < 256 \<and> hSrc (gHeader p) = ssSrcID s0 \<and> hDes (gHeader p) = ssDstID s0) \<and>
    ssSrcID (fst x) = ssSrcID s0 \<and> ssDstID (fst x) = ssDstID s0 \<and>
    (connected (ssClient (fst x)) \<longrightarrow>
      (\<exists>ps. emitted (ssClient s0) (ssClient (fst x)) (map (view (ssClient s0)) ps) \<and>
        ssNextID (fst x) = ssNextID s0 + of_nat (length ps) \<and>
        map (\<lambda>p. hId (gHeader p)) ps = map (\<lambda>i. ssNextID s0 + of_nat (Suc i)) [0..<length ps] \<and>
        (\<forall>p\<in>set ps. encodable p \<and> gType p < 256 \<and> hSrc (gHeader p) = ssSrcID s0 \<and> hDes (gHeader p) = ssDstID s0)))"

lemma ordered_locked:
  assumes inv: "ordered s0 (s, wait)" and p: "p \<in> set wait"
    and s': "snd (locked_send send p s) = s'"
  shows "ordered s0 (s', remove1 p wait)"
proof -
  let ?p = "p\<lparr>gHeader := (gHeader p)\<lparr>hId := ssNextID s + 1\<rparr>\<rparr>"
  obtain r c' where c': "send ?p (ssClient s) = (r, c')" by fastforce
  have s'_eq: "s' = s\<lparr>ssNextID := ssNextID s + 1, ssClient := c'\<rparr>"
    using s' c' by (simp add: locked_send_def Let_def)
  have pok: "encodable ?p" "gType ?p < 256" "hSrc (gHeader ?p) = ssSrcID s0" "hDes (gHeader ?p) = ssDstID s0"
    using inv p by (auto simp add: ordered_def)
  have "\<exists>ps. emitted (ssClient s0) c' (map (view (ssClient s0)) ps) \<and>
      ssNextID s + 1 = ssNextID s0 + of_nat (length ps) \<and>
      map (\<lambda>p. hId (gHeader p)) ps = map (\<lambda>i. ssNextID s0 + of_nat (Suc i)) [0..<length ps] \<and>
      (\<forall>p\<in>set ps. encodable p \<and> gType p < 256 \<and> hSrc (gHeader p) = ssSrcID s0 \<and> hDes (gHeader p) = ssDstID s0)"
    if up: "connected c'"
  proof -
    obtain ps where ps: "emitted (ssClient s0) (ssClient s) (map (view (ssClient s0)) ps)"
      "ssNextID s = ssNextID s0 + of_nat (length ps)"
      "map (\<lambda>p. hId (gHeader p)) ps = map (\<lambda>i. ssNextID s0 + of_nat (Suc i)) [0..<length ps]"
      "\<forall>p\<in>set ps. encodable p \<and> gType p < 256 \<and> hSrc (gHeader p) = ssSrcID s0 \<and> hDes (gHeader p) = ssDstID s0"
      using inv stays_down [OF c' up] by (auto simp add: ordered_def)
    have "r = None" using send_fails [OF emitted_wf [OF ps(1)] pok(1)] c' up by (cases r) auto
    from send_emits [OF ps(1) c' [unfolded this]]
    have "emitted (ssClient s0) c' (map (view (ssClient s0)) (ps @ [?p]))" by simp
    moreover have "ssNextID s + 1 = ssNextID s0 + of_nat (length (ps @ [?p]))" using ps(2) by simp
    moreover have "map (\<lambda>p. hId (gHeader p)) (ps @ [?p])
        = map (\<lambda>i. ssNextID s0 + of_nat (Suc i)) [0..<length (ps @ [?p])]"
      using ps(2,3) by simp
    ultimately show ?thesis using ps(4) pok by (intro exI [of _ "ps @ [?p]"]) simp
  qed
  moreover have "set (remove1 p wait) \<subseteq> set wait" by (rule set_remove1_subset)
  ultimately show ?thesis using inv unfolding s'_eq ordered_def by auto
qed

lemma ordered_step:
  assumes "ordered s0 x" and "sess_step send connected fits x y"
  shows "ordered s0 y"
  using assms(2,1)
proof (cases rule: sess_step.cases)
  case (check s t pay wait now)
  then show ?thesis using assms(1) fits_encodable [of t pay now s]
    by (auto simp add: ordered_def build_packet_header simp del: fits.simps)
next
  case (locked pkt wait s s')
  then show ?thesis using ordered_locked assms(1) by blast
qed

lemma ordered_reach:
  assumes "wf (ssClient s0)" and "sess_reach send connected fits s0 x"
  shows "ordered s0 x"
  using assms(2)
proof induction
  case start
  have "emitted (ssClient s0) (ssClient s0) []" using assms(1) by (rule emitted_refl)
  then show ?case by (auto simp add: ordered_def intro!: exI [of _ "[]"])
next
  case (more x y)
  then show ?case using ordered_step by blast
qed

end

section \<open>The client of a session\<close>

lemma encodable_Marshal: "encodable d \<Longrightarrow> \<exists>p. Marshal d m = Inr p"
  by (auto simp add: encodable_def Marshal_def marshal_payload_def Let_def split: option.split)

lemma encodable_fill [simp]: "encodable (fill_defaults c d) = encodable d"
  by (simp add: encodable_def fill_defaults_def Let_def)

lemma Send_connected: "Client_Send d c = (r, c') \<Longrightarrow> IsConnected c' \<Longrightarrow> IsConnected c"
  by (cases rule: Send_cases [of c d]) (auto simp add: IsConnected_def)

lemma Send_encodable:
  assumes "encodable d" and "Client_Send d c = (Some e, c')"
  shows "\<not> IsConnected c'"
proof -
  obtain p where "Marshal (fill_defaults c d) (clMagic c) = Inr p"
    using encodable_Marshal [of "fill_defaults c d"] assms(1) by auto
  then show ?thesis using assms(2)
    by (cases rule: Send_cases [of c d]) (auto simp add: IsConnected_def split: if_splits)
qed

lemma Send_plain_ok:
  assumes "encodable d" and "wr (clConn c) = []"
  shows "\<exists>c'. Client_Send d c = (None, c') \<and> clConnected c' = clConnected c"
proof -
  obtain p where "Marshal (fill_defaults c d) (clMagic c) = Inr p"
    using encodable_Marshal [of "fill_defaults c d"] assms(1) by auto
  from Send_plain [OF assms(2) this] show ?thesis by fastforce
qed

interpretation client: packet_client Client_Send IsConnected
    "\<lambda>c. length (encIV (clCipher c)) = 16" emits fill_defaults
proof
  fix c c0 c' :: Client and d ds r e
  show "emits c c []" if "length (encIV (clCipher c)) = 16" using that by (rule emits_refl)
  show "length (encIV (clCipher c)) = 16" if "emits c0 c ds" using emits_same [OF that] by simp
  show "emits c0 c' (ds @ [fill_defaults c0 d])" if e: "emits c0 c ds" and s: "Client_Send d c = (None, c')"
  proof -
    note w = emits_same [OF e]
    have "fill_defaults c = fill_defaults c0" using w fill_defaults_same by blast
    with emits_trans [OF e Send_emits [OF s]] w show ?thesis by simp
  qed
  show "\<not> IsConnected c'" if "encodable d" "Client_Send d c = (Some e, c')"
    using that by (rule Send_encodable)
  show "IsConnected c" if "Client_Send d c = (r, c')" "IsConnected c'" using that by (rule Send_connected)
qed

text \<open>A call that nothing interleaves with is a run of the step relation.\<close>

lemma Sender_Send_reach:
  assumes "fits (t, pay)" and "sess_reach send connected fits s0 (s, [])"
  shows "sess_reach send connected fits s0 (Sender_Send send connected now t pay s, [])"
proof (cases "connected (ssClient s)")
  case True
  have "sess_reach send connected fits s0 (s, [] @ [build_packet now t pay s])"
    using assms(2) sess_step.check [where connected = connected and s = s and ok = fits and t = t and pay = pay, OF True assms(1)]
    by (rule sess_reach.more)
  from sess_reach.more [OF this sess_step.locked [OF _ refl, of "build_packet now t pay s"]]
  show ?thesis using True by (simp add: Sender_Send_def)
qed (use assms(2) in \<open>simp add: Sender_Send_def\<close>)

lemma wire_view_header [simp]:
  "hId (gHeader (wire_view d)) = hId (gHeader d)" "hSrc (gHeader (wire_view d)) = hSrc (gHeader d)"
  "hDes (gHeader (wire_view d)) = hDes (gHeader d)"
  by (simp_all add: wire_view_def Let_def)

lemma fill_defaults_header [simp]:
  "hId (gHeader (fill_defaults c d)) = hId (gHeader d)"
  "hDes (gHeader (fill_defaults c d)) = hDes (gHeader d)"
  "hSrc (gHeader d) \<noteq> 0 \<Longrightarrow> hSrc (gHeader (fill_defaults c d)) = hSrc (gHeader d)"
  by (simp_all add: fill_defaults_def Let_def)

section \<open>Properties\<close>

text \<open>C20: Whatever the interleaving of the goroutines that send through one session, as long as
  its client is connected the packets on the connection carry the ids 1, 2, 3 and so on in the
  order in which they were written, without a gap, wrapping at 32 bits, and the session's
  destination; a peer in step with the client reads exactly these packets.\<close>

theorem session_order:
  assumes "sess_reach Client_Send IsConnected fits (newSessionSender c src dst) (s, waiting)"
    and "length (encIV (clCipher c)) = 16" and "IsConnected (ssClient s)"
    and "in_step (clCipher c) (clCipher p)" and "drop_bit 16 (clMagic c) = drop_bit 16 (clMagic p)"
    and "tx (clConn (ssClient s)) = tx (clConn c) @ w" and "rx (clConn p) = w @ rest"
  shows "\<exists>qs p'. receive_n (length qs) p = (Inr qs, p') \<and> rx (clConn p') = rest \<and>
     in_step (clCipher (ssClient s)) (clCipher p') \<and>
     map (hId \<circ> gHeader) qs = map of_nat [1..<Suc (length qs)] \<and>
     ssNextID s = of_nat (length qs) \<and>
     (\<forall>q\<in>set qs. hDes (gHeader q) = dst \<and> (src \<noteq> 0 \<longrightarrow> hSrc (gHeader q) = src))"
proof -
  let ?s0 = "newSessionSender c src dst"
  have "client.ordered ?s0 (s, waiting)"
    using client.ordered_reach [of ?s0] assms(1,2) by (simp add: newSessionSender_def)
  then obtain ps where ps: "emits c (ssClient s) (map (fill_defaults c) ps)"
    "ssNextID s = of_nat (length ps)"
    "map (\<lambda>p. hId (gHeader p)) ps = map (\<lambda>i. of_nat (Suc i)) [0..<length ps]"
    "\<forall>p\<in>set ps. gType p < 256 \<and> hSrc (gHeader p) = src \<and> hDes (gHeader p) = dst"
    using assms(3) unfolding client.ordered_def by (auto simp add: newSessionSender_def)
  have "\<forall>d\<in>set (map (fill_defaults c) ps). gType d < 256" using ps(4) by auto
  from emits_received [OF ps(1) this assms(4-7)]
  obtain p' where "receive_n (length ps) p = (Inr (map wire_view (map (fill_defaults c) ps)), p')"
    "rx (clConn p') = rest" "in_step (clCipher (ssClient s)) (clCipher p')" by auto
  moreover have "map (hId \<circ> gHeader) (map wire_view (map (fill_defaults c) ps)) = map of_nat [1..<Suc (length ps)]"
    using ps(3) by (simp add: comp_def map_Suc_upt [symmetric] del: upt_Suc)
  ultimately show ?thesis using ps(2,4)
    by (intro exI [of _ "map wire_view (map (fill_defaults c) ps)"] exI [of _ p']) auto
qed

theorem session_order_witness:
  "\<exists>s w qs p'. sess_reach Client_Send IsConnected fits (newSessionSender sample_client 111 222) (s, []) \<and>
     tx (clConn (ssClient s)) = w \<and>
     receive_n (length qs) (sample_client\<lparr>clConn := (clConn sample_client)\<lparr>rx := w\<rparr>\<rparr>) = (Inr qs, p') \<and>
     map (hId \<circ> gHeader) qs = map of_nat [1..<Suc (length qs)]"
proof -
  let ?s0 = "newSessionSender sample_client 111 222"
  define s where "s = Sender_Send Client_Send IsConnected 0 Heartbeat PNil ?s0"
  have f: "fits (Heartbeat, PNil)" by simp
  have r: "sess_reach Client_Send IsConnected fits ?s0 (s, [])"
    unfolding s_def by (rule Sender_Send_reach [OF f sess_reach.start])
  let ?d = "(build_packet 0 Heartbeat PNil ?s0)\<lparr>gHeader := (gHeader (build_packet 0 Heartbeat PNil ?s0))\<lparr>hId := 1\<rparr>\<rparr>"
  have "encodable ?d" using fits_encodable [OF f, of 0 ?s0] by simp
  moreover have "wr (clConn sample_client) = []" by (simp add: sample_client_def)
  ultimately obtain c' where c': "Client_Send ?d sample_client = (None, c')"
      "clConnected c' = clConnected sample_client" using Send_plain_ok by blast
  have "ssClient ?s0 = sample_client" "ssNextID ?s0 = 0" by (simp_all add: newSessionSender_def)
  with c' have "IsConnected (ssClient s)"
    by (simp add: s_def Sender_Send_def locked_send_def IsConnected_def sample_client_def)
  then show ?thesis
    using session_order [OF r, of "sample_client\<lparr>clConn := (clConn sample_client)\<lparr>rx := tx (clConn (ssClient s))\<rparr>\<rparr>"
        "tx (clConn (ssClient s))" "[]"] r
    by (fastforce simp add: sample_client_def in_step_def)
qed

end
