(* ===== verification/Keymap.thy ===== *)
theory Keymap
  imports Prelude
begin

text \<open>
  \<open>input/keymap.go\<close>: the table from Windows virtual key codes to Linux key codes, the reverse
  table that \<open>init\<close> builds from it, and the flag constants of the protocol.  Go iterates over a
  map in an unspecified order, so \<open>LinuxToVK\<close> takes the order as an argument; the lemmas say
  for which keys the result does not depend on it.
\<close>

section \<open>The tables\<close>

definition VKToLinux_table :: "(i32 \<times> u16) list" where
  "VKToLinux_table =
    [(0x01, 0x110), (0x02, 0x111), (0x04, 0x112), (0x05, 0x113), (0x06, 0x114),
     (0x08, 14), (0x09, 15), (0x0D, 28), (0x10, 42), (0x11, 29), (0x12, 56),
     (0x13, 119), (0x14, 58), (0x1B, 1), (0x20, 57), (0x21, 104), (0x22, 109),
     (0x23, 107), (0x24, 102), (0x25, 105), (0x26, 103), (0x27, 106), (0x28, 108),
     (0x2C, 210), (0x2D, 110), (0x2E, 111), (0x30, 11), (0x31, 2), (0x32, 3), (0x33, 4),
     (0x34, 5), (0x35, 6), (0x36, 7), (0x37, 8), (0x38, 9), (0x39, 10), (0x41, 30),
     (0x42, 48), (0x43, 46), (0x44, 32), (0x45, 18), (0x46, 33), (0x47, 34), (0x48, 35),
     (0x49, 23), (0x4A, 36), (0x4B, 37), (0x4C, 38), (0x4D, 50), (0x4E, 49), (0x4F, 24),
     (0x50, 25), (0x51, 16), (0x52, 19), (0x53, 31), (0x54, 20), (0x55, 22), (0x56, 47),
     (0x57, 17), (0x58, 45), (0x59, 21), (0x5A, 44), (0x5B, 125), (0x5C, 126),
     (0x60, 82), (0x61, 79), (0x62, 80), (0x63, 81), (0x64, 75), (0x65, 76), (0x66, 77),
     (0x67, 71), (0x68, 72), (0x69, 73), (0x6A, 55), (0x6B, 78), (0x6D, 74), (0x6E, 83),
     (0x6F, 98), (0x90, 69), (0x70, 59), (0x71, 60), (0x72, 61), (0x73, 62), (0x74, 63),
     (0x75, 64), (0x76, 65), (0x77, 66), (0x78, 67), (0x79, 68), (0x7A, 87), (0x7B, 88),
     (0xA0, 42), (0xA1, 54), (0xA2, 29), (0xA3, 97), (0xA4, 56), (0xA5, 100),
     (0xBA, 39), (0xBB, 13), (0xBC, 51), (0xBD, 12), (0xBE, 52), (0xBF, 53), (0xC0, 41),
     (0xDB, 26), (0xDC, 43), (0xDD, 27), (0xDE, 40), (0x91, 70)]"

definition VKToLinux :: "i32 \<Rightarrow> u16 option" where
  "VKToLinux vk = map_of VKToLinux_table vk"

text \<open>\<open>order\<close> is the order in which the range loop of \<open>init\<close> meets the entries.\<close>

definition LinuxToVK :: "(i32 \<times> u16) list \<Rightarrow> u16 \<Rightarrow> i32 option" where
  "LinuxToVK order =
     (fold (\<lambda>(vk, linux) m. m(linux \<mapsto> vk)) order Map.empty)(99 \<mapsto> 0x2C)"

section \<open>Constants\<close>

abbreviation (input) LLKHF_EXTENDED :: i32 where "LLKHF_EXTENDED \<equiv> 0x01"
abbreviation (input) LLKHF_INJECTED :: i32 where "LLKHF_INJECTED \<equiv> 0x10"
abbreviation (input) LLKHF_ALTDOWN :: i32 where "LLKHF_ALTDOWN \<equiv> 0x20"
abbreviation (input) LLKHF_UP :: i32 where "LLKHF_UP \<equiv> 0x80"

abbreviation (input) WinKeyEventFExtendedKey :: i32 where "WinKeyEventFExtendedKey \<equiv> 0x0001"
abbreviation (input) WinKeyEventFKeyUp :: i32 where "WinKeyEventFKeyUp \<equiv> 0x0002"

abbreviation (input) WinMouseEventFMove :: i32 where "WinMouseEventFMove \<equiv> 0x0001"
abbreviation (input) WinMouseEventFLeftDown :: i32 where "WinMouseEventFLeftDown \<equiv> 0x0002"
abbreviation (input) WinMouseEventFLeftUp :: i32 where "WinMouseEventFLeftUp \<equiv> 0x0004"
abbreviation (input) WinMouseEventFRightDown :: i32 where "WinMouseEventFRightDown \<equiv> 0x0008"
abbreviation (input) WinMouseEventFRightUp :: i32 where "WinMouseEventFRightUp \<equiv> 0x0010"
abbreviation (input) WinMouseEventFMiddleDown :: i32 where "WinMouseEventFMiddleDown \<equiv> 0x0020"
abbreviation (input) WinMouseEventFMiddleUp :: i32 where "WinMouseEventFMiddleUp \<equiv> 0x0040"
abbreviation (input) WinMouseEventFWheel :: i32 where "WinMouseEventFWheel \<equiv> 0x0800"
abbreviation (input) WinMouseEventFAbsolute :: i32 where "WinMouseEventFAbsolute \<equiv> 0x8000"

abbreviation (input) WinMouseMKLButton :: i32 where "WinMouseMKLButton \<equiv> 0x0001"
abbreviation (input) WinMouseMKRButton :: i32 where "WinMouseMKRButton \<equiv> 0x0002"
abbreviation (input) WinMouseMKMButton :: i32 where "WinMouseMKMButton \<equiv> 0x0010"
abbreviation (input) WinMouseMKXButton1 :: i32 where "WinMouseMKXButton1 \<equiv> 0x0020"
abbreviation (input) WinMouseMKXButton2 :: i32 where "WinMouseMKXButton2 \<equiv> 0x0040"

abbreviation (input) WM_MOUSEMOVE :: i32 where "WM_MOUSEMOVE \<equiv> 0x0200"
abbreviation (input) WM_LBUTTONDOWN :: i32 where "WM_LBUTTONDOWN \<equiv> 0x0201"
abbreviation (input) WM_LBUTTONUP :: i32 where "WM_LBUTTONUP \<equiv> 0x0202"
abbreviation (input) WM_RBUTTONDOWN :: i32 where "WM_RBUTTONDOWN \<equiv> 0x0204"
abbreviation (input) WM_RBUTTONUP :: i32 where "WM_RBUTTONUP \<equiv> 0x0205"
abbreviation (input) WM_MBUTTONDOWN :: i32 where "WM_MBUTTONDOWN \<equiv> 0x0207"
abbreviation (input) WM_MBUTTONUP :: i32 where "WM_MBUTTONUP \<equiv> 0x0208"
abbreviation (input) WM_XBUTTONDOWN :: i32 where "WM_XBUTTONDOWN \<equiv> 0x020B"
abbreviation (input) WM_XBUTTONUP :: i32 where "WM_XBUTTONUP \<equiv> 0x020C"
abbreviation (input) WM_MOUSEWHEEL :: i32 where "WM_MOUSEWHEEL \<equiv> 0x020A"
abbreviation (input) WM_KEYDOWN :: i32 where "WM_KEYDOWN \<equiv> 0x0100"
abbreviation (input) WM_KEYUP :: i32 where "WM_KEYUP \<equiv> 0x0101"

section \<open>Lemmas\<close>

lemma table_distinct: "distinct (map fst VKToLinux_table)"
  by code_simp

lemma VKToLinux_iff: "VKToLinux vk = Some l \<longleftrightarrow> (vk, l) \<in> set VKToLinux_table"
  by (simp add: VKToLinux_def map_of_eq_Some_iff [OF table_distinct])

text \<open>The last entry for a key wins.\<close>

lemma fold_upd_Some:
  "fold (\<lambda>(vk, linux) m. m(linux \<mapsto> vk)) order m l = Some vk \<Longrightarrow> (vk, l) \<in> set order \<or> m l = Some vk"
  by (induction order arbitrary: m) (fastforce split: if_splits prod.splits)+

lemma fold_upd_dom:
  "l \<in> snd ` set order \<or> m l \<noteq> None \<Longrightarrow> fold (\<lambda>(vk, linux) m. m(linux \<mapsto> vk)) order m l \<noteq> None"
proof (induction order arbitrary: m)
  case (Cons x xs)
  obtain vk k where x: "x = (vk, k)" by fastforce
  have "l \<in> snd ` set xs \<or> (m(k \<mapsto> vk)) l \<noteq> None" using Cons.prems x by auto
  from Cons.IH [of "m(k \<mapsto> vk)", OF this] show ?case by (simp add: x)
qed simp

lemma LinuxToVK_sound:
  assumes "set order = set VKToLinux_table" and "LinuxToVK order l = Some vk"
  shows "VKToLinux vk = Some l \<or> l = 99 \<and> vk = 0x2C"
  using assms fold_upd_Some [of order Map.empty l vk]
  by (auto simp add: LinuxToVK_def VKToLinux_iff split: if_splits)

lemma LinuxToVK_dom:
  assumes "set order = set VKToLinux_table"
  shows "LinuxToVK order l \<noteq> None \<longleftrightarrow> l = 99 \<or> (\<exists>vk. VKToLinux vk = Some l)"
proof (cases "l = 99")
  case False
  let ?m = "fold (\<lambda>(vk, linux) m. m(linux \<mapsto> vk)) order Map.empty l"
  have "?m \<noteq> None \<longleftrightarrow> l \<in> snd ` set order"
  proof
    assume "?m \<noteq> None"
    then obtain vk where "?m = Some vk" by blast
    from fold_upd_Some [OF this] have "(vk, l) \<in> set order" by simp
    then show "l \<in> snd ` set order" by (metis image_eqI snd_conv)
  qed (rule fold_upd_dom, simp)
  moreover have "l \<in> snd ` set order \<longleftrightarrow> (\<exists>vk. VKToLinux vk = Some l)"
    using assms by (force simp add: VKToLinux_iff image_iff)
  ultimately show ?thesis using False by (simp add: LinuxToVK_def)
qed (simp add: LinuxToVK_def)

text \<open>Three Linux keys are the image of two virtual keys, no other is.\<close>

lemma table_unique:
  "distinct (map snd (filter (\<lambda>(vk, l). l \<notin> {42, 29, 56}) VKToLinux_table))"
  by (simp add: VKToLinux_table_def)

lemma table_no_99: "99 \<notin> snd ` set VKToLinux_table"
  unfolding set_map [symmetric] by code_simp

lemma VKToLinux_inj:
  assumes "VKToLinux vk = Some l" and "VKToLinux vk' = Some l" and "l \<notin> {42, 29, 56}"
  shows "vk = vk'"
proof -
  let ?T = "set (filter (\<lambda>(vk, l). l \<notin> {42, 29, 56}) VKToLinux_table)"
  have "inj_on snd ?T" using table_unique by (simp add: distinct_map)
  moreover have "(vk, l) \<in> ?T" "(vk', l) \<in> ?T" using assms by (simp_all add: VKToLinux_iff)
  ultimately have "(vk, l) = (vk', l)" by (intro inj_onD [of snd ?T]) simp_all
  then show ?thesis by simp
qed

lemma LinuxToVK_roundtrip:
  assumes "set order = set VKToLinux_table" and "VKToLinux vk = Some l" and "l \<notin> {42, 29, 56}"
  shows "LinuxToVK order l = Some vk"
proof -
  have n: "l \<noteq> 99" using assms(2) table_no_99 by (metis VKToLinux_iff image_eqI snd_conv)
  have "LinuxToVK order l \<noteq> None" using LinuxToVK_dom [OF assms(1)] assms(2) by auto
  then obtain vk' where vk': "LinuxToVK order l = Some vk'" by auto
  from LinuxToVK_sound [OF assms(1) vk'] n have "VKToLinux vk' = Some l" by auto
  from VKToLinux_inj [OF this assms(2,3)] vk' show ?thesis by simp
qed

section \<open>Properties\<close>

text \<open>C34: Whatever the order in which Go iterates over the key table, a key event that is
  translated to a virtual key and back comes out as the same Linux key (\<open>KEY_SYSRQ\<close> as
  \<open>KEY_PRINT\<close>), and a virtual key that is translated to Linux and back is the same virtual key
  unless it is one of the three modifiers with two virtual keys.\<close>

theorem keymap_roundtrip:
  assumes "set order = set VKToLinux_table"
  shows "(case LinuxToVK order l of
            None \<Rightarrow> True
          | Some vk \<Rightarrow> VKToLinux vk = Some (if l = 99 then 210 else l)) \<and>
         (case VKToLinux v of
            None \<Rightarrow> True
          | Some k \<Rightarrow> LinuxToVK order k = Some v \<or> k \<in> {42, 29, 56})"
proof -
  have v: "VKToLinux 0x2C = Some 210" by code_simp
  have "VKToLinux vk \<noteq> Some 99" for vk
    using table_no_99 by (metis VKToLinux_iff image_eqI snd_conv)
  then show ?thesis
    using LinuxToVK_sound [OF assms] LinuxToVK_roundtrip [OF assms] v
    by (fastforce split: option.split)
qed

theorem keymap_roundtrip_witness:
  "LinuxToVK (rev VKToLinux_table) 30 = Some 0x41"
proof -
  have "VKToLinux 0x41 = Some 30" by code_simp
  then show ?thesis using keymap_roundtrip [of "rev VKToLinux_table" 0 "0x41"] by simp
qed

text \<open>For the left shift, control and alt keys the virtual key that is sent depends on the
  iteration order: there are two orders of the same table that give the generic and the
  left-hand code.\<close>

lemma modifier_depends_on_order:
  "\<exists>o1 o2. set o1 = set VKToLinux_table \<and> set o2 = set VKToLinux_table \<and> distinct o1 \<and> distinct o2 \<and>
     map (LinuxToVK o1) [42, 29, 56] = [Some 0xA0, Some 0xA2, Some 0xA4] \<and>
     map (LinuxToVK o2) [42, 29, 56] = [Some 0x10, Some 0x11, Some 0x12]"
proof (intro exI conjI)
  show "set VKToLinux_table = set VKToLinux_table" ..
  show "set (rev VKToLinux_table) = set VKToLinux_table" by simp
  show "distinct VKToLinux_table" "distinct (rev VKToLinux_table)"
    using table_distinct by (simp_all add: distinct_map)
  show "map (LinuxToVK VKToLinux_table) [42, 29, 56] = [Some 0xA0, Some 0xA2, Some 0xA4]"
    by code_simp
  show "map (LinuxToVK (rev VKToLinux_table)) [42, 29, 56] = [Some 0x10, Some 0x11, Some 0x12]"
    by code_simp
qed

end
