(* ===== verification/Uinput.thy ===== *)
theory Uinput
  imports Device Keymap
begin

text \<open>
  \<open>input/uinput.go\<close>: the virtual mouse and keyboard.  A device file has the \<open>ioctl\<close>
  requests that succeeded on it and the bytes that were written to it; the kernel's answer to a
  request is an argument.  The abstract specification of the keyboard is the set of keys that
  the written events hold down; the invariants say that it is \<open>pressedKeys\<close>, that no key is
  pressed twice, and that every event was announced to the kernel.
\<close>

section \<open>Device files\<close>

datatype ioctl_req =
    UI_SET_EVBIT u16
  | UI_SET_KEYBIT u16
  | UI_SET_RELBIT u16
  | UI_SET_ABSBIT u16
  | UI_ABS_SETUP u16 i32
  | UI_DEV_SETUP u16 u16 u16 u16 gostring
  | UI_DEV_CREATE
  | UI_DEV_DESTROY

record uinput_file =
  ufReqs :: "ioctl_req list"
  ufData :: bytes
  ufOpen :: bool

definition new_file :: uinput_file where
  "new_file = \<lparr>ufReqs = [], ufData = [], ufOpen = True\<rparr>"

text \<open>Requests one after the other; the first that fails is returned.\<close>

fun ioctls :: "(ioctl_req \<Rightarrow> bool) \<Rightarrow> ioctl_req list \<Rightarrow> uinput_file \<Rightarrow> ioctl_req option \<times> uinput_file" where
  "ioctls kern [] f = (None, f)"
| "ioctls kern (r # rs) f =
     (if kern r then ioctls kern rs (f\<lparr>ufReqs := ufReqs f @ [r]\<rparr>) else (Some r, f))"

definition writeEvent :: "uinput_file \<Rightarrow> u16 \<Rightarrow> u16 \<Rightarrow> i32 \<Rightarrow> uinput_file" where
  "writeEvent f ty code value = f\<lparr>ufData := ufData f @ event_buf ty code value\<rparr>"

section \<open>The virtual devices\<close>

text \<open>
  \<open>screenW\<close>, \<open>screenH\<close>, \<open>absX\<close> and \<open>absY\<close> are Go's 64-bit \<open>int\<close>; \<open>pressedKeys\<close> only
  ever holds \<open>true\<close>, so it is the set of its keys.
\<close>

record VirtualInput =
  mouseFile :: uinput_file
  kbdFile :: uinput_file
  screenW :: u64
  screenH :: u64
  absAvailable :: bool
  absX :: u64
  absY :: u64
  btnLeft :: bool
  btnRight :: bool
  btnMiddle :: bool
  btnSide :: bool
  btnExtra :: bool
  pressedKeys :: "u16 set"

definition setupAbsoluteAxes ::
  "(ioctl_req \<Rightarrow> bool) \<Rightarrow> u64 \<Rightarrow> u64 \<Rightarrow> uinput_file \<Rightarrow> bool \<times> uinput_file" where
  "setupAbsoluteAxes kern w h f =
    (case ioctls kern
            [UI_SET_EVBIT EV_ABS, UI_SET_ABSBIT ABS_X, UI_SET_ABSBIT ABS_Y,
             UI_ABS_SETUP ABS_X (ucast (w - 1)), UI_ABS_SETUP ABS_Y (ucast (h - 1))] f of
       (None, f) \<Rightarrow> (True, f) | (Some _, f) \<Rightarrow> (False, f))"

definition setupMouse ::
  "(ioctl_req \<Rightarrow> bool) \<Rightarrow> u64 \<Rightarrow> u64 \<Rightarrow> uinput_file \<Rightarrow> ioctl_req option \<times> bool \<times> uinput_file" where
  "setupMouse kern w h f =
    (case ioctls kern
            (map UI_SET_EVBIT [EV_SYN, EV_KEY, EV_REL] @
             map UI_SET_KEYBIT [BTN_LEFT, BTN_RIGHT, BTN_MIDDLE, BTN_SIDE, BTN_EXTRA] @
             map UI_SET_RELBIT [REL_X, REL_Y, REL_WHEEL]) f of
       (Some r, f) \<Rightarrow> (Some r, False, f)
     | (None, f) \<Rightarrow>
         (case setupAbsoluteAxes kern w h f of
            (avail, f) \<Rightarrow>
              (case ioctls kern
                      [UI_DEV_SETUP 0x03 0x1234 0x5678 1 (gostr ''MWB Virtual Mouse''), UI_DEV_CREATE] f of
                 (e, f) \<Rightarrow> (e, avail, f))))"

text \<open>The errors of the loop over the key bits are ignored.\<close>

definition setupKeyboard :: "(ioctl_req \<Rightarrow> bool) \<Rightarrow> uinput_file \<Rightarrow> ioctl_req option \<times> uinput_file" where
  "setupKeyboard kern f =
    (case ioctls kern [UI_SET_EVBIT EV_SYN, UI_SET_EVBIT EV_KEY] f of
       (Some r, f) \<Rightarrow> (Some r, f)
     | (None, f) \<Rightarrow>
         (let f = f\<lparr>ufReqs := ufReqs f @ filter kern (map (\<lambda>k. UI_SET_KEYBIT (of_nat k)) [1..<249])\<rparr>
          in ioctls kern
               [UI_DEV_SETUP 0x03 0x1234 0x5679 1 (gostr ''MWB Virtual Keyboard''), UI_DEV_CREATE] f))"

datatype vi_error = OpenUinput | SetupFailed ioctl_req

text \<open>
  \<open>open1\<close> and \<open>open2\<close> tell whether the two calls of \<open>os.OpenFile\<close> succeed, \<open>kern1\<close>
  and \<open>kern2\<close> are the kernel's answers on the two files.
\<close>

definition NewVirtualInput ::
  "bool \<Rightarrow> bool \<Rightarrow> (ioctl_req \<Rightarrow> bool) \<Rightarrow> (ioctl_req \<Rightarrow> bool) \<Rightarrow> u64 \<Rightarrow> u64 \<Rightarrow> vi_error + VirtualInput" where
  "NewVirtualInput open1 open2 kern1 kern2 w h =
    (if \<not> open1 then Inl OpenUinput
     else (case setupMouse kern1 w h new_file of
       (Some r, _) \<Rightarrow> Inl (SetupFailed r)
     | (None, avail, mouse) \<Rightarrow>
         if \<not> open2 then Inl OpenUinput
         else (case setupKeyboard kern2 new_file of
           (Some r, _) \<Rightarrow> Inl (SetupFailed r)
         | (None, kbd) \<Rightarrow>
             Inr \<lparr>mouseFile = mouse, kbdFile = kbd, screenW = w, screenH = h, absAvailable = avail,
                  absX = 0, absY = 0, btnLeft = False, btnRight = False, btnMiddle = False,
                  btnSide = False, btnExtra = False, pressedKeys = {}\<rparr>)))"

section \<open>The keyboard\<close>

definition kbd_event :: "u16 \<Rightarrow> u16 \<Rightarrow> i32 \<Rightarrow> VirtualInput \<Rightarrow> VirtualInput" where
  "kbd_event ty code value vi = vi\<lparr>kbdFile := writeEvent (kbdFile vi) ty code value\<rparr>"

definition InjectKeyboard :: "i32 \<Rightarrow> i32 \<Rightarrow> VirtualInput \<Rightarrow> VirtualInput" where
  "InjectKeyboard vk flags vi =
    (case VKToLinux vk of
       None \<Rightarrow> vi
     | Some linuxCode \<Rightarrow>
         (let isKeyUp = flags AND LLKHF_UP \<noteq> 0;
              inject = (\<lambda>vi. let value = (if isKeyUp then 0 else 1) in
                 kbd_event EV_SYN SYN_REPORT 0 (kbd_event EV_KEY linuxCode value vi))
          in if isKeyUp then inject (vi\<lparr>pressedKeys := pressedKeys vi - {linuxCode}\<rparr>)
             else if linuxCode \<in> pressedKeys vi then vi
             else inject (vi\<lparr>pressedKeys := insert linuxCode (pressedKeys vi)\<rparr>)))"

text \<open>\<open>order\<close> is the order in which the loop meets the keys of the map.\<close>

definition ReleaseAllKeys :: "u16 list \<Rightarrow> VirtualInput \<Rightarrow> VirtualInput" where
  "ReleaseAllKeys order vi =
     kbd_event EV_SYN SYN_REPORT 0
       (fold (\<lambda>linuxCode vi. (kbd_event EV_KEY linuxCode 0 vi)\<lparr>pressedKeys := pressedKeys vi - {linuxCode}\<rparr>)
          order vi)"

section \<open>The mouse\<close>

definition mouse_event :: "u16 \<Rightarrow> u16 \<Rightarrow> i32 \<Rightarrow> VirtualInput \<Rightarrow> VirtualInput" where
  "mouse_event ty code value vi = vi\<lparr>mouseFile := writeEvent (mouseFile vi) ty code value\<rparr>"

definition updateButtons :: "i32 \<Rightarrow> i32 \<Rightarrow> VirtualInput \<Rightarrow> bool \<times> VirtualInput" where
  "updateButtons flags wheelDelta vi =
    (let isLDown = flags = WM_LBUTTONDOWN; isLUp = flags = WM_LBUTTONUP;
         isRDown = flags = WM_RBUTTONDOWN; isRUp = flags = WM_RBUTTONUP;
         isMDown = flags = WM_MBUTTONDOWN; isMUp = flags = WM_MBUTTONUP;
         isXDown = flags = WM_XBUTTONDOWN; isXUp = flags = WM_XBUTTONUP;
         xButtonNum = (ucast wheelDelta :: u16);
         isXButton1 = (isXDown \<and> xButtonNum = 1); isXButton2 = (isXDown \<and> xButtonNum = 2);
         isXButton1Up = (isXUp \<and> xButtonNum = 1); isXButton2Up = (isXUp \<and> xButtonNum = 2);
         changed = False;
         (changed, vi) =
           (if isLDown then (True, mouse_event EV_KEY BTN_LEFT 1 (vi\<lparr>btnLeft := True\<rparr>))
            else if isLUp then (True, mouse_event EV_KEY BTN_LEFT 0 (vi\<lparr>btnLeft := False\<rparr>))
            else (changed, vi));
         (changed, vi) =
           (if isRDown then (True, mouse_event EV_KEY BTN_RIGHT 1 (vi\<lparr>btnRight := True\<rparr>))
            else if isRUp then (True, mouse_event EV_KEY BTN_RIGHT 0 (vi\<lparr>btnRight := False\<rparr>))
            else (changed, vi));
         (changed, vi) =
           (if isMDown then (True, mouse_event EV_KEY BTN_MIDDLE 1 (vi\<lparr>btnMiddle := True\<rparr>))
            else if isMUp then (True, mouse_event EV_KEY BTN_MIDDLE 0 (vi\<lparr>btnMiddle := False\<rparr>))
            else (changed, vi));
         (changed, vi) =
           (if isXButton1 then (True, mouse_event EV_KEY BTN_SIDE 1 (vi\<lparr>btnSide := True\<rparr>))
            else if isXButton1Up then (True, mouse_event EV_KEY BTN_SIDE 0 (vi\<lparr>btnSide := False\<rparr>))
            else (changed, vi))
     in if isXButton2 then (True, mouse_event EV_KEY BTN_EXTRA 1 (vi\<lparr>btnExtra := True\<rparr>))
        else if isXButton2Up then (True, mouse_event EV_KEY BTN_EXTRA 0 (vi\<lparr>btnExtra := False\<rparr>))
        else (changed, vi))"

text \<open>The position on the screen of a coordinate of the protocol.\<close>

definition abs_position :: "i32 \<Rightarrow> u64 \<Rightarrow> u64" where
  "abs_position v extent = godiv (scast v * extent) 65536"

text \<open>The notches of a wheel delta.\<close>

definition linux_wheel :: "i32 \<Rightarrow> i32" where
  "linux_wheel wheelDelta =
    (let linuxWheel = godiv wheelDelta 120
     in if linuxWheel = 0 then (if sint wheelDelta < 0 then -1 else 1) else linuxWheel)"

text \<open>The part of \<open>InjectMouse\<close> before the buttons, with the value of \<open>moved\<close>.\<close>

definition move_mouse :: "i32 \<Rightarrow> i32 \<Rightarrow> VirtualInput \<Rightarrow> bool \<times> VirtualInput" where
  "move_mouse x y vi =
    (let ax = abs_position x (screenW vi); ay = abs_position y (screenH vi);
         (moved, vi) =
           (if absAvailable vi then
              (True, mouse_event EV_ABS ABS_Y (ucast ay) (mouse_event EV_ABS ABS_X (ucast ax) vi))
            else
              let deltaX = ax - absX vi; deltaY = ay - absY vi;
                  (moved, vi) = (if deltaX \<noteq> 0 then (True, mouse_event EV_REL REL_X (ucast deltaX) vi)
                                 else (False, vi))
              in if deltaY \<noteq> 0 then (True, mouse_event EV_REL REL_Y (ucast deltaY) vi)
                 else (moved, vi))
     in (moved, vi\<lparr>absX := ax, absY := ay\<rparr>))"

definition InjectMouse :: "i32 \<Rightarrow> i32 \<Rightarrow> i32 \<Rightarrow> i32 \<Rightarrow> VirtualInput \<Rightarrow> VirtualInput" where
  "InjectMouse x y wheelDelta flags vi =
    (let (moved, vi) = move_mouse x y vi;
         (changed, vi) = updateButtons flags wheelDelta vi;
         vi = (if wheelDelta \<noteq> 0 then mouse_event EV_REL REL_WHEEL (linux_wheel wheelDelta) vi else vi)
     in if changed \<or> wheelDelta \<noteq> 0 \<or> moved then mouse_event EV_SYN SYN_REPORT 0 vi else vi)"

text \<open>\<open>kern1\<close> and \<open>kern2\<close> are the answers to the requests that destroy the devices, which
  are ignored.\<close>

definition VirtualInput_Close :: "(ioctl_req \<Rightarrow> bool) \<Rightarrow> (ioctl_req \<Rightarrow> bool) \<Rightarrow> u16 list \<Rightarrow> VirtualInput \<Rightarrow> VirtualInput" where
  "VirtualInput_Close kern1 kern2 order vi =
    (let vi = ReleaseAllKeys order vi;
         destroy = (\<lambda>kern f. (snd (ioctls kern [UI_DEV_DESTROY] f))\<lparr>ufOpen := False\<rparr>)
     in vi\<lparr>mouseFile := destroy kern1 (mouseFile vi), kbdFile := destroy kern2 (kbdFile vi)\<rparr>)"

section \<open>What the kernel sees\<close>

definition events :: "uinput_file \<Rightarrow> InputEvent list" where
  "events f = parse_all (ufData f)"

definition aligned :: "uinput_file \<Rightarrow> bool" where
  "aligned f \<longleftrightarrow> length (ufData f) mod 24 = 0"

text \<open>The keys that a sequence of events leaves down, and that no event presses a key that is down.\<close>

definition key_effect :: "InputEvent \<Rightarrow> u16 set \<Rightarrow> u16 set" where
  "key_effect e down =
    (if evType e = EV_KEY then if evValue e = 0 then down - {evCode e} else insert (evCode e) down
     else down)"

definition keys_down :: "InputEvent list \<Rightarrow> u16 set" where
  "keys_down es = fold key_effect es {}"

fun no_repeat :: "u16 set \<Rightarrow> InputEvent list \<Rightarrow> bool" where
  "no_repeat down [] = True"
| "no_repeat down (e # es) =
     ((evType e = EV_KEY \<and> evValue e \<noteq> 0 \<longrightarrow> evCode e \<notin> down) \<and> no_repeat (key_effect e down) es)"

text \<open>The requests by which a device announces an event.\<close>

definition announced :: "ioctl_req list \<Rightarrow> InputEvent \<Rightarrow> bool" where
  "announced reqs e \<longleftrightarrow> UI_SET_EVBIT (evType e) \<in> set reqs \<and>
     (evType e = EV_KEY \<longrightarrow> UI_SET_KEYBIT (evCode e) \<in> set reqs) \<and>
     (evType e = EV_REL \<longrightarrow> UI_SET_RELBIT (evCode e) \<in> set reqs) \<and>
     (evType e = EV_ABS \<longrightarrow> UI_SET_ABSBIT (evCode e) \<in> set reqs)"

text \<open>The sum of the relative moves along an axis.\<close>

definition rel_sum :: "u16 \<Rightarrow> InputEvent list \<Rightarrow> i32" where
  "rel_sum axis es = sum_list (map evValue (filter (\<lambda>e. evType e = EV_REL \<and> evCode e = axis) es))"

lemma keys_down_simps [simp]:
  "keys_down [] = {}" "keys_down (es @ [e]) = key_effect e (keys_down es)"
  by (simp_all add: keys_down_def)

lemma no_repeat_snoc [simp]:
  "no_repeat down (es @ [e]) \<longleftrightarrow> no_repeat down es \<and>
     (evType e = EV_KEY \<and> evValue e \<noteq> 0 \<longrightarrow> evCode e \<notin> fold key_effect es down)"
  by (induction es arbitrary: down) auto

lemma rel_sum_simps [simp]:
  "rel_sum a [] = 0"
  "rel_sum a (es @ fs) = rel_sum a es + rel_sum a fs"
  "rel_sum a (e # es) = rel_sum a es + (if evType e = EV_REL \<and> evCode e = a then evValue e else 0)"
  by (simp_all add: rel_sum_def)

lemma writeEvent_sel [simp]:
  "ufReqs (writeEvent f t c v) = ufReqs f" "ufOpen (writeEvent f t c v) = ufOpen f"
  by (simp_all add: writeEvent_def)

lemma aligned_write [simp]: "aligned (writeEvent f t c v) = aligned f"
  by (simp add: aligned_def writeEvent_def)

lemma events_write [simp]: "aligned f \<Longrightarrow> events (writeEvent f t c v) = events f @ [event t c v]"
  by (simp add: events_def writeEvent_def aligned_def parse_all_append)

section \<open>Setting up\<close>

lemma ioctls_keep: "ioctls kern rs f = (e, f') \<Longrightarrow> ufData f' = ufData f \<and> set (ufReqs f) \<subseteq> set (ufReqs f')"
  by (induction rs arbitrary: f) (fastforce split: if_splits)+

lemma ioctls_ok: "ioctls kern rs f = (None, f') \<Longrightarrow> ufReqs f' = ufReqs f @ rs \<and> list_all kern rs"
  by (induction rs arbitrary: f) (auto split: if_splits)

text \<open>What the mouse device announces once it is set up.\<close>

definition mouse_ready :: "bool \<Rightarrow> ioctl_req list \<Rightarrow> bool" where
  "mouse_ready avail reqs \<longleftrightarrow>
     set (map UI_SET_EVBIT [EV_SYN, EV_KEY, EV_REL] @
          map UI_SET_KEYBIT [BTN_LEFT, BTN_RIGHT, BTN_MIDDLE, BTN_SIDE, BTN_EXTRA] @
          map UI_SET_RELBIT [REL_X, REL_Y, REL_WHEEL]) \<subseteq> set reqs \<and>
     (avail \<longrightarrow> {UI_SET_EVBIT EV_ABS, UI_SET_ABSBIT ABS_X, UI_SET_ABSBIT ABS_Y} \<subseteq> set reqs)"

lemma setupMouse_ok:
  assumes "setupMouse kern w h new_file = (None, avail, f)"
  shows "mouse_ready avail (ufReqs f)" and "ufData f = []"
    and "avail \<Longrightarrow> UI_ABS_SETUP ABS_X (ucast (w - 1)) \<in> set (ufReqs f) \<and>
                   UI_ABS_SETUP ABS_Y (ucast (h - 1)) \<in> set (ufReqs f)"
proof -
  let ?r1 = "map UI_SET_EVBIT [EV_SYN, EV_KEY, EV_REL] @
     map UI_SET_KEYBIT [BTN_LEFT, BTN_RIGHT, BTN_MIDDLE, BTN_SIDE, BTN_EXTRA] @
     map UI_SET_RELBIT [REL_X, REL_Y, REL_WHEEL]"
  let ?r2 = "[UI_SET_EVBIT EV_ABS, UI_SET_ABSBIT ABS_X, UI_SET_ABSBIT ABS_Y,
     UI_ABS_SETUP ABS_X (ucast (w - 1)), UI_ABS_SETUP ABS_Y (ucast (h - 1))]"
  let ?r3 = "[UI_DEV_SETUP 0x03 0x1234 0x5678 1 (gostr ''MWB Virtual Mouse''), UI_DEV_CREATE]"
  obtain f1 where f1: "ioctls kern ?r1 new_file = (None, f1)"
    using assms unfolding setupMouse_def by (auto split: prod.splits option.splits)
  obtain e2 f2 where f2: "ioctls kern ?r2 f1 = (e2, f2)" by fastforce
  obtain f3 where f3: "ioctls kern ?r3 f2 = (None, f3)" "f = f3" "avail = (e2 = None)"
    using assms f1 f2 unfolding setupMouse_def setupAbsoluteAxes_def
    by (auto split: prod.splits option.splits)
  note k = ioctls_keep [OF f1] ioctls_keep [OF f2] ioctls_keep [OF f3(1)]
  show "ufData f = []" using k f3 by (simp add: new_file_def)
  have "set ?r1 \<subseteq> set (ufReqs f1)" using ioctls_ok [OF f1] by simp
  then have r1: "set ?r1 \<subseteq> set (ufReqs f)" using k f3(2) by blast
  have r2: "set ?r2 \<subseteq> set (ufReqs f)" if avail
    using that f3 ioctls_ok [of kern ?r2 f1 f2] f2 k(3) by auto
  show "mouse_ready avail (ufReqs f)" using r1 r2 unfolding mouse_ready_def by auto
  show "UI_ABS_SETUP ABS_X (ucast (w - 1)) \<in> set (ufReqs f) \<and>
      UI_ABS_SETUP ABS_Y (ucast (h - 1)) \<in> set (ufReqs f)" if avail
    using r2 [OF that] by simp
qed

lemma setupKeyboard_ok: "setupKeyboard kern new_file = (None, f) \<Longrightarrow> ufData f = []"
  unfolding setupKeyboard_def
  by (auto dest!: ioctls_keep simp add: new_file_def simp del: ioctls.simps split: prod.splits option.splits)

section \<open>The mouse invariant\<close>

definition buttons :: "VirtualInput \<Rightarrow> u16 set" where
  "buttons vi = {c. c = BTN_LEFT \<and> btnLeft vi \<or> c = BTN_RIGHT \<and> btnRight vi \<or>
     c = BTN_MIDDLE \<and> btnMiddle vi \<or> c = BTN_SIDE \<and> btnSide vi \<or> c = BTN_EXTRA \<and> btnExtra vi}"

abbreviation mouse_events :: "VirtualInput \<Rightarrow> InputEvent list" where
  "mouse_events vi \<equiv> events (mouseFile vi)"

abbreviation kbd_events :: "VirtualInput \<Rightarrow> InputEvent list" where
  "kbd_events vi \<equiv> events (kbdFile vi)"

text \<open>Apart from the position, which the moves change in several steps.\<close>

definition mouse_inv :: "VirtualInput \<Rightarrow> bool" where
  "mouse_inv vi \<longleftrightarrow> aligned (mouseFile vi) \<and> mouse_ready (absAvailable vi) (ufReqs (mouseFile vi)) \<and>
     list_all (announced (ufReqs (mouseFile vi))) (mouse_events vi) \<and>
     keys_down (mouse_events vi) = buttons vi"

definition tracks :: "VirtualInput \<Rightarrow> bool" where
  "tracks vi \<longleftrightarrow> \<not> absAvailable vi \<longrightarrow>
     rel_sum REL_X (mouse_events vi) = ucast (absX vi) \<and> rel_sum REL_Y (mouse_events vi) = ucast (absY vi)"

lemma mouse_event_sel [simp]:
  "mouseFile (mouse_event t c v vi) = writeEvent (mouseFile vi) t c v"
  "kbdFile (mouse_event t c v vi) = kbdFile vi" "screenW (mouse_event t c v vi) = screenW vi"
  "screenH (mouse_event t c v vi) = screenH vi" "absAvailable (mouse_event t c v vi) = absAvailable vi"
  "absX (mouse_event t c v vi) = absX vi" "absY (mouse_event t c v vi) = absY vi"
  "buttons (mouse_event t c v vi) = buttons vi" "pressedKeys (mouse_event t c v vi) = pressedKeys vi"
  by (simp_all add: mouse_event_def buttons_def)

lemma announced_ready:
  assumes "mouse_ready avail reqs"
  shows "announced reqs (event EV_SYN c v)"
    and "c \<in> {BTN_LEFT, BTN_RIGHT, BTN_MIDDLE, BTN_SIDE, BTN_EXTRA} \<Longrightarrow> announced reqs (event EV_KEY c v)"
    and "c \<in> {REL_X, REL_Y, REL_WHEEL} \<Longrightarrow> announced reqs (event EV_REL c v)"
    and "avail \<Longrightarrow> c \<in> {ABS_X, ABS_Y} \<Longrightarrow> announced reqs (event EV_ABS c v)"
  using assms unfolding mouse_ready_def announced_def by auto

text \<open>An announced event that changes the buttons as the flags do.\<close>

lemma mouse_inv_event:
  assumes "mouse_inv vi" and "announced (ufReqs (mouseFile vi)) (event t c v)"
    and "mouseFile vi' = mouseFile vi" and "absAvailable vi' = absAvailable vi"
    and "key_effect (event t c v) (buttons vi) = buttons vi'"
  shows "mouse_inv (mouse_event t c v vi')"
  using assms by (simp add: mouse_inv_def)

lemma mouse_inv_motion:
  assumes "mouse_inv vi"
  shows "mouse_inv (mouse_event EV_SYN SYN_REPORT v vi)"
    and "c \<in> {REL_X, REL_Y, REL_WHEEL} \<Longrightarrow> mouse_inv (mouse_event EV_REL c v vi)"
    and "absAvailable vi \<Longrightarrow> c \<in> {ABS_X, ABS_Y} \<Longrightarrow> mouse_inv (mouse_event EV_ABS c v vi)"
    and "mouse_inv (vi\<lparr>absX := a, absY := b\<rparr>)"
proof -
  have r: "mouse_ready (absAvailable vi) (ufReqs (mouseFile vi))" using assms by (simp add: mouse_inv_def)
  show "mouse_inv (mouse_event EV_SYN SYN_REPORT v vi)"
    using assms announced_ready(1) [OF r] by (rule mouse_inv_event) (simp_all add: key_effect_def)
  show "mouse_inv (mouse_event EV_REL c v vi)" if "c \<in> {REL_X, REL_Y, REL_WHEEL}"
    using assms announced_ready(3) [OF r that] by (rule mouse_inv_event) (simp_all add: key_effect_def)
  show "mouse_inv (mouse_event EV_ABS c v vi)" if "absAvailable vi" "c \<in> {ABS_X, ABS_Y}"
    using assms announced_ready(4) [OF r that] by (rule mouse_inv_event) (simp_all add: key_effect_def)
  show "mouse_inv (vi\<lparr>absX := a, absY := b\<rparr>)" using assms by (simp add: mouse_inv_def buttons_def)
qed

lemma buttons_effect:
  "key_effect (event EV_KEY BTN_LEFT 1) (buttons vi) = buttons (vi\<lparr>btnLeft := True\<rparr>)"
  "key_effect (event EV_KEY BTN_LEFT 0) (buttons vi) = buttons (vi\<lparr>btnLeft := False\<rparr>)"
  "key_effect (event EV_KEY BTN_RIGHT 1) (buttons vi) = buttons (vi\<lparr>btnRight := True\<rparr>)"
  "key_effect (event EV_KEY BTN_RIGHT 0) (buttons vi) = buttons (vi\<lparr>btnRight := False\<rparr>)"
  "key_effect (event EV_KEY BTN_MIDDLE 1) (buttons vi) = buttons (vi\<lparr>btnMiddle := True\<rparr>)"
  "key_effect (event EV_KEY BTN_MIDDLE 0) (buttons vi) = buttons (vi\<lparr>btnMiddle := False\<rparr>)"
  "key_effect (event EV_KEY BTN_SIDE 1) (buttons vi) = buttons (vi\<lparr>btnSide := True\<rparr>)"
  "key_effect (event EV_KEY BTN_SIDE 0) (buttons vi) = buttons (vi\<lparr>btnSide := False\<rparr>)"
  "key_effect (event EV_KEY BTN_EXTRA 1) (buttons vi) = buttons (vi\<lparr>btnExtra := True\<rparr>)"
  "key_effect (event EV_KEY BTN_EXTRA 0) (buttons vi) = buttons (vi\<lparr>btnExtra := False\<rparr>)"
  by (auto simp add: key_effect_def buttons_def)

lemma mouse_inv_buttons:
  assumes "mouse_inv vi"
  shows "mouse_inv (mouse_event EV_KEY BTN_LEFT 1 (vi\<lparr>btnLeft := True\<rparr>))"
    and "mouse_inv (mouse_event EV_KEY BTN_LEFT 0 (vi\<lparr>btnLeft := False\<rparr>))"
    and "mouse_inv (mouse_event EV_KEY BTN_RIGHT 1 (vi\<lparr>btnRight := True\<rparr>))"
    and "mouse_inv (mouse_event EV_KEY BTN_RIGHT 0 (vi\<lparr>btnRight := False\<rparr>))"
    and "mouse_inv (mouse_event EV_KEY BTN_MIDDLE 1 (vi\<lparr>btnMiddle := True\<rparr>))"
    and "mouse_inv (mouse_event EV_KEY BTN_MIDDLE 0 (vi\<lparr>btnMiddle := False\<rparr>))"
    and "mouse_inv (mouse_event EV_KEY BTN_SIDE 1 (vi\<lparr>btnSide := True\<rparr>))"
    and "mouse_inv (mouse_event EV_KEY BTN_SIDE 0 (vi\<lparr>btnSide := False\<rparr>))"
    and "mouse_inv (mouse_event EV_KEY BTN_EXTRA 1 (vi\<lparr>btnExtra := True\<rparr>))"
    and "mouse_inv (mouse_event EV_KEY BTN_EXTRA 0 (vi\<lparr>btnExtra := False\<rparr>))"
proof -
  have "mouse_ready (absAvailable vi) (ufReqs (mouseFile vi))" using assms by (simp add: mouse_inv_def)
  note a = announced_ready(2) [OF this]
  show "mouse_inv (mouse_event EV_KEY BTN_LEFT 1 (vi\<lparr>btnLeft := True\<rparr>))"
    "mouse_inv (mouse_event EV_KEY BTN_LEFT 0 (vi\<lparr>btnLeft := False\<rparr>))"
    "mouse_inv (mouse_event EV_KEY BTN_RIGHT 1 (vi\<lparr>btnRight := True\<rparr>))"
    "mouse_inv (mouse_event EV_KEY BTN_RIGHT 0 (vi\<lparr>btnRight := False\<rparr>))"
    "mouse_inv (mouse_event EV_KEY BTN_MIDDLE 1 (vi\<lparr>btnMiddle := True\<rparr>))"
    "mouse_inv (mouse_event EV_KEY BTN_MIDDLE 0 (vi\<lparr>btnMiddle := False\<rparr>))"
    "mouse_inv (mouse_event EV_KEY BTN_SIDE 1 (vi\<lparr>btnSide := True\<rparr>))"
    "mouse_inv (mouse_event EV_KEY BTN_SIDE 0 (vi\<lparr>btnSide := False\<rparr>))"
    "mouse_inv (mouse_event EV_KEY BTN_EXTRA 1 (vi\<lparr>btnExtra := True\<rparr>))"
    "mouse_inv (mouse_event EV_KEY BTN_EXTRA 0 (vi\<lparr>btnExtra := False\<rparr>))"
    by (rule mouse_inv_event [OF assms a]; simp add: buttons_effect)+
qed

text \<open>The messages exclude one another, so at most one button changes.\<close>

lemma updateButtons_eq:
  "updateButtons flags wd vi =
    (if flags = WM_LBUTTONDOWN then (True, mouse_event EV_KEY BTN_LEFT 1 (vi\<lparr>btnLeft := True\<rparr>))
     else if flags = WM_LBUTTONUP then (True, mouse_event EV_KEY BTN_LEFT 0 (vi\<lparr>btnLeft := False\<rparr>))
     else if flags = WM_RBUTTONDOWN then (True, mouse_event EV_KEY BTN_RIGHT 1 (vi\<lparr>btnRight := True\<rparr>))
     else if flags = WM_RBUTTONUP then (True, mouse_event EV_KEY BTN_RIGHT 0 (vi\<lparr>btnRight := False\<rparr>))
     else if flags = WM_MBUTTONDOWN then (True, mouse_event EV_KEY BTN_MIDDLE 1 (vi\<lparr>btnMiddle := True\<rparr>))
     else if flags = WM_MBUTTONUP then (True, mouse_event EV_KEY BTN_MIDDLE 0 (vi\<lparr>btnMiddle := False\<rparr>))
     else if flags = WM_XBUTTONDOWN \<and> (ucast wd :: u16) = 1
       then (True, mouse_event EV_KEY BTN_SIDE 1 (vi\<lparr>btnSide := True\<rparr>))
     else if flags = WM_XBUTTONUP \<and> (ucast wd :: u16) = 1
       then (True, mouse_event EV_KEY BTN_SIDE 0 (vi\<lparr>btnSide := False\<rparr>))
     else if flags = WM_XBUTTONDOWN \<and> (ucast wd :: u16) = 2
       then (True, mouse_event EV_KEY BTN_EXTRA 1 (vi\<lparr>btnExtra := True\<rparr>))
     else if flags = WM_XBUTTONUP \<and> (ucast wd :: u16) = 2
       then (True, mouse_event EV_KEY BTN_EXTRA 0 (vi\<lparr>btnExtra := False\<rparr>))
     else (False, vi))"
  by (cases "flags = WM_LBUTTONDOWN", simp add: updateButtons_def,
      cases "flags = WM_LBUTTONUP", simp add: updateButtons_def,
      cases "flags = WM_RBUTTONDOWN", simp add: updateButtons_def,
      cases "flags = WM_RBUTTONUP", simp add: updateButtons_def,
      cases "flags = WM_MBUTTONDOWN", simp add: updateButtons_def,
      cases "flags = WM_MBUTTONUP", simp add: updateButtons_def,
      cases "flags = WM_XBUTTONDOWN", simp add: updateButtons_def,
      cases "flags = WM_XBUTTONUP", simp add: updateButtons_def, simp add: updateButtons_def)

lemma updateButtons_inv: "mouse_inv vi \<Longrightarrow> mouse_inv (snd (updateButtons flags wd vi))"
  unfolding updateButtons_eq by (simp add: mouse_inv_buttons)

lemma updateButtons_frame:
  "kbdFile (snd (updateButtons flags wd vi)) = kbdFile vi" "pressedKeys (snd (updateButtons flags wd vi)) = pressedKeys vi"
  "absX (snd (updateButtons flags wd vi)) = absX vi" "absY (snd (updateButtons flags wd vi)) = absY vi"
  "absAvailable (snd (updateButtons flags wd vi)) = absAvailable vi"
  "screenW (snd (updateButtons flags wd vi)) = screenW vi" "screenH (snd (updateButtons flags wd vi)) = screenH vi"
  unfolding updateButtons_eq by simp_all

lemma updateButtons_rel:
  "aligned (mouseFile vi) \<Longrightarrow> rel_sum a (mouse_events (snd (updateButtons flags wd vi))) = rel_sum a (mouse_events vi)"
  unfolding updateButtons_eq by simp

lemma ucast_u64_diff: "(ucast (a - b) :: i32) = ucast a - ucast (b :: u64)"
proof -
  have "take_bit 32 (take_bit 64 (k - l)) = take_bit 32 (take_bit 64 k - take_bit 64 l)" for k l :: int
    using take_bit_diff [of 32 "take_bit 64 k" "take_bit 64 l"] take_bit_diff [of 32 k l]
    by simp
  then show ?thesis by transfer simp
qed

text \<open>Moves: the invariant, and in relative mode the sum of the moves is the position.\<close>

lemma move_mouse_inv:
  assumes "mouse_inv vi" and "tracks vi"
  shows "mouse_inv (snd (move_mouse x y vi))" and "tracks (snd (move_mouse x y vi))"
proof -
  have al: "aligned (mouseFile vi)" using assms(1) by (simp add: mouse_inv_def)
  show "mouse_inv (snd (move_mouse x y vi))"
    using assms(1) by (simp add: move_mouse_def Let_def mouse_inv_motion)
  note u = ucast_u64_diff
  show "tracks (snd (move_mouse x y vi))"
    using assms(2) al by (auto simp add: tracks_def move_mouse_def Let_def u)
qed

lemma InjectMouse_inv:
  assumes "mouse_inv vi" and "tracks vi"
  shows "mouse_inv (InjectMouse x y wd fl vi)" and "tracks (InjectMouse x y wd fl vi)"
proof -
  note m = move_mouse_inv [OF assms, of x y]
  let ?v1 = "snd (move_mouse x y vi)"
  let ?v2 = "snd (updateButtons fl wd ?v1)"
  have i2: "mouse_inv ?v2" using m(1) by (rule updateButtons_inv)
  have al: "aligned (mouseFile ?v1)" "aligned (mouseFile ?v2)" using m(1) i2 by (simp_all add: mouse_inv_def)
  have t2: "tracks ?v2" using m(2) updateButtons_rel [OF al(1)]
    by (simp add: tracks_def updateButtons_frame)
  show "mouse_inv (InjectMouse x y wd fl vi)"
    using i2 by (cases "wd = 0") (simp_all add: InjectMouse_def split_beta Let_def mouse_inv_motion)
  show "tracks (InjectMouse x y wd fl vi)"
    using t2 al by (cases "wd = 0") (simp_all add: InjectMouse_def split_beta Let_def tracks_def)
qed

lemma move_mouse_frame:
  "kbdFile (snd (move_mouse x y vi)) = kbdFile vi" "pressedKeys (snd (move_mouse x y vi)) = pressedKeys vi"
  by (simp_all add: move_mouse_def Let_def)

lemma InjectMouse_frame [simp]:
  "kbdFile (InjectMouse x y wd fl vi) = kbdFile vi" "pressedKeys (InjectMouse x y wd fl vi) = pressedKeys vi"
  by (simp_all add: InjectMouse_def split_beta Let_def move_mouse_frame updateButtons_frame)

section \<open>The keyboard invariant\<close>

definition kbd_inv :: "VirtualInput \<Rightarrow> bool" where
  "kbd_inv vi \<longleftrightarrow> aligned (kbdFile vi) \<and> keys_down (kbd_events vi) = pressedKeys vi \<and>
     no_repeat {} (kbd_events vi) \<and> (\<forall>l\<in>pressedKeys vi. \<exists>vk. VKToLinux vk = Some l)"

lemma kbd_event_sel [simp]:
  "kbdFile (kbd_event t c v vi) = writeEvent (kbdFile vi) t c v"
  "mouseFile (kbd_event t c v vi) = mouseFile vi" "pressedKeys (kbd_event t c v vi) = pressedKeys vi"
  "screenW (kbd_event t c v vi) = screenW vi" "screenH (kbd_event t c v vi) = screenH vi"
  "absAvailable (kbd_event t c v vi) = absAvailable vi" "absX (kbd_event t c v vi) = absX vi"
  "absY (kbd_event t c v vi) = absY vi" "buttons (kbd_event t c v vi) = buttons vi"
  "btnLeft (kbd_event t c v vi) = btnLeft vi" "btnRight (kbd_event t c v vi) = btnRight vi"
  "btnMiddle (kbd_event t c v vi) = btnMiddle vi" "btnSide (kbd_event t c v vi) = btnSide vi"
  "btnExtra (kbd_event t c v vi) = btnExtra vi"
  by (simp_all add: kbd_event_def buttons_def)

lemma keys_down_fold: "fold key_effect es {} = keys_down es"
  by (simp add: keys_down_def)

lemma kbd_inv_syn: "kbd_inv vi \<Longrightarrow> kbd_inv (kbd_event EV_SYN SYN_REPORT 0 vi)"
  by (simp add: kbd_inv_def key_effect_def)

lemma kbd_inv_press:
  "kbd_inv vi \<Longrightarrow> VKToLinux vk = Some l \<Longrightarrow> l \<notin> pressedKeys vi \<Longrightarrow>
   kbd_inv (kbd_event EV_KEY l 1 (vi\<lparr>pressedKeys := insert l (pressedKeys vi)\<rparr>))"
  by (auto simp add: kbd_inv_def key_effect_def keys_down_fold)

lemma kbd_inv_release:
  "kbd_inv vi \<Longrightarrow> kbd_inv ((kbd_event EV_KEY l 0 vi)\<lparr>pressedKeys := pressedKeys vi - {l}\<rparr>)"
  by (auto simp add: kbd_inv_def key_effect_def)

lemma kbd_event_pressed:
  "kbd_event t c v (vi\<lparr>pressedKeys := p\<rparr>) = (kbd_event t c v vi)\<lparr>pressedKeys := p\<rparr>"
  by (simp add: kbd_event_def)

lemma InjectKeyboard_eq:
  "InjectKeyboard vk flags vi =
    (case VKToLinux vk of
       None \<Rightarrow> vi
     | Some l \<Rightarrow>
         if flags AND LLKHF_UP \<noteq> 0
         then kbd_event EV_SYN SYN_REPORT 0 ((kbd_event EV_KEY l 0 vi)\<lparr>pressedKeys := pressedKeys vi - {l}\<rparr>)
         else if l \<in> pressedKeys vi then vi
         else kbd_event EV_SYN SYN_REPORT 0
                (kbd_event EV_KEY l 1 (vi\<lparr>pressedKeys := insert l (pressedKeys vi)\<rparr>)))"
  by (simp add: InjectKeyboard_def Let_def kbd_event_pressed split: option.split)

lemma InjectKeyboard_inv: "kbd_inv vi \<Longrightarrow> kbd_inv (InjectKeyboard vk flags vi)"
  by (auto simp add: InjectKeyboard_eq intro!: kbd_inv_syn kbd_inv_press kbd_inv_release
      split: option.split simp del: Diff_insert0)

lemma InjectKeyboard_frame [simp]:
  "mouseFile (InjectKeyboard vk fl vi) = mouseFile vi" "absAvailable (InjectKeyboard vk fl vi) = absAvailable vi"
  "absX (InjectKeyboard vk fl vi) = absX vi" "absY (InjectKeyboard vk fl vi) = absY vi"
  "buttons (InjectKeyboard vk fl vi) = buttons vi"
  by (simp_all add: InjectKeyboard_eq buttons_def split: option.split)

definition release_one :: "u16 \<Rightarrow> VirtualInput \<Rightarrow> VirtualInput" where
  "release_one l vi = (kbd_event EV_KEY l 0 vi)\<lparr>pressedKeys := pressedKeys vi - {l}\<rparr>"

lemma ReleaseAllKeys_eq:
  "ReleaseAllKeys order vi = kbd_event EV_SYN SYN_REPORT 0 (fold release_one order vi)"
  unfolding ReleaseAllKeys_def release_one_def ..

lemma fold_release:
  "kbd_inv vi \<Longrightarrow> kbd_inv (fold release_one order vi) \<and>
     pressedKeys (fold release_one order vi) = pressedKeys vi - set order \<and>
     mouseFile (fold release_one order vi) = mouseFile vi \<and>
     absAvailable (fold release_one order vi) = absAvailable vi \<and>
     absX (fold release_one order vi) = absX vi \<and> absY (fold release_one order vi) = absY vi \<and>
     buttons (fold release_one order vi) = buttons vi"
proof (induction order arbitrary: vi)
  case (Cons l ls)
  have "kbd_inv (release_one l vi)" using Cons.prems unfolding release_one_def by (rule kbd_inv_release)
  from Cons.IH [OF this] show ?case by (auto simp add: release_one_def buttons_def)
qed simp

lemma ReleaseAllKeys_inv:
  assumes "kbd_inv vi"
  shows "kbd_inv (ReleaseAllKeys order vi)" "pressedKeys (ReleaseAllKeys order vi) = pressedKeys vi - set order"
    "mouseFile (ReleaseAllKeys order vi) = mouseFile vi" "absAvailable (ReleaseAllKeys order vi) = absAvailable vi"
    "absX (ReleaseAllKeys order vi) = absX vi" "absY (ReleaseAllKeys order vi) = absY vi"
    "buttons (ReleaseAllKeys order vi) = buttons vi"
  using fold_release [OF assms, of order] kbd_inv_syn by (auto simp add: ReleaseAllKeys_eq)

section \<open>All operations\<close>

text \<open>One call of the interface; a release meets every pressed key once.\<close>

inductive vi_step :: "VirtualInput \<Rightarrow> VirtualInput \<Rightarrow> bool" where
  key: "vi_step vi (InjectKeyboard vk flags vi)"
| mouse: "vi_step vi (InjectMouse x y wheelDelta flags vi)"
| release: "set order = pressedKeys vi \<Longrightarrow> distinct order \<Longrightarrow> vi_step vi (ReleaseAllKeys order vi)"

definition vi_inv :: "VirtualInput \<Rightarrow> bool" where
  "vi_inv vi \<longleftrightarrow> mouse_inv vi \<and> tracks vi \<and> kbd_inv vi"

lemma vi_step_inv: "vi_step vi vi' \<Longrightarrow> vi_inv vi \<Longrightarrow> vi_inv vi'"
proof (induction rule: vi_step.induct)
  case (key vi vk flags)
  then show ?case using InjectKeyboard_inv by (simp add: vi_inv_def mouse_inv_def tracks_def)
next
  case (mouse vi x y wd fl)
  then show ?case using InjectMouse_inv by (simp add: vi_inv_def kbd_inv_def)
next
  case (release order vi)
  then show ?case using ReleaseAllKeys_inv [of vi order] by (simp add: vi_inv_def mouse_inv_def tracks_def)
qed

interpretation vi_system: invariant_system vi_step vi_inv
  by unfold_locales (rule vi_step_inv)

lemmas vi_steps_inv = vi_system.run_inv

lemma NewVirtualInput_inv:
  assumes "NewVirtualInput o1 o2 k1 k2 w h = Inr vi"
  shows "vi_inv vi"
proof -
  obtain f g where f: "setupMouse k1 w h new_file = (None, absAvailable vi, f)" "mouseFile vi = f"
    and g: "setupKeyboard k2 new_file = (None, g)" "kbdFile vi = g"
    and z: "absX vi = 0" "absY vi = 0" "pressedKeys vi = {}" "buttons vi = {}"
    using assms by (auto simp add: NewVirtualInput_def buttons_def split: if_splits prod.splits option.splits)
  note s = setupMouse_ok [OF f(1)] setupKeyboard_ok [OF g(1)]
  then have "events f = []" "events g = []" "aligned f" "aligned g" by (simp_all add: events_def aligned_def)
  then show ?thesis using s f(2) g(2) z
    by (simp add: vi_inv_def mouse_inv_def tracks_def kbd_inv_def)
qed

lemma ioctls_True: "\<exists>f'. ioctls (\<lambda>_. True) rs f = (None, f')"
  by (induction rs arbitrary: f) auto

lemma NewVirtualInput_ok: "\<exists>vi. NewVirtualInput True True (\<lambda>_. True) (\<lambda>_. True) w h = Inr vi"
proof -
  have "\<exists>a f. setupMouse (\<lambda>_. True) w h new_file = (None, a, f)"
    unfolding setupMouse_def setupAbsoluteAxes_def
    using ioctls_True by (auto split: prod.split option.split simp del: ioctls.simps) (metis Pair_inject option.distinct(1))+
  moreover have "\<exists>f. setupKeyboard (\<lambda>_. True) new_file = (None, f)"
    unfolding setupKeyboard_def Let_def
    using ioctls_True by (auto split: prod.split option.split simp del: ioctls.simps) (metis Pair_inject option.distinct(1))+
  ultimately show ?thesis by (auto simp add: NewVirtualInput_def)
qed

text \<open>Closing the virtual devices releases every key and closes both files.\<close>

lemma VirtualInput_Close_released:
  assumes "vi_inv vi" and "set order = pressedKeys vi"
  shows "keys_down (kbd_events (VirtualInput_Close k3 k4 order vi)) = {} \<and>
     \<not> ufOpen (mouseFile (VirtualInput_Close k3 k4 order vi)) \<and>
     \<not> ufOpen (kbdFile (VirtualInput_Close k3 k4 order vi)) \<and>
     buttons (VirtualInput_Close k3 k4 order vi) = buttons vi"
proof -
  have "kbd_inv vi" using assms(1) by (simp add: vi_inv_def)
  note r = ReleaseAllKeys_inv [OF this, of order]
  have "ufData (snd (ioctls k rs f)) = ufData f" for k rs f
    using ioctls_keep [of k rs f] by (cases "ioctls k rs f") auto
  then show ?thesis using r assms(2)
    by (auto simp add: kbd_inv_def VirtualInput_Close_def Let_def events_def buttons_def simp del: ioctls.simps)
qed

section \<open>Positions\<close>

lemma sint_small_word:
  fixes k :: int
  assumes "- (2 ^ 63) \<le> k" and "k < 2 ^ 63"
  shows "sint (word_of_int k :: u64) = k"
  using assms by (simp add: sint_sbintrunc' signed_take_bit_int_eq_self)

lemma abs_position_eq:
  assumes "0 \<le> sint v" and "sint v < 65536" and "0 < sint extent" and "sint extent < 2 ^ 31"
  shows "sint (abs_position v extent) = sint v * sint extent div 65536"
proof -
  have p: "0 \<le> sint v * sint extent" "sint v * sint extent < 65536 * 2 ^ 31"
    using assms mult_strict_mono [of "sint v" 65536 "sint extent" "2 ^ 31"] by simp_all
  have "scast v * extent = word_of_int (sint v * sint extent)"
    by (simp add: scast_id)
  then have "sint (scast v * extent) = sint (word_of_int (sint v * sint extent) :: u64)" by (rule arg_cong)
  also have "\<dots> = sint v * sint extent"
  proof -
    define k where "k = sint v * sint extent"
    have "0 \<le> k" "k < 65536 * 2 ^ 31" using p by (simp_all only: k_def)
    then show ?thesis unfolding k_def [symmetric] by (intro sint_small_word) simp_all
  qed
  finally have s: "sint (scast v * extent) = sint v * sint extent" .
  have "sint v * sint extent sdiv 65536 = sint v * sint extent div 65536"
    using p(1) by (simp add: signed_divide_int_eq_divide_int sgn_if)
  moreover have "0 \<le> sint v * sint extent div 65536" "sint v * sint extent div 65536 < 2 ^ 31"
    using p by (simp_all add: pos_imp_zdiv_nonneg_iff div_less_iff_less_mult)
  ultimately show ?thesis using s by (simp add: abs_position_def godiv_def sint_small_word)
qed

lemma abs_position_bounds:
  assumes "0 \<le> sint v" and "sint v < 65536" and "0 < sint extent" and "sint extent < 2 ^ 31"
  shows "0 \<le> sint (abs_position v extent)" and "sint (abs_position v extent) < sint extent"
proof -
  note e = abs_position_eq [OF assms]
  have "sint v * sint extent < 65536 * sint extent" using assms by simp
  then show "sint (abs_position v extent) < sint extent" unfolding e
    by (simp add: div_less_iff_less_mult mult.commute)
  show "0 \<le> sint (abs_position v extent)" unfolding e
    using assms by (simp add: pos_imp_zdiv_nonneg_iff)
qed

section \<open>Properties\<close>

text \<open>C19: From the creation of the virtual devices on, through any sequence of injected mouse and
  keyboard packets and releases, the keys that the written events hold down are exactly
  \<open>pressedKeys\<close>, all keys of the table, no key is pressed while it is down, and the mouse
  buttons that are down are exactly those of the button flags.\<close>

theorem uinput_held_keys:
  assumes "NewVirtualInput o1 o2 k1 k2 w h = Inr vi0" and "vi_step\<^sup>*\<^sup>* vi0 vi"
  shows "keys_down (kbd_events vi) = pressedKeys vi \<and> no_repeat {} (kbd_events vi) \<and>
    (\<forall>l\<in>pressedKeys vi. \<exists>vk. VKToLinux vk = Some l) \<and>
    keys_down (mouse_events vi) = buttons vi"
  using vi_steps_inv [OF assms(2) NewVirtualInput_inv [OF assms(1)]]
  by (auto simp add: vi_inv_def kbd_inv_def mouse_inv_def)

theorem uinput_held_keys_witness:
  "\<exists>vi0. NewVirtualInput True True (\<lambda>_. True) (\<lambda>_. True) 1920 1080 = Inr vi0 \<and>
     keys_down (kbd_events (InjectKeyboard 0x41 0 vi0)) = pressedKeys (InjectKeyboard 0x41 0 vi0)"
proof -
  obtain vi0 where v: "NewVirtualInput True True (\<lambda>_. True) (\<lambda>_. True) 1920 1080 = Inr vi0"
    using NewVirtualInput_ok by blast
  from uinput_held_keys [OF v r_into_rtranclp [of vi_step, OF vi_step.key [of vi0 "0x41" 0]]] v
  show ?thesis by blast
qed

text \<open>Releasing all keys, in whatever order Go iterates over the map, writes a release for
  every key that is down, and leaves none down; so does closing the devices, which also closes
  both files.\<close>

lemma uinput_release_all:
  assumes "NewVirtualInput o1 o2 k1 k2 w h = Inr vi0" and "vi_step\<^sup>*\<^sup>* vi0 vi"
    and "set order = pressedKeys vi"
  shows "keys_down (kbd_events (ReleaseAllKeys order vi)) = {} \<and>
     pressedKeys (ReleaseAllKeys order vi) = {} \<and>
     keys_down (kbd_events (VirtualInput_Close k3 k4 order vi)) = {} \<and>
     \<not> ufOpen (mouseFile (VirtualInput_Close k3 k4 order vi)) \<and>
     \<not> ufOpen (kbdFile (VirtualInput_Close k3 k4 order vi))"
proof -
  have i: "vi_inv vi" using vi_steps_inv [OF assms(2) NewVirtualInput_inv [OF assms(1)]] .
  then have "kbd_inv vi" by (simp add: vi_inv_def)
  from ReleaseAllKeys_inv(1,2) [OF this, of order] VirtualInput_Close_released [OF i assms(3)] assms(3) show ?thesis
    by (simp add: kbd_inv_def)
qed

text \<open>C31: Every event that is ever written to the virtual mouse was announced to the kernel with
  its type and code when the device was set up, absolute positions included only if the absolute
  axes could be set up; without them the relative moves add up to the position.\<close>

theorem uinput_mouse_announced:
  assumes "NewVirtualInput o1 o2 k1 k2 w h = Inr vi0" and "vi_step\<^sup>*\<^sup>* vi0 vi"
  shows "list_all (announced (ufReqs (mouseFile vi))) (mouse_events vi) \<and>
    (absAvailable vi \<or>
     rel_sum REL_X (mouse_events vi) = ucast (absX vi) \<and> rel_sum REL_Y (mouse_events vi) = ucast (absY vi))"
  using vi_steps_inv [OF assms(2) NewVirtualInput_inv [OF assms(1)]]
  by (auto simp add: vi_inv_def mouse_inv_def tracks_def)

theorem uinput_mouse_announced_witness:
  "\<exists>vi0. NewVirtualInput True True (\<lambda>_. True) (\<lambda>_. True) 1920 1080 = Inr vi0 \<and>
     list_all (announced (ufReqs (mouseFile (InjectMouse 100 200 0 0x200 vi0))))
       (mouse_events (InjectMouse 100 200 0 0x200 vi0))"
proof -
  obtain vi0 where v: "NewVirtualInput True True (\<lambda>_. True) (\<lambda>_. True) 1920 1080 = Inr vi0"
    using NewVirtualInput_ok by blast
  have s: "vi_step\<^sup>*\<^sup>* vi0 (InjectMouse 100 200 0 0x200 vi0)" by (rule r_into_rtranclp, rule vi_step.mouse)
  from uinput_mouse_announced [OF v s] v show ?thesis by blast
qed

lemma godiv_120: "sint (godiv w 120) = sint (w :: i32) sdiv 120"
proof -
  have "- (2 ^ 31) \<le> sint w" "sint w < 2 ^ 31"
    using sint_greater_eq [of w] sint_less [of w] by simp_all
  then have "- (2 ^ 31) \<le> sint w sdiv 120 \<and> sint w sdiv 120 < 2 ^ 31"
    by (simp add: signed_divide_int_def sgn_if) (auto simp add: div_less_iff_less_mult intro: order_trans)
  then show ?thesis
    by (simp add: godiv_def sint_sbintrunc' signed_take_bit_int_eq_self)
qed

lemma linux_wheel_sint:
  assumes "wd \<noteq> 0"
  shows "sint (linux_wheel wd) =
    (if 0 < sint wd then max 1 (sint wd div 120) else min (-1) (- ((- sint wd) div 120)))"
proof -
  have nz: "sint wd \<noteq> 0" using assms by (metis of_int_0 of_int_sint scast_id)
  have z: "godiv wd 120 = 0 \<longleftrightarrow> sint wd sdiv 120 = 0"
    using godiv_120 [of wd] by (metis of_int_0 of_int_sint scast_id sint_0)
  show ?thesis
  proof (cases "0 < sint wd")
    case True
    then have "sint wd sdiv 120 = sint wd div 120" by (simp add: signed_divide_int_def)
    with True z show ?thesis by (auto simp add: linux_wheel_def Let_def godiv_120 max_def)
  next
    case False
    then have "sint wd sdiv 120 = - ((- sint wd) div 120)" using nz by (simp add: signed_divide_int_def)
    moreover have "0 \<le> (- sint wd) div 120" using False by (simp add: pos_imp_zdiv_nonneg_iff)
    ultimately show ?thesis using False nz z by (auto simp add: linux_wheel_def Let_def godiv_120 min_def)
  qed
qed

text \<open>A press of the first side button arrives with the button number 1 in the wheel field;
  besides the button, \<open>InjectMouse\<close> also scrolls by one notch.\<close>

lemma xbutton_scrolls:
  assumes "aligned (mouseFile vi)"
  shows "\<exists>moves. mouse_events (InjectMouse x y 1 WM_XBUTTONDOWN vi) =
     mouse_events vi @ moves @ [event EV_KEY BTN_SIDE 1, event EV_REL REL_WHEEL 1, event EV_SYN SYN_REPORT 0] \<and>
     list_all (\<lambda>e. evType e \<in> {EV_ABS, EV_REL} \<and> evCode e \<in> {0, 1}) moves"
proof -
  have w: "linux_wheel 1 = 1" by (simp add: linux_wheel_def godiv_def signed_divide_int_def)
  have "\<exists>moves. mouse_events (snd (move_mouse x y vi)) = mouse_events vi @ moves \<and>
      aligned (mouseFile (snd (move_mouse x y vi))) \<and>
      list_all (\<lambda>e. evType e \<in> {EV_ABS, EV_REL} \<and> evCode e \<in> {0, 1}) moves"
    using assms by (auto simp add: move_mouse_def Let_def)
  then obtain moves where m: "mouse_events (snd (move_mouse x y vi)) = mouse_events vi @ moves"
      "aligned (mouseFile (snd (move_mouse x y vi)))"
      "list_all (\<lambda>e. evType e \<in> {EV_ABS, EV_REL} \<and> evCode e \<in> {0, 1}) moves" by blast
  have "mouse_events (InjectMouse x y 1 WM_XBUTTONDOWN vi) = mouse_events vi @ moves @
      [event EV_KEY BTN_SIDE 1, event EV_REL REL_WHEEL 1, event EV_SYN SYN_REPORT 0]"
    using m(1,2) by (simp add: InjectMouse_def split_beta Let_def updateButtons_eq w)
  with m(3) show ?thesis by blast
qed

text \<open>Any nonzero wheel delta scrolls by at least one notch in its own direction, and a
  multiple of 120 by exactly as many notches.\<close>

lemma wheel_notches:
  assumes "wheelDelta \<noteq> 0"
  shows "(sint (linux_wheel wheelDelta) < 0 \<longleftrightarrow> sint wheelDelta < 0) \<and> linux_wheel wheelDelta \<noteq> 0 \<and>
    (\<forall>k. sint wheelDelta = 120 * k \<longrightarrow> sint (linux_wheel wheelDelta) = k)"
proof -
  note e = linux_wheel_sint [OF assms]
  have nz: "sint wheelDelta \<noteq> 0" using assms by (metis of_int_0 of_int_sint scast_id)
  have s: "sint (linux_wheel wheelDelta) < 0 \<longleftrightarrow> sint wheelDelta < 0" "sint (linux_wheel wheelDelta) \<noteq> 0"
    unfolding e using nz by auto
  have "sint (linux_wheel wheelDelta) = k" if "sint wheelDelta = 120 * k" for k
    unfolding e that using nz that by (auto simp add: max_def min_def)
  with s show ?thesis by auto
qed

end
