(* ===== verification/Forward.thy ===== *)
theory Forward
  imports Complex_Main Config Evdev Sender Keymap Uinput
begin

text \<open>
  The forwarding of local input in \<open>src/main.go\<close>: the callbacks that \<open>setupInputCapture\<close>
  installs, with the absolute cursor they share, \<open>buttonPacket\<close>, \<open>pixelToAbsolute\<close>, the
  keep-awake tap and the heartbeats.  A \<open>float64\<close> is the rational number it stands for, and
  \<open>rnd\<close> rounds the exact result of an operation to a \<open>float64\<close>; the properties hold for any
  rounding that is monotone and exact on the integers they use.  Each handler returns the
  packets it hands to \<open>sender.Send\<close>, in order.
\<close>

type_synonym send = "PackageType \<times> payload"

section \<open>Coordinates\<close>

definition clamp :: "i32 \<Rightarrow> i32 \<Rightarrow> i32 \<Rightarrow> i32" where
  "clamp v lo hi = (if sint v < sint lo then lo else if sint hi < sint v then hi else v)"

definition clampFloat :: "rat \<Rightarrow> rat \<Rightarrow> rat \<Rightarrow> rat" where
  "clampFloat v lo hi = (if v < lo then lo else if hi < v then hi else v)"

text \<open>\<open>math.Round\<close>: half away from zero.\<close>

definition go_round :: "rat \<Rightarrow> int" where
  "go_round x = (if 0 \<le> x then \<lfloor>x + 1 / 2\<rfloor> else - \<lfloor>1 / 2 - x\<rfloor>)"

definition pixelToAbsolute :: "(rat \<Rightarrow> rat) \<Rightarrow> rat \<Rightarrow> rat \<Rightarrow> i32" where
  "pixelToAbsolute rnd pos sz =
    (if sz \<le> 0 then 0
     else
       let n = word_of_int (go_round (rnd (rnd (clampFloat pos 0 sz / sz) * 65535)))
       in clamp n 0 65535)"

text \<open>The variables that the callbacks share.\<close>

record Cursor =
  baseScale :: rat
  sourceWidth :: rat
  sourceHeight :: rat
  cursorXf :: rat
  cursorYf :: rat

definition new_cursor :: "(rat \<Rightarrow> rat) \<Rightarrow> Config \<Rightarrow> Cursor" where
  "new_cursor rnd cfg =
    (let w = rnd (of_int (max (sint (ScreenWidth cfg)) 1));
         h = rnd (of_int (max (sint (ScreenHeight cfg)) 1))
     in \<lparr>baseScale = rnd (rnd (of_int (sint (MouseSensitivity cfg))) / 24), sourceWidth = w, sourceHeight = h,
         cursorXf = rnd (w / 2), cursorYf = rnd (h / 2)\<rparr>)"

definition currentCursor :: "(rat \<Rightarrow> rat) \<Rightarrow> Cursor \<Rightarrow> i32 \<times> i32" where
  "currentCursor rnd cu =
    (pixelToAbsolute rnd (cursorXf cu) (sourceWidth cu), pixelToAbsolute rnd (cursorYf cu) (sourceHeight cu))"

section \<open>The callbacks\<close>

definition buttonPacket :: "u16 \<Rightarrow> bool \<Rightarrow> i32 \<times> i32" where
  "buttonPacket code pressed =
    (if code = BTN_LEFT then (if pressed then (WM_LBUTTONDOWN, 0) else (WM_LBUTTONUP, 0))
     else if code = BTN_RIGHT then (if pressed then (WM_RBUTTONDOWN, 0) else (WM_RBUTTONUP, 0))
     else if code = BTN_MIDDLE then (if pressed then (WM_MBUTTONDOWN, 0) else (WM_MBUTTONUP, 0))
     else if code = BTN_SIDE then (if pressed then (WM_XBUTTONDOWN, 1) else (WM_XBUTTONUP, 1))
     else if code = BTN_EXTRA then (if pressed then (WM_XBUTTONDOWN, 2) else (WM_XBUTTONUP, 2))
     else (0, 0))"

definition onMouseEvent :: "(rat \<Rightarrow> rat) \<Rightarrow> int \<Rightarrow> int \<Rightarrow> int \<Rightarrow> Cursor \<Rightarrow> send list \<times> Cursor" where
  "onMouseEvent rnd dx dy wheel cu =
    (let cu = (if wheel = 0 then
                 (let x = rnd (cursorXf cu + rnd (rnd (of_int dx) * baseScale cu));
                      y = rnd (cursorYf cu + rnd (rnd (of_int dy) * baseScale cu))
                  in cu\<lparr>cursorXf := clampFloat x 0 (sourceWidth cu), cursorYf := clampFloat y 0 (sourceHeight cu)\<rparr>)
               else cu);
         (cursorX, cursorY) = currentCursor rnd cu;
         flags = (if wheel \<noteq> 0 then WM_MOUSEWHEEL else WM_MOUSEMOVE)
     in ([(Mouse, PMouse (Some \<lparr>mX = cursorX, mY = cursorY, mWheelDelta = word_of_int wheel, mFlags = flags\<rparr>))], cu))"

definition onButtonEvent :: "(rat \<Rightarrow> rat) \<Rightarrow> u16 \<Rightarrow> bool \<Rightarrow> Cursor \<Rightarrow> send list" where
  "onButtonEvent rnd code pressed cu =
    (let (flags, xButton) = buttonPacket code pressed in
     if flags = 0 then []
     else let (cursorX, cursorY) = currentCursor rnd cu
          in [(Mouse, PMouse (Some \<lparr>mX = cursorX, mY = cursorY, mWheelDelta = xButton, mFlags = flags\<rparr>))])"

definition extended_keys :: "i32 set" where
  "extended_keys = {0xA3, 0xA5, 0x21, 0x22, 0x23, 0x24, 0x25, 0x26, 0x27, 0x28, 0x2D, 0x2E, 0x6F, 0x90}"

text \<open>\<open>table\<close> is \<open>input.LinuxToVK\<close>.\<close>

definition onKeyEvent :: "(u16 \<Rightarrow> i32 option) \<Rightarrow> u16 \<Rightarrow> bool \<Rightarrow> send list" where
  "onKeyEvent table code pressed =
    (case table code of
       None \<Rightarrow> []
     | Some vk \<Rightarrow>
         (let flags = 0;
              flags = (if \<not> pressed then flags OR LLKHF_UP else flags);
              flags = (if vk \<in> extended_keys then flags OR LLKHF_EXTENDED else flags)
          in [(Keyboard, PKeyboard (Some \<lparr>kVk = vk, kFlags = flags\<rparr>))]))"

text \<open>
  What a call of the capture makes the session send.  \<open>OnEdgeHit\<close> and \<open>OnReturn\<close> only log;
  \<open>OnEmergency\<close> closes the capture and exits.
\<close>

fun forward ::
  "(rat \<Rightarrow> rat) \<Rightarrow> (u16 \<Rightarrow> i32 option) \<Rightarrow> callback \<Rightarrow> Cursor \<Rightarrow> send list \<times> Cursor" where
  "forward rnd table EdgeHit cu = ([], cu)"
| "forward rnd table ReturnToLocal cu = ([], cu)"
| "forward rnd table (MouseEvent dx dy wheel) cu = onMouseEvent rnd dx dy wheel cu"
| "forward rnd table (ButtonEvent code pressed) cu = (onButtonEvent rnd code pressed cu, cu)"
| "forward rnd table (KeyEvent code pressed) cu = (onKeyEvent table code pressed, cu)"
| "forward rnd table Emergency cu = ([], cu)"

fun forward_all ::
  "(rat \<Rightarrow> rat) \<Rightarrow> (u16 \<Rightarrow> i32 option) \<Rightarrow> callback list \<Rightarrow> Cursor \<Rightarrow> send list \<times> Cursor" where
  "forward_all rnd table [] cu = ([], cu)"
| "forward_all rnd table (cb # cbs) cu =
    (let (s1, cu) = forward rnd table cb cu; (s2, cu) = forward_all rnd table cbs cu in (s1 @ s2, cu))"

section \<open>Heartbeats and the keep-awake tap\<close>

text \<open>The packets of \<open>sendHeartbeats\<close>: the 15 at the start, then one for every tick.\<close>

definition sendHeartbeats :: "nat \<Rightarrow> send list" where
  "sendHeartbeats ticks = replicate 15 (Heartbeat, PNil) @ replicate ticks (Heartbeat, PNil)"

definition jigglerKeys :: "(i32 \<times> i32 \<times> gostring) list" where
  "jigglerKeys =
    [(0xA2, 0, gostr ''LCTRL''), (0xA4, 0, gostr ''LALT''), (0xA0, 0, gostr ''LSHIFT''),
     (0xA3, LLKHF_EXTENDED, gostr ''RCTRL''), (0xA5, LLKHF_EXTENDED, gostr ''RALT''), (0xA1, 0, gostr ''RSHIFT'')]"

text \<open>\<open>i\<close> is the result of \<open>jigglerRNG.Intn(len(jigglerKeys))\<close>.\<close>

definition jigglerTick :: "nat \<Rightarrow> EvdevCapture \<Rightarrow> send list \<times> gostring option" where
  "jigglerTick i e =
    (if IsRemoteMode e then ([], None)
     else (case jigglerKeys ! i of (vk, downFlags, name) \<Rightarrow>
       ([(Keyboard, PKeyboard (Some \<lparr>kVk = vk, kFlags = downFlags\<rparr>)),
         (Keyboard, PKeyboard (Some \<lparr>kVk = vk, kFlags = downFlags OR LLKHF_UP\<rparr>))], Some name)))"

section \<open>Bounds of the coordinates\<close>

text \<open>
  What is used of rounding: it is monotone, keeps a result between two integers between them,
  because small integers are exact.
\<close>

definition rounding :: "(rat \<Rightarrow> rat) \<Rightarrow> bool" where
  "rounding rnd \<longleftrightarrow> mono rnd \<and> (\<forall>k. \<bar>k\<bar> \<le> 2 ^ 53 \<longrightarrow> rnd (of_int k) = of_int k)"

lemma rounding_int: "rounding rnd \<Longrightarrow> \<bar>k\<bar> \<le> 2 ^ 53 \<Longrightarrow> rnd (of_int k) = of_int k"
  by (simp add: rounding_def)

lemma rounding_mono: "rounding rnd \<Longrightarrow> x \<le> y \<Longrightarrow> rnd x \<le> rnd y"
  by (auto simp add: rounding_def mono_def)

lemma rounding_consts: "rounding rnd \<Longrightarrow> rnd 0 = 0 \<and> rnd 1 = 1 \<and> rnd 65535 = 65535"
  using rounding_int [of rnd 0] rounding_int [of rnd 1] rounding_int [of rnd 65535] by simp

lemma clampFloat_bounds: "lo \<le> hi \<Longrightarrow> lo \<le> clampFloat v lo hi \<and> clampFloat v lo hi \<le> hi"
  by (simp add: clampFloat_def)

lemma clampFloat_mono: "lo \<le> hi \<Longrightarrow> v \<le> w \<Longrightarrow> clampFloat v lo hi \<le> clampFloat w lo hi"
  by (simp add: clampFloat_def)

definition absolute :: "(rat \<Rightarrow> rat) \<Rightarrow> rat \<Rightarrow> rat \<Rightarrow> rat" where
  "absolute rnd pos sz = rnd (rnd (clampFloat pos 0 sz / sz) * 65535)"

lemma absolute_bounds:
  assumes "rounding rnd" and "0 < sz"
  shows "0 \<le> absolute rnd pos sz \<and> absolute rnd pos sz \<le> 65535"
proof -
  let ?q = "clampFloat pos 0 sz / sz"
  have "0 \<le> ?q" "?q \<le> 1" using clampFloat_bounds [of 0 sz pos] assms(2) by simp_all
  then have "0 \<le> rnd ?q" "rnd ?q \<le> 1"
    using rounding_mono [OF assms(1)] rounding_consts [OF assms(1)] by metis+
  then have "0 \<le> rnd ?q * 65535" "rnd ?q * 65535 \<le> 65535" by simp_all
  then show ?thesis unfolding absolute_def
    using rounding_mono [OF assms(1)] rounding_consts [OF assms(1)] by metis
qed

lemma absolute_mono:
  assumes "rounding rnd" and "0 < sz" and "p \<le> q"
  shows "absolute rnd p sz \<le> absolute rnd q sz"
  unfolding absolute_def using assms clampFloat_mono [of 0 sz p q]
  by (intro rounding_mono [OF assms(1)] mult_right_mono divide_right_mono) auto

lemma go_round_bounds: "0 \<le> x \<Longrightarrow> x \<le> of_int k \<Longrightarrow> 0 \<le> go_round x \<and> go_round x \<le> k"
  by (auto simp add: go_round_def floor_le_iff le_floor_iff)

lemma go_round_mono: "0 \<le> x \<Longrightarrow> x \<le> y \<Longrightarrow> go_round x \<le> go_round y"
  by (simp add: go_round_def floor_mono)

lemma sint_i32: "0 \<le> k \<Longrightarrow> k < 2 ^ 31 \<Longrightarrow> sint (word_of_int k :: i32) = k"
  by (simp add: sint_sbintrunc' signed_take_bit_int_eq_self)

text \<open>No wrap-around happens and the last clamp changes nothing.\<close>

lemma pixelToAbsolute_eq:
  assumes "rounding rnd" and "0 < sz"
  shows "sint (pixelToAbsolute rnd pos sz) = go_round (absolute rnd pos sz)"
    and "0 \<le> sint (pixelToAbsolute rnd pos sz)" and "sint (pixelToAbsolute rnd pos sz) \<le> 65535"
proof -
  let ?k = "go_round (absolute rnd pos sz)"
  have b: "0 \<le> ?k" "?k \<le> 65535" using absolute_bounds [OF assms] go_round_bounds [of "absolute rnd pos sz" 65535] by auto
  then have "sint (word_of_int ?k :: i32) = ?k" by (intro sint_i32) simp_all
  then show "sint (pixelToAbsolute rnd pos sz) = ?k"
    using b assms(2) by (simp add: pixelToAbsolute_def clamp_def absolute_def)
  with b show "0 \<le> sint (pixelToAbsolute rnd pos sz)" "sint (pixelToAbsolute rnd pos sz) \<le> 65535" by simp_all
qed


definition cursor_inv :: "Cursor \<Rightarrow> bool" where
  "cursor_inv cu \<longleftrightarrow> 0 < sourceWidth cu \<and> 0 < sourceHeight cu \<and>
     0 \<le> cursorXf cu \<and> cursorXf cu \<le> sourceWidth cu \<and> 0 \<le> cursorYf cu \<and> cursorYf cu \<le> sourceHeight cu"

definition mouse_in_range :: "send \<Rightarrow> bool" where
  "mouse_in_range s =
    (case snd s of
       PMouse (Some m) \<Rightarrow> 0 \<le> sint (mX m) \<and> sint (mX m) \<le> 65535 \<and> 0 \<le> sint (mY m) \<and> sint (mY m) \<le> 65535
     | _ \<Rightarrow> True)"

lemma rounding_halves:
  assumes "rounding rnd" and "0 \<le> w" and "rnd w = w"
  shows "0 \<le> rnd (w / 2) \<and> rnd (w / 2) \<le> w"
proof
  show "0 \<le> rnd (w / 2)"
    using rounding_mono [OF assms(1), of 0 "w / 2"] rounding_consts [OF assms(1)] assms(2) by simp
  show "rnd (w / 2) \<le> w" using rounding_mono [OF assms(1), of "w / 2" w] assms(2,3) by simp
qed

text \<open>A rounded number is rounded to itself.\<close>

lemma new_cursor_inv:
  assumes "rounding rnd" and "\<forall>x. rnd (rnd x) = rnd x"
  shows "cursor_inv (new_cursor rnd cfg)"
proof -
  have w: "1 \<le> rnd (of_int (max k 1))" for k
    using rounding_mono [OF assms(1), of 1 "of_int (max k 1)"] rounding_consts [OF assms(1)]
    by (simp add: max_def split: if_splits)
  have "0 < rnd (of_int (max k 1))" "0 \<le> rnd (rnd (of_int (max k 1)) / 2)"
    "rnd (rnd (of_int (max k 1)) / 2) \<le> rnd (of_int (max k 1))" for k
    using w [of k] rounding_halves [OF assms(1), of "rnd (of_int (max k 1))"] assms(2) by auto
  then show ?thesis by (simp add: new_cursor_def cursor_inv_def Let_def)
qed

lemma mouse_packet_in_range:
  "rounding rnd \<Longrightarrow> cursor_inv cu \<Longrightarrow>
   mouse_in_range (t, PMouse (Some \<lparr>mX = fst (currentCursor rnd cu), mY = snd (currentCursor rnd cu), mWheelDelta = d, mFlags = f\<rparr>))"
  using pixelToAbsolute_eq(2,3) by (simp add: mouse_in_range_def currentCursor_def cursor_inv_def)

lemma forward_inv:
  assumes "rounding rnd" and "cursor_inv cu" and "forward rnd table cb cu = (sends, cu')"
  shows "cursor_inv cu' \<and> list_all mouse_in_range sends"
proof (cases cb)
  case (MouseEvent dx dy wheel)
  have "cursor_inv cu'"
    using assms(2,3) MouseEvent clampFloat_bounds [of 0 "sourceWidth cu"] clampFloat_bounds [of 0 "sourceHeight cu"]
    by (auto simp add: onMouseEvent_def Let_def split_beta cursor_inv_def)
  moreover from this have "list_all mouse_in_range sends"
    using assms(1,3) MouseEvent mouse_packet_in_range [of rnd cu']
    by (auto simp add: onMouseEvent_def Let_def split_beta)
  ultimately show ?thesis by simp
next
  case (ButtonEvent code pressed)
  then show ?thesis
    using assms mouse_packet_in_range [OF assms(1,2)] by (auto simp add: onButtonEvent_def split_beta split: if_splits)
next
  case (KeyEvent code pressed)
  then show ?thesis
    using assms by (auto simp add: onKeyEvent_def Let_def mouse_in_range_def split: option.splits)
qed (use assms in auto)

lemma forward_all_inv:
  "rounding rnd \<Longrightarrow> cursor_inv cu \<Longrightarrow> forward_all rnd table cbs cu = (sends, cu') \<Longrightarrow>
   cursor_inv cu' \<and> list_all mouse_in_range sends"
proof (induction cbs arbitrary: cu sends)
  case (Cons cb cbs)
  obtain s1 c1 where 1: "forward rnd table cb cu = (s1, c1)" by fastforce
  obtain s2 c2 where 2: "forward_all rnd table cbs c1 = (s2, c2)" by fastforce
  from Cons.prems(3) 1 2 have eq: "sends = s1 @ s2" "cu' = c2" by auto
  from forward_inv [OF Cons.prems(1,2) 1] have "cursor_inv c1" "list_all mouse_in_range s1" by auto
  with Cons.IH [OF Cons.prems(1) \<open>cursor_inv c1\<close>] 2 eq show ?case by simp
qed simp

section \<open>Properties\<close>

text \<open>C26: Whatever input is forwarded, in whatever order and however large the movements, the
  shared cursor stays inside the source screen and every mouse packet carries coordinates from
  0 to 65535.\<close>

theorem forwarded_in_range:
  assumes "rounding rnd" and "\<forall>x. rnd (rnd x) = rnd x"
    and "forward_all rnd table cbs (new_cursor rnd cfg) = (sends, cu)"
  shows "0 \<le> cursorXf cu \<and> cursorXf cu \<le> sourceWidth cu \<and> 0 \<le> cursorYf cu \<and> cursorYf cu \<le> sourceHeight cu \<and>
    (\<forall>t m. (t, PMouse (Some m)) \<in> set sends \<longrightarrow>
       0 \<le> sint (mX m) \<and> sint (mX m) \<le> 65535 \<and> 0 \<le> sint (mY m) \<and> sint (mY m) \<le> 65535)"
  using forward_all_inv [OF assms(1) new_cursor_inv [OF assms(1,2)] assms(3)]
  by (fastforce simp add: cursor_inv_def list_all_iff mouse_in_range_def)

lemma rounding_id: "rounding (\<lambda>x. x)"
  by (simp add: rounding_def mono_def)

theorem forwarded_in_range_witness:
  "\<exists>sends cu. forward_all (\<lambda>x. x) (\<lambda>l. None) [MouseEvent (- 5000) 7 0, ButtonEvent BTN_LEFT True] (new_cursor (\<lambda>x. x) default_config)
       = (sends, cu) \<and> length sends = 2 \<and> 0 \<le> cursorXf cu"
proof -
  obtain sends cu where f: "forward_all (\<lambda>x. x) (\<lambda>l. None) [MouseEvent (- 5000) 7 0, ButtonEvent BTN_LEFT True]
      (new_cursor (\<lambda>x. x) default_config) = (sends, cu)" by fastforce
  moreover have "length sends = 2"
    using f by (auto simp add: onMouseEvent_def onButtonEvent_def buttonPacket_def Let_def split_beta)
  ultimately show ?thesis using forwarded_in_range [OF rounding_id _ f] by auto
qed

text \<open>With exact arithmetic, a pixel of a screen that is at most 32767 wide is sent as a
  coordinate that a screen of the same size maps back to the same pixel or its left (upper)
  neighbour.\<close>

lemma pixel_survives:
  assumes "0 < W" and "W \<le> 32767" and "0 \<le> p" and "p \<le> W"
  shows "sint (abs_position (pixelToAbsolute (\<lambda>x. x) (of_int p) (of_int W)) (word_of_int W)) \<in> {p - 1, p}"
proof -
  let ?v = "pixelToAbsolute (\<lambda>x. x) (of_int p) (of_int W)"
  let ?x = "sint ?v" and ?q = "of_int p / of_int W * 65535 :: rat"
  have W: "(0::rat) < of_int W" using assms(1) by simp
  have "absolute (\<lambda>x. x) (of_int p) (of_int W) = ?q"
    using assms(3,4) by (simp add: absolute_def clampFloat_def)
  then have x: "?x = \<lfloor>?q + 1 / 2\<rfloor>"
    using pixelToAbsolute_eq(1) [OF rounding_id W, of "of_int p"] assms(1,3) by (simp add: go_round_def)
  have "of_int ?x \<le> ?q + 1 / 2" "?q + 1 / 2 < of_int ?x + 1" unfolding x by linarith+
  then have i: "of_int ?x * of_int W \<le> (?q + 1 / 2) * of_int W" "(?q + 1 / 2) * of_int W < (of_int ?x + 1) * of_int W"
    using W by (auto intro: mult_right_mono mult_strict_right_mono)
  have q: "(?q + 1 / 2) * of_int W = of_int p * 65535 + of_int W / 2" using W by (simp add: field_simps)
  have "(of_int (2 * (?x * W)) :: rat) \<le> of_int (2 * 65535 * p + W)"
    "(of_int (2 * 65535 * p + W) :: rat) < of_int (2 * (?x * W + W))"
    using i [unfolded q] by (simp_all add: distrib_right del: of_int_sint)
  then have "2 * (?x * W) \<le> 2 * 65535 * p + W" "2 * 65535 * p + W < 2 * (?x * W + W)"
    by (simp_all only: of_int_le_iff of_int_less_iff)
  then have "?x * W < (p + 1) * 65536 \<and> (p - 1) * 65536 \<le> ?x * W" using assms by auto
  moreover have "y div 65536 \<in> {p - 1, p}" if "y < (p + 1) * 65536" "(p - 1) * 65536 \<le> y" for y :: int
  proof -
    have "p - 1 \<le> d \<and> d \<le> p" if "y = 65536 * d + m" "0 \<le> m" "m < 65536" for d m
      using that \<open>y < (p + 1) * 65536\<close> \<open>(p - 1) * 65536 \<le> y\<close> by auto
    from this [of "y div 65536" "y mod 65536"] show ?thesis by auto
  qed
  ultimately have "?x * W div 65536 \<in> {p - 1, p}" by blast
  moreover have "sint (abs_position ?v (word_of_int W)) = ?x * W div 65536"
    using abs_position_eq [of ?v "word_of_int W"] pixelToAbsolute_eq(2,3) [OF rounding_id W, of "of_int p"] assms
      sint_small_word [of W] by simp
  ultimately show ?thesis by simp
qed

end
