(* ===== verification/ClipText.thy ===== *)
theory ClipText
  imports GoString Protocol
begin

text \<open>
  The text format of the clipboard: \<open>src/util/guid.go\<close>, \<open>formatClipboardText\<close> and
  \<open>decompressAndParseClipboard\<close> of \<open>src/main.go\<close> (the same functions are in
  \<open>src/tui/tui.go\<close>), and the splitting of the result into packets in \<open>setupClipboard\<close>.
  Package \<open>compress/flate\<close> is the pair of arguments \<open>deflate\<close> and \<open>inflate\<close>.  The properties
  say which texts survive the way from one machine to the other, and what is really encoded.
\<close>

section \<open>The format\<close>

definition MWBTextSeparator :: gostring where
  "MWBTextSeparator = gostr ''{4CFF57F7-BEDD-43d5-AE8F-27A61E886F2F}''"

text \<open>\<open>uuid\<close> is the text of a new UUID.\<close>

definition GenerateGUID :: "gostring \<Rightarrow> gostring" where
  "GenerateGUID uuid = gostr ''{'' @ uuid @ gostr ''}''"

definition GenerateMWBClipboardFormat :: "gostring \<Rightarrow> gostring" where
  "GenerateMWBClipboardFormat text = gostr ''TXT'' @ text @ MWBTextSeparator"

definition GenerateMWBClipboardFormatWithGUID :: "gostring \<Rightarrow> gostring \<Rightarrow> gostring" where
  "GenerateMWBClipboardFormatWithGUID text guid =
    (let guid = (if \<not> has_prefix guid (gostr ''{'') then gostr ''{'' @ guid else guid);
         guid = (if \<not> has_suffix guid (gostr ''}'') then guid @ gostr ''}'' else guid)
     in gostr ''TXT'' @ text @ guid)"

text \<open>The error of the Go function is always nil.\<close>

definition ParseMWBClipboardFormat :: "gostring \<Rightarrow> unit + gostring" where
  "ParseMWBClipboardFormat formatted =
    (let parsed = formatted;
         parsed = (if 3 \<le> length parsed then
                     (let prefix = gosub 0 3 parsed in
                      if prefix \<in> {gostr ''TXT'', gostr ''UNI'', gostr ''RTF'', gostr ''HTM''}
                      then drop 3 parsed else parsed)
                   else parsed);
         parsed = (case index_of parsed MWBTextSeparator of
                     None \<Rightarrow> parsed
                   | Some idx \<Rightarrow> take idx parsed)
     in Inr (trim_right 0 parsed))"

section \<open>Encoding and decoding\<close>

text \<open>The loop over the runes of the formatted text, which writes at the byte index of each rune.\<close>

definition utf16_bytes :: "gostring \<Rightarrow> bytes" where
  "utf16_bytes formatted =
     fold (\<lambda>(i, r) buf. buf[i * 2 := word_of_nat r, i * 2 + 1 := word_of_nat (drop_bit 8 r)])
       (range_string formatted) (replicate (length formatted * 2) 0)"

definition formatClipboardText :: "(bytes \<Rightarrow> bytes) \<Rightarrow> gostring \<Rightarrow> bytes" where
  "formatClipboardText deflate text =
    (let utf16Bytes = utf16_bytes (GenerateMWBClipboardFormat text)
     in if 48 < length utf16Bytes then deflate utf16Bytes else utf16Bytes)"

fun utf16_runes :: "bytes \<Rightarrow> nat list" where
  "utf16_runes (a # b # bs) =
    (let r = ucast a OR push_bit 8 (ucast b) :: u16
     in if r \<noteq> 0 then unat r # utf16_runes bs else utf16_runes bs)"
| "utf16_runes _ = []"

text \<open>\<open>inflate\<close> reads a compressed stream to its end; it gives \<open>None\<close> on an error.\<close>

definition decompressAndParseClipboard :: "(bytes \<Rightarrow> bytes option) \<Rightarrow> bytes \<Rightarrow> gostring" where
  "decompressAndParseClipboard inflate data =
    (if length data = 0 then []
     else
       let decompressed =
             (if 10 < length data
              then (case inflate data of None \<Rightarrow> data | Some decompressed \<Rightarrow> decompressed)
              else data);
           text =
             (if 2 \<le> length decompressed \<and> decompressed ! 1 = 0
              then string_of_runes (utf16_runes decompressed)
              else decompressed)
       in case ParseMWBClipboardFormat text of Inl err \<Rightarrow> text | Inr text \<Rightarrow> text)"

text \<open>The loop that cuts the formatted text into packets, as a list of the chunks.\<close>

function chunks :: "nat \<Rightarrow> bytes \<Rightarrow> bytes list" where
  "chunks chunkSize formatted =
    (if formatted = [] \<or> chunkSize = 0 then []
     else take chunkSize formatted # chunks chunkSize (drop chunkSize formatted))"
  by pat_completeness auto
termination by (relation "measure (\<lambda>(n, bs). length bs)") auto

declare chunks.simps [simp del]

section \<open>Chunks and padding\<close>

lemma chunks_Nil [simp]: "chunks n [] = []"
  by (simp add: chunks.simps)

lemma concat_chunks: "0 < n \<Longrightarrow> concat (chunks n bs) = bs"
proof (induction n bs rule: chunks.induct)
  case (1 n bs)
  then show ?case by (cases "bs = []") (simp_all add: chunks.simps [of n bs])
qed

lemma chunks_length: "bs \<noteq> [] \<Longrightarrow> 0 < n \<Longrightarrow> chunks n bs \<noteq> []"
  by (simp add: chunks.simps)

lemma chunks_bound: "c \<in> set (chunks n bs) \<Longrightarrow> length c \<le> n \<and> c \<noteq> []"
proof (induction n bs rule: chunks.induct)
  case (1 n bs)
  then show ?case by (cases "bs = [] \<or> n = 0") (auto simp add: chunks.simps [of n bs])
qed

text \<open>Only the last chunk is padded on the way.\<close>

lemma zero_pad_short: "length bs \<le> n \<Longrightarrow> zero_pad n bs = bs @ replicate (n - length bs) 0"
  by (simp add: zero_pad_def)

lemma concat_padded:
  "0 < n \<Longrightarrow> \<exists>k. concat (map (zero_pad n) (chunks n bs)) = bs @ replicate k 0"
proof (induction n bs rule: chunks.induct)
  case (1 n bs)
  show ?case
  proof (cases "bs = []")
    case True
    then show ?thesis by (simp add: exI [of _ 0])
  next
    case False
    show ?thesis
    proof (cases "length bs \<le> n")
      case True
      then have "chunks n bs = [bs]" using False 1(2) by (simp add: chunks.simps [of n bs])
      then show ?thesis using zero_pad_short [OF True] by auto
    next
      case long: False
      then have "zero_pad n (take n bs) = take n bs" by (simp add: zero_pad_def)
      moreover obtain k where "concat (map (zero_pad n) (chunks n (drop n bs))) = drop n bs @ replicate k 0"
        using 1 False by auto
      ultimately show ?thesis using False 1(2)
        by (auto simp add: chunks.simps [of n bs] simp flip: append_assoc)
    qed
  qed
qed

section \<open>Texts of the basic plane\<close>

definition bmp :: "nat \<Rightarrow> bool" where
  "bmp r \<longleftrightarrow> is_scalar r \<and> 0 < r \<and> r \<le> 0xFFFF"

lemma ascii_runes: "\<forall>b\<in>set s. b < 0x80 \<Longrightarrow> s = string_of_runes (map unat s)"
proof (induction s)
  case (Cons b s)
  then have "unat b < 0x80" by (simp add: word_less_nat_alt)
  then have "encode_rune (unat b) = [unat b]" by (simp add: encode_rune_def)
  then show ?case using Cons by (simp add: string_of_runes_Cons)
qed simp

lemma string_of_runes_append: "string_of_runes (xs @ ys) = string_of_runes xs @ string_of_runes ys"
  by (simp add: string_of_runes_def)

text \<open>The two bytes of a rune, and the gap up to the next one.\<close>

definition code_unit :: "nat \<Rightarrow> bytes" where
  "code_unit r = [word_of_nat r, word_of_nat (drop_bit 8 r)]"

definition gapped_unit :: "nat \<Rightarrow> bytes" where
  "gapped_unit r = code_unit r @ replicate (2 * (length (encode_rune r) - 1)) 0"

lemma encode_rune_long: "0x7F < r \<Longrightarrow> 1 < length (encode_rune r)"
  by (simp add: encode_rune_def)

lemma encode_rune_pos: "1 \<le> length (encode_rune r)"
  using encode_rune_ne [of r] by (cases "encode_rune r") auto

lemma fold_code_units:
  assumes "\<forall>r\<in>set rs. is_scalar r" and "length buf = 2 * i"
  shows "fold (\<lambda>(i, r) buf. buf[i * 2 := word_of_nat r, i * 2 + 1 := word_of_nat (drop_bit 8 r)])
      (range_from i (string_of_runes rs)) (buf @ replicate (2 * length (string_of_runes rs)) 0)
    = buf @ concat (map gapped_unit rs)"
  using assms
proof (induction rs arbitrary: i buf)
  case (Cons r rs)
  let ?n = "length (encode_rune r)" and ?t = "string_of_runes rs"
  have "2 * (?n + length ?t) = Suc (Suc (2 * (?n - 1) + 2 * length ?t))"
    using encode_rune_pos [of r] by simp
  then have b: "(buf @ replicate (2 * length (string_of_runes (r # rs))) 0)
      [i * 2 := word_of_nat r, i * 2 + 1 := word_of_nat (drop_bit 8 r)]
    = (buf @ gapped_unit r) @ replicate (2 * length ?t) (0 :: u8)"
    using Cons.prems(2)
    by (simp add: string_of_runes_Cons list_update_append gapped_unit_def code_unit_def
        replicate_add [symmetric] mult.commute)
  have "length (buf @ gapped_unit r) = 2 * (i + ?n)"
    using Cons.prems(2) encode_rune_pos [of r] by (simp add: gapped_unit_def code_unit_def)
  then show ?case
    using Cons.IH [of "buf @ gapped_unit r" "i + ?n"] Cons.prems b
    by (simp add: range_from_encoded string_of_runes_Cons)
qed simp

lemma utf16_bytes_eq:
  "\<forall>r\<in>set rs. is_scalar r \<Longrightarrow> utf16_bytes (string_of_runes rs) = concat (map gapped_unit rs)"
  using fold_code_units [of rs "[]" 0] by (simp add: utf16_bytes_def mult.commute)


lemma utf16_runes_unit:
  assumes "r \<le> 0xFFFF" and "0 < r"
  shows "utf16_runes (code_unit r @ bs) = r # utf16_runes bs"
proof -
  have "ucast (word_of_nat r :: u8) OR push_bit 8 (ucast (word_of_nat (drop_bit 8 r) :: u8)) = (word_of_nat r :: u16)"
    by (rule bit_word_eqI) (auto simp add: bit_simps)
  moreover have "unat (word_of_nat r :: u16) = r" using assms(1) by (simp add: unat_of_nat)
  moreover from this have "(word_of_nat r :: u16) \<noteq> 0" using assms(2) by (metis less_irrefl unsigned_0)
  ultimately show ?thesis by (simp add: code_unit_def Let_def)
qed

lemma utf16_runes_zeros: "utf16_runes (replicate (2 * n) 0 @ bs) = utf16_runes bs"
  by (induction n) (simp_all add: Let_def)

lemma utf16_runes_gapped: "\<forall>r\<in>set rs. bmp r \<Longrightarrow> utf16_runes (concat (map gapped_unit rs)) = rs"
  by (induction rs) (simp_all add: gapped_unit_def utf16_runes_unit utf16_runes_zeros bmp_def)

section \<open>The separator\<close>

lemma MWBTextSeparator_eq: "MWBTextSeparator =
    [123, 52, 67, 70, 70, 53, 55, 70, 55, 45, 66, 69, 68, 68, 45, 52, 51, 100, 53, 45,
     65, 69, 56, 70, 45, 50, 55, 65, 54, 49, 69, 56, 56, 54, 70, 50, 70, 125]"
  by (simp add: MWBTextSeparator_def gostr_def)

lemma separator_brace: "0 < i \<Longrightarrow> i < 38 \<Longrightarrow> MWBTextSeparator ! i \<noteq> MWBTextSeparator ! 0"
proof -
  have "list_all (\<lambda>b. b \<noteq> 123) (tl MWBTextSeparator)" by (simp add: MWBTextSeparator_eq)
  moreover assume "0 < i" "i < 38"
  then have "MWBTextSeparator ! i = tl MWBTextSeparator ! (i - 1)" "i - 1 < length (tl MWBTextSeparator)"
    by (simp_all add: nth_tl MWBTextSeparator_eq nth_Cons')
  then have "MWBTextSeparator ! i \<in> set (tl MWBTextSeparator)" by simp
  moreover have "MWBTextSeparator ! 0 = 123" by (simp add: MWBTextSeparator_eq)
  ultimately show ?thesis by (auto simp add: list_all_iff)
qed

lemma index_of_None: "index_of s p = None \<Longrightarrow> i \<le> length s \<Longrightarrow> \<not> has_prefix (drop i s) p"
proof (induction s arbitrary: i)
  case Nil
  then show ?case by (simp add: index_of.simps [of "[]"] split: if_splits)
next
  case (Cons c s)
  then show ?case by (cases i) (auto simp add: index_of.simps [of "c # s"] split: if_splits)
qed

lemma index_of_first:
  "has_prefix (drop i s) p \<Longrightarrow> i \<le> length s \<Longrightarrow> \<forall>j<i. \<not> has_prefix (drop j s) p \<Longrightarrow> index_of s p = Some i"
proof (induction s arbitrary: i)
  case Nil
  then show ?case by (simp add: index_of.simps [of "[]"])
next
  case (Cons c s)
  show ?case
  proof (cases i)
    case 0
    then show ?thesis using Cons.prems by (simp add: index_of_here)
  next
    case (Suc k)
    then have "\<not> has_prefix (c # s) p" using Cons.prems(3) by force
    moreover have "index_of s p = Some k" using Cons Suc by fastforce
    ultimately show ?thesis using Suc by (simp add: index_of.simps [of "c # s"])
  qed
qed

lemma index_of_separator:
  assumes "index_of t MWBTextSeparator = None"
  shows "index_of (t @ MWBTextSeparator) MWBTextSeparator = Some (length t)"
proof (rule index_of_first)
  let ?S = MWBTextSeparator
  have len: "length ?S = 38" by (simp add: MWBTextSeparator_eq)
  show "\<forall>j<length t. \<not> has_prefix (drop j (t @ ?S)) ?S"
  proof (intro allI impI notI)
    fix j assume j: "j < length t" and "has_prefix (drop j (t @ ?S)) ?S"
    then have p: "take 38 (drop j t @ ?S) = ?S" by (simp add: has_prefix_def len)
    show False
    proof (cases "38 \<le> length t - j")
      case True
      then have "has_prefix (drop j t) ?S" using p by (simp add: has_prefix_def len)
      with index_of_None [OF assms, of j] j show ?thesis by simp
    next
      case False
      let ?k = "length t - j"
      have "(take 38 (drop j t @ ?S)) ! ?k = ?S ! 0" using j False by (simp add: nth_append len)
      then have "?S ! ?k = ?S ! 0" using p by simp
      with separator_brace [of ?k] j False show ?thesis by simp
    qed
  qed
qed (simp_all add: has_prefix_def)

section \<open>Round trip of the format\<close>

lemma trim_right_0_id: "0 \<notin> set s \<Longrightarrow> trim_right 0 s = s"
  by (rule trim_right_id) (metis last_in_set)

lemma Parse_Generate:
  assumes "index_of text MWBTextSeparator = None" and "0 \<notin> set text"
  shows "ParseMWBClipboardFormat (GenerateMWBClipboardFormat text) = Inr text"
proof -
  let ?f = "GenerateMWBClipboardFormat text"
  have "3 \<le> length ?f" "gosub 0 3 ?f = gostr ''TXT''" "drop 3 ?f = text @ MWBTextSeparator"
    by (simp_all add: GenerateMWBClipboardFormat_def gosub_def gostr_def)
  then show ?thesis
    using index_of_separator [OF assms(1)] trim_right_0_id [OF assms(2)]
    by (simp add: ParseMWBClipboardFormat_def Let_def)
qed

lemma encode_rune_nonzero: "0 < r \<Longrightarrow> 0 \<notin> set (encode_rune r)"
  by (auto simp add: encode_rune_def)

lemma runes_nonzero: "\<forall>r\<in>set rs. 0 < r \<Longrightarrow> 0 \<notin> set (string_of_runes rs)"
proof
  assume r: "\<forall>r\<in>set rs. 0 < r" and "0 \<in> set (string_of_runes rs)"
  then obtain r b where "r \<in> set rs" and b: "b \<in> set (encode_rune r)" and "word_of_nat b = (0 :: u8)"
    by (auto simp add: string_of_runes_def)
  with encode_rune_bytes [OF b] have "b = 0" by (auto simp add: word_of_nat_eq_0_iff dest: nat_dvd_not_less [rotated])
  with b encode_rune_nonzero [of r] r \<open>r \<in> set rs\<close> show False by auto
qed

text \<open>The formatted text as runes: the literal parts are ASCII.\<close>

definition format_runes :: "nat list \<Rightarrow> nat list" where
  "format_runes rs = map unat (gostr ''TXT'') @ rs @ map unat MWBTextSeparator"

lemma format_runes:
  "GenerateMWBClipboardFormat (string_of_runes rs) = string_of_runes (format_runes rs)"
proof -
  have "\<forall>b\<in>set (gostr ''TXT''). b < 0x80" "\<forall>b\<in>set MWBTextSeparator. b < 0x80"
    by (simp_all add: MWBTextSeparator_eq gostr_def)
  from this [THEN ascii_runes] show ?thesis
    by (simp add: GenerateMWBClipboardFormat_def format_runes_def string_of_runes_append)
qed

lemma format_runes_bmp: "\<forall>r\<in>set rs. bmp r \<Longrightarrow> \<forall>r\<in>set (format_runes rs). bmp r"
proof -
  have "\<forall>r\<in>set (map unat (gostr ''TXT'')). bmp r" "\<forall>r\<in>set (map unat MWBTextSeparator). bmp r"
    by (simp_all add: MWBTextSeparator_eq gostr_def bmp_def is_scalar_def)
  moreover assume "\<forall>r\<in>set rs. bmp r"
  ultimately show ?thesis by (auto simp add: format_runes_def)
qed

text \<open>The formatted text is always longer than one packet, so it is always compressed.\<close>

lemma formatted_long: "82 \<le> length (utf16_bytes (GenerateMWBClipboardFormat text))"
proof -
  have l: "length (fold (\<lambda>(i, r) buf. buf[i * 2 := (word_of_nat r :: u8), i * 2 + 1 := word_of_nat (drop_bit 8 r)]) xs b)
      = length b" for xs b
    by (induction xs arbitrary: b) (auto simp add: split_beta)
  have "41 \<le> length (GenerateMWBClipboardFormat text)"
    by (simp add: GenerateMWBClipboardFormat_def MWBTextSeparator_eq)
  then show ?thesis unfolding utf16_bytes_def l by simp
qed

lemma formatClipboardText_deflates:
  "formatClipboardText deflate text = deflate (utf16_bytes (GenerateMWBClipboardFormat text))"
  using formatted_long [of "text"] by (simp add: formatClipboardText_def Let_def)


text \<open>
  What is used of \<open>compress/flate\<close>: reading a compressed stream gives the data back and stops
  at its end, whatever follows.  Such a stream is never empty.
\<close>

lemma deflate_ne:
  assumes "\<forall>x z. inflate (deflate x @ z) = Some (x :: bytes)"
  shows "deflate x \<noteq> ([] :: bytes)"
proof
  assume "deflate x = []"
  then have "inflate (deflate (1 # x)) = Some x" using assms [rule_format, of x "deflate (1 # x)"] by simp
  moreover have "inflate (deflate (1 # x)) = Some (1 # x)" using assms [rule_format, of "1 # x" "[]"] by simp
  ultimately show False by simp
qed

lemma decompress_deflated:
  assumes "\<forall>x z. inflate (deflate x @ z) = Some x" and "\<forall>r\<in>set rs. bmp r"
    and "index_of (string_of_runes rs) MWBTextSeparator = None"
    and "10 < length (formatClipboardText deflate (string_of_runes rs) @ z)"
  shows "decompressAndParseClipboard inflate (formatClipboardText deflate (string_of_runes rs) @ z) = string_of_runes rs"
proof -
  let ?f = "format_runes rs" and ?t = "string_of_runes rs"
  define plain where "plain = concat (map gapped_unit ?f)"
  have "\<forall>r\<in>set ?f. bmp r" using format_runes_bmp [OF assms(2)] .
  then have plain: "utf16_bytes (GenerateMWBClipboardFormat ?t) = plain" "utf16_runes plain = ?f"
    by (auto simp add: format_runes plain_def utf16_runes_gapped utf16_bytes_eq bmp_def)
  have "plain = [84, 0] @ drop 2 plain"
    by (simp add: plain_def format_runes_def gostr_def gapped_unit_def code_unit_def encode_rune_def)
  then have start: "2 \<le> length plain" "plain ! 1 = 0"
    using formatted_long [of ?t] plain(1) by (simp, metis append_Cons nth_Cons_0 nth_Cons_Suc One_nat_def)
  have "ParseMWBClipboardFormat (string_of_runes ?f) = Inr ?t"
    using Parse_Generate [OF assms(3)] runes_nonzero [of rs] assms(2) by (simp add: format_runes bmp_def)
  moreover have "deflate plain \<noteq> []" using deflate_ne [OF assms(1)] .
  ultimately show ?thesis
    using assms(1,4) start plain
    by (simp add: decompressAndParseClipboard_def formatClipboardText_deflates Let_def)
qed

lemma chunks_padded_long:
  assumes "bs \<noteq> []" shows "48 \<le> length (concat (map (zero_pad 48) (chunks 48 bs)))"
proof -
  obtain c cs where "chunks 48 bs = c # cs" using chunks_length [OF assms, of 48] by (cases "chunks 48 bs") auto
  then show ?thesis by simp
qed

lemma no_brace: "123 \<notin> set t \<Longrightarrow> index_of t MWBTextSeparator = None"
proof (cases "index_of t MWBTextSeparator")
  case (Some i)
  then have "take (length MWBTextSeparator) (drop i t) = MWBTextSeparator"
    using index_of_Some [OF Some] by (simp add: has_prefix_def)
  moreover have "123 \<in> set MWBTextSeparator" by (simp add: MWBTextSeparator_eq)
  ultimately have "123 \<in> set (take (length MWBTextSeparator) (drop i t))" by (simp only:)
  then have "123 \<in> set t" by (meson in_set_dropD in_set_takeD)
  then show "123 \<notin> set t \<Longrightarrow> ?thesis" by simp
qed

lemma decoded_clipboard:
  assumes "\<forall>x z. inflate (deflate x @ z) = Some x" and "\<forall>r\<in>set rs. bmp r"
    and "index_of (string_of_runes rs) MWBTextSeparator = None"
  shows "decompressAndParseClipboard inflate
     (concat (map (zero_pad 48) (chunks 48 (formatClipboardText deflate (string_of_runes rs))))) = string_of_runes rs"
proof -
  let ?d = "formatClipboardText deflate (string_of_runes rs)"
  obtain k where k: "concat (map (zero_pad 48) (chunks 48 ?d)) = ?d @ replicate k 0"
    using concat_padded [of 48 ?d] by auto
  have "?d \<noteq> []" using deflate_ne [OF assms(1)] by (simp add: formatClipboardText_deflates)
  then have "10 < length (?d @ replicate k 0)" using chunks_padded_long [of ?d] k by simp
  from decompress_deflated [OF assms this] show ?thesis using k by simp
qed

section \<open>Properties\<close>

text \<open>C27: A copied text all of whose characters are in the basic plane (and not NUL), and which does
  not contain the separator, arrives unchanged: formatting, compressing, cutting into 48 byte
  packets that are padded with zeros, collecting, decompressing and parsing give it back.\<close>

theorem clipboard_text_roundtrip:
  assumes "\<forall>x z. inflate (deflate x @ z) = Some x" and "\<forall>r\<in>set rs. bmp r"
    and "index_of (string_of_runes rs) MWBTextSeparator = None"
  shows "decompressAndParseClipboard inflate
     (concat (map (zero_pad 48) (chunks 48 (formatClipboardText deflate (string_of_runes rs))))) = string_of_runes rs"
  using assms by (rule decoded_clipboard)

definition toy_deflate :: "bytes \<Rightarrow> bytes" where
  "toy_deflate bs = concat (map (\<lambda>b. [1, b]) bs) @ [0]"

fun toy_inflate :: "bytes \<Rightarrow> bytes option" where
  "toy_inflate [] = None"
| "toy_inflate (m # bs) =
    (if m = 0 then Some [] else case bs of [] \<Rightarrow> None | b # bs \<Rightarrow> map_option ((#) b) (toy_inflate bs))"

lemma toy_flate: "toy_inflate (toy_deflate x @ z) = Some x"
  by (induction x) (simp_all add: toy_deflate_def)

theorem clipboard_text_roundtrip_witness:
  "decompressAndParseClipboard toy_inflate
     (concat (map (zero_pad 48) (chunks 48 (formatClipboardText toy_deflate (string_of_runes [72, 233, 8364])))))
   = string_of_runes [72, 233, 8364]"
  by (rule clipboard_text_roundtrip)
    (simp_all add: toy_flate bmp_def is_scalar_def no_brace string_of_runes_def encode_rune_def)



end
