(* ===== verification/Clip.thy ===== *)
theory Clip
  imports GoString
begin

text \<open>
  \<open>src/clipboard/clipboard.go\<close>: reading and setting the Wayland clipboard through the programs
  \<open>wl-paste\<close> and \<open>wl-copy\<close>, and the watcher that reports changes.  The environment of the
  process and what a program answers are arguments, as are \<open>strings.ToLower\<close> and
  \<open>strings.TrimSpace\<close>.
\<close>

section \<open>The environment\<close>

record OsEnv =
  osEnviron :: "gostring list"
  osGetenv :: "gostring \<Rightarrow> gostring"
  osGetuid :: nat
  osStat :: "gostring \<Rightarrow> bool"

definition wayland_display :: "nat \<Rightarrow> gostring" where
  "wayland_display i = gostr ''wayland-'' @ [word_of_nat (48 + i)]"

text \<open>The common beginning of \<open>GetText\<close> and \<open>SetText\<close>: the display and the environment.\<close>

definition wayland_env :: "OsEnv \<Rightarrow> gostring \<times> gostring list" where
  "wayland_env os =
    (let env = osEnviron os;
         waylandDisplay = osGetenv os (gostr ''WAYLAND_DISPLAY'');
         xdgRuntimeDir = osGetenv os (gostr ''XDG_RUNTIME_DIR'')
     in if osGetuid os = 0 then
          (let (waylandDisplay, xdgRuntimeDir) =
                 (if waylandDisplay = [] then
                    (case find (\<lambda>i. osStat os (gostr ''/run/user/1000/'' @ wayland_display i)) [0..<10] of
                       None \<Rightarrow> (waylandDisplay, xdgRuntimeDir)
                     | Some i \<Rightarrow> (wayland_display i, gostr ''/run/user/1000''))
                  else (waylandDisplay, xdgRuntimeDir));
               newEnv = filter (\<lambda>e. \<not> has_prefix e (gostr ''WAYLAND_DISPLAY='') \<and>
                                    \<not> has_prefix e (gostr ''XDG_RUNTIME_DIR='')) env;
               newEnv = (if waylandDisplay \<noteq> [] then newEnv @ [gostr ''WAYLAND_DISPLAY='' @ waylandDisplay] else newEnv);
               newEnv = (if xdgRuntimeDir \<noteq> [] then newEnv @ [gostr ''XDG_RUNTIME_DIR='' @ xdgRuntimeDir] else newEnv)
           in (waylandDisplay, newEnv))
        else (waylandDisplay, env))"

section \<open>The clipboard\<close>

record ClipState =
  lastContent :: gostring
  clipStopped :: bool
  clipOnChange :: bool

datatype clip_error = NoWayland | WlPasteFailed | WlCopyFailed

text \<open>
  \<open>run\<close> gives for a command line and an environment whether the command succeeded, its output
  and its error output.
\<close>

type_synonym command_runner = "gostring list \<Rightarrow> gostring list \<Rightarrow> bool \<times> gostring \<times> gostring"

definition contains :: "gostring \<Rightarrow> gostring \<Rightarrow> bool" where
  "contains s p \<longleftrightarrow> index_of s p \<noteq> None"

definition GetText :: "(gostring \<Rightarrow> gostring) \<Rightarrow> command_runner \<Rightarrow> OsEnv \<Rightarrow> clip_error + gostring" where
  "GetText lower run os =
    (let (waylandDisplay, env) = wayland_env os in
     if waylandDisplay = [] then Inl NoWayland
     else case run [gostr ''wl-paste'', gostr ''--no-newline'', gostr ''-t'', gostr ''text/plain''] env of
            (True, out, _) \<Rightarrow> Inr out
          | (False, _, stderr) \<Rightarrow>
              (let lowerStderr = lower stderr in
               if contains lowerStderr (gostr ''nothing is copied'') \<or> contains lowerStderr (gostr ''empty'') \<or>
                  contains lowerStderr (gostr ''no selection'') \<or> contains lowerStderr (gostr ''clipboard'')
               then Inr []
               else case run [gostr ''wl-paste'', gostr ''--no-newline'', gostr ''-t'',
                              gostr ''text/plain;charset=utf-8''] env of
                      (True, out, _) \<Rightarrow> Inr out
                    | (False, _) \<Rightarrow>
                        (case run [gostr ''wl-paste'', gostr ''--no-newline''] env of
                           (True, out, _) \<Rightarrow> Inr out
                         | (False, _) \<Rightarrow> Inl WlPasteFailed)))"

definition SetText :: "command_runner \<Rightarrow> OsEnv \<Rightarrow> gostring \<Rightarrow> ClipState \<Rightarrow> clip_error option \<times> ClipState" where
  "SetText run os txt c =
    (let (waylandDisplay, env) = wayland_env os in
     if waylandDisplay = [] then (Some NoWayland, c)
     else if \<not> fst (run [gostr ''wl-copy'', gostr ''--'', txt] env) then (Some WlCopyFailed, c)
     else (None, c\<lparr>lastContent := txt\<rparr>))"

text \<open>\<open>New\<close>, with the result of its \<open>GetText\<close>; \<open>OnChange\<close> is set later.\<close>

definition Clip_New :: "clip_error + gostring \<Rightarrow> ClipState" where
  "Clip_New got =
     \<lparr>lastContent = (case got of Inl _ \<Rightarrow> [] | Inr content \<Rightarrow> content), clipStopped = False, clipOnChange = False\<rparr>"

text \<open>Closing the stop channel a second time panics.\<close>

definition Clip_Stop :: "ClipState \<Rightarrow> ClipState option" where
  "Clip_Stop c = (if clipStopped c then None else Some (c\<lparr>clipStopped := True\<rparr>))"

text \<open>
  One round of the watcher after a tick, from the result of \<open>GetText\<close> on: the content that is
  reported, if any.
\<close>

definition watch_tick :: "(gostring \<Rightarrow> gostring) \<Rightarrow> clip_error + gostring \<Rightarrow> ClipState \<Rightarrow> gostring option \<times> ClipState" where
  "watch_tick trim got c =
    (case got of
       Inl err \<Rightarrow> (None, c)
     | Inr content \<Rightarrow>
         (let contentTrimmed = trim content;
              lastTrimmed = trim (lastContent c);
              changed = (contentTrimmed \<noteq> lastTrimmed \<and> contentTrimmed \<noteq> []);
              c = (if changed then c\<lparr>lastContent := content\<rparr> else c)
          in (if changed \<and> clipOnChange c then Some content else None, c)))"

text \<open>The watcher over a sequence of ticks, until it is stopped.\<close>

fun Watch :: "(gostring \<Rightarrow> gostring) \<Rightarrow> (clip_error + gostring) list \<Rightarrow> ClipState \<Rightarrow> gostring list \<times> ClipState" where
  "Watch trim [] c = ([], c)"
| "Watch trim (got # ticks) c =
    (if clipStopped c then ([], c)
     else (case watch_tick trim got c of
             (r, c) \<Rightarrow>
               (case Watch trim ticks c of
                  (rs, c) \<Rightarrow> (case r of None \<Rightarrow> rs | Some x \<Rightarrow> x # rs, c))))"

section \<open>What is reported\<close>

text \<open>The same content, up to white space, or no content.\<close>

definition unchanged :: "(gostring \<Rightarrow> gostring) \<Rightarrow> gostring \<Rightarrow> clip_error + gostring \<Rightarrow> bool" where
  "unchanged trim txt got = (case got of Inl _ \<Rightarrow> True | Inr x \<Rightarrow> trim x = trim txt \<or> trim x = [])"

lemma watch_tick_unchanged: "unchanged trim (lastContent c) got \<Longrightarrow> watch_tick trim got c = (None, c)"
  by (auto simp add: unchanged_def watch_tick_def Let_def split: sum.splits)

lemma watch_tick_changed:
  "\<not> unchanged trim (lastContent c) (Inr x) \<Longrightarrow>
   watch_tick trim (Inr x) c = (if clipOnChange c then Some x else None, c\<lparr>lastContent := x\<rparr>)"
  by (simp add: unchanged_def watch_tick_def Let_def)

lemma Watch_unchanged:
  "\<forall>got\<in>set ticks. unchanged trim (lastContent c) got \<Longrightarrow> Watch trim ticks c = ([], c)"
  by (induction ticks) (simp_all add: watch_tick_unchanged)

lemma Watch_append:
  "Watch trim (xs @ ys) c =
    (fst (Watch trim xs c) @ fst (Watch trim ys (snd (Watch trim xs c))), snd (Watch trim ys (snd (Watch trim xs c))))"
proof (induction xs arbitrary: c)
  case (Cons g xs)
  have "clipStopped c \<Longrightarrow> Watch trim zs c = ([], c)" for zs by (cases zs) simp_all
  with Cons show ?case by (simp add: split_beta split: option.split)
qed simp

lemma SetText_ok: "SetText run os txt c = (None, c') \<Longrightarrow> c' = c\<lparr>lastContent := txt\<rparr>"
  by (simp add: SetText_def split_beta split: if_splits)

text \<open>
  The watcher reads the clipboard before it takes the lock.  When a text is set in between, the
  content it has read is older than the last content: it is reported as a change, and goes back
  to the other machine.
\<close>

lemma stale_read_reported:
  assumes "SetText run os txt c = (None, c')" and "clipOnChange c" and "\<not> unchanged trim txt (Inr old)"
  shows "fst (watch_tick trim (Inr old) c') = Some old"
  using assms watch_tick_changed [of trim c' old] by (simp add: SetText_ok [OF assms(1)])

section \<open>Properties\<close>

text \<open>C29: A text that was received and set is not reported back: however often the watcher then
  polls, as long as the clipboard gives back that text up to surrounding white space, fails, or
  is blank, nothing is reported; the first other content is, and is reported once.\<close>

theorem clip_no_echo:
  assumes "SetText run os txt c = (None, c')" and "clipOnChange c" and "\<not> clipStopped c"
    and "\<forall>got\<in>set before. unchanged trim txt got" and "\<not> unchanged trim txt (Inr new)"
    and "\<forall>got\<in>set after. unchanged trim new got"
  shows "fst (Watch trim before c') = [] \<and> fst (Watch trim (before @ Inr new # after) c') = [new]"
proof -
  note c' = SetText_ok [OF assms(1)]
  have b: "Watch trim before c' = ([], c')" using assms(4) by (intro Watch_unchanged) (simp add: c')
  have "watch_tick trim (Inr new) c' = (Some new, c'\<lparr>lastContent := new\<rparr>)"
    using assms(2,5) watch_tick_changed [of trim c' new] by (simp add: c')
  moreover have "Watch trim after (c'\<lparr>lastContent := new\<rparr>) = ([], c'\<lparr>lastContent := new\<rparr>)"
    using assms(6) by (intro Watch_unchanged) simp
  ultimately show ?thesis using assms(3) b by (simp add: Watch_append c')
qed

definition sample_os :: OsEnv where
  "sample_os = \<lparr>osEnviron = [], osGetenv = (\<lambda>v. gostr ''wayland-0''), osGetuid = 1000, osStat = (\<lambda>p. False)\<rparr>"

theorem clip_no_echo_witness:
  "\<exists>c'. SetText (\<lambda>args env. (True, [], [])) sample_os (gostr ''hello'')
      \<lparr>lastContent = [], clipStopped = False, clipOnChange = True\<rparr> = (None, c') \<and>
     fst (Watch (\<lambda>s. s) ([Inr (gostr ''hello''), Inl WlPasteFailed] @ Inr (gostr ''bye'') # []) c') = [gostr ''bye'']"
proof -
  let ?c = "\<lparr>lastContent = [], clipStopped = False, clipOnChange = True\<rparr>"
  have s: "SetText (\<lambda>args env. (True, [], [])) sample_os (gostr ''hello'') ?c = (None, ?c\<lparr>lastContent := gostr ''hello''\<rparr>)"
    by (simp add: SetText_def wayland_env_def sample_os_def Let_def)
  have "gostr ''bye'' \<noteq> gostr ''hello''" by (simp add: gostr_def)
  then show ?thesis
    using clip_no_echo [OF s, of "[Inr (gostr ''hello''), Inl WlPasteFailed]" "\<lambda>s. s" "gostr ''bye''" "[]"] s
    by (simp add: unchanged_def)
qed

end
