(* ===== verification/Receive.thy ===== *)
theory Receive
  imports Forward ClipText Clip
begin

text \<open>
  The receiving side of \<open>src/main.go\<close>: \<open>receiveLoop\<close> with what it does for each packet, the
  clipboard callback of \<open>setupClipboard\<close>, and what arrives of the packets that a session
  sends.  The properties follow input events and clipboard texts from one machine through the
  encrypted connection to the other, and say when the loop ends.
\<close>

section \<open>The loop body\<close>

text \<open>The variables of the loop, and the objects it works on.\<close>

record Receiver =
  clipboardBuffer :: bytes
  receivingClipboard :: bool
  heldKeys :: "u16 set"
  leftDown :: bool
  rightDown :: bool
  middleDown :: bool
  sideDown :: bool
  extraDown :: bool

record Machine =
  mVi :: VirtualInput
  mEvdev :: EvdevCapture
  mClip :: ClipState

definition new_receiver :: Receiver where
  "new_receiver =
     \<lparr>clipboardBuffer = [], receivingClipboard = False, heldKeys = {}, leftDown = False, rightDown = False,
      middleDown = False, sideDown = False, extraDown = False\<rparr>"

definition track_buttons :: "MouseData \<Rightarrow> Receiver \<Rightarrow> Receiver" where
  "track_buttons m r =
    (let flags = mFlags m;
         isLDown = flags = WM_LBUTTONDOWN; isLUp = flags = WM_LBUTTONUP;
         isRDown = flags = WM_RBUTTONDOWN; isRUp = flags = WM_RBUTTONUP;
         isMDown = flags = WM_MBUTTONDOWN; isMUp = flags = WM_MBUTTONUP;
         isXDown = flags = WM_XBUTTONDOWN; isXUp = flags = WM_XBUTTONUP;
         xButtonNum = (ucast (mWheelDelta m) :: u16);
         isXButton1 = (isXDown \<and> xButtonNum = 1); isXButton2 = (isXDown \<and> xButtonNum = 2);
         isXButton1Up = (isXUp \<and> xButtonNum = 1); isXButton2Up = (isXUp \<and> xButtonNum = 2);
         r = (if isLDown then r\<lparr>leftDown := True\<rparr> else if isLUp then r\<lparr>leftDown := False\<rparr> else r);
         r = (if isRDown then r\<lparr>rightDown := True\<rparr> else if isRUp then r\<lparr>rightDown := False\<rparr> else r);
         r = (if isMDown then r\<lparr>middleDown := True\<rparr> else if isMUp then r\<lparr>middleDown := False\<rparr> else r);
         r = (if isXButton1 then r\<lparr>sideDown := True\<rparr> else if isXButton1Up then r\<lparr>sideDown := False\<rparr> else r)
     in if isXButton2 then r\<lparr>extraDown := True\<rparr> else if isXButton2Up then r\<lparr>extraDown := False\<rparr> else r)"

definition track_keys :: "KeyboardData \<Rightarrow> Receiver \<Rightarrow> Receiver" where
  "track_keys k r =
    (let vk = ucast (kVk k); isPressed = (kFlags k AND LLKHF_UP = 0)
     in r\<lparr>heldKeys := (if isPressed then insert vk (heldKeys r) else heldKeys r - {vk})\<rparr>)"

text \<open>
  The switch on the packet type.  \<open>setText\<close> is \<open>clip.SetText\<close>, whose error is ignored.
\<close>

definition receive_packet ::
  "(bytes \<Rightarrow> bytes option) \<Rightarrow> (gostring \<Rightarrow> ClipState \<Rightarrow> clip_error option \<times> ClipState) \<Rightarrow> GenericData
   \<Rightarrow> Receiver \<times> Machine \<Rightarrow> Receiver \<times> Machine" where
  "receive_packet inflate setText pkt st =
    (let (r, m) = st in
     if gType pkt = Mouse then
       (case gMouse pkt of
          None \<Rightarrow> (r, m)
        | Some d \<Rightarrow> (track_buttons d r, m\<lparr>mVi := InjectMouse (mX d) (mY d) (mWheelDelta d) (mFlags d) (mVi m)\<rparr>))
     else if gType pkt = Keyboard then
       (case gKeyboard pkt of
          None \<Rightarrow> (r, m)
        | Some k \<Rightarrow> (track_keys k r, m\<lparr>mVi := InjectKeyboard (kVk k) (kFlags k) (mVi m)\<rparr>))
     else if gType pkt = ClipboardText then
       (case gRaw pkt of
          None \<Rightarrow> (r, m)
        | Some raw \<Rightarrow> (r\<lparr>clipboardBuffer := clipboardBuffer r @ raw, receivingClipboard := True\<rparr>, m))
     else if gType pkt = ClipboardDataEnd then
       (if receivingClipboard r \<and> 0 < length (clipboardBuffer r) then
          (let txt = decompressAndParseClipboard inflate (clipboardBuffer r);
               m = (if txt \<noteq> [] then m\<lparr>mClip := snd (setText txt (mClip m))\<rparr> else m)
           in (r\<lparr>clipboardBuffer := [], receivingClipboard := False\<rparr>, m))
        else (r, m))
     else if gType pkt = Matrix then (r, m)
     else if gType pkt = MachineSwitched then
       (r, m\<lparr>mEvdev := Ungrab (mEvdev m),
             mVi := InjectMouse 32768 32768 0 (WinMouseEventFMove OR WinMouseEventFAbsolute) (mVi m)\<rparr>)
     else (r, m))"

section \<open>The loop\<close>

text \<open>
  \<open>done i\<close> tells whether the context is cancelled at the start of the \<open>i\<close>-th round from now;
  the result is \<open>None\<close> when the loop has not returned after \<open>n\<close> rounds.
\<close>

datatype loop_end = LoopCancelled | LoopDisconnected

fun receiveLoop ::
  "(bytes \<Rightarrow> bytes option) \<Rightarrow> (gostring \<Rightarrow> ClipState \<Rightarrow> clip_error option \<times> ClipState) \<Rightarrow> nat \<Rightarrow> (nat \<Rightarrow> bool)
   \<Rightarrow> Client \<Rightarrow> Receiver \<times> Machine \<Rightarrow> (loop_end \<times> Client \<times> Receiver \<times> Machine) option" where
  "receiveLoop inflate setText 0 cancelled c st = None"
| "receiveLoop inflate setText (Suc n) cancelled c st =
    (if cancelled 0 then Some (LoopCancelled, c, st)
     else (case Client_Receive c of
             (Inl err, c) \<Rightarrow>
               (if err = RdIO EOF then Some (LoopDisconnected, c, st)
                else receiveLoop inflate setText n (\<lambda>i. cancelled (Suc i)) c st)
           | (Inr pkt, c) \<Rightarrow>
               receiveLoop inflate setText n (\<lambda>i. cancelled (Suc i)) c (receive_packet inflate setText pkt st)))"

section \<open>Sending\<close>

text \<open>The packets of the callback of \<open>setupClipboard\<close>.\<close>

definition clipboard_sends :: "(bytes \<Rightarrow> bytes) \<Rightarrow> gostring \<Rightarrow> send list" where
  "clipboard_sends deflate content =
    (let formatted = formatClipboardText deflate content; chunkSize = 48
     in map (\<lambda>chunk. (ClipboardText, PBytes (Some chunk))) (chunks chunkSize formatted) @ [(ClipboardDataEnd, PNil)])"

text \<open>Calls of \<open>sender.Send\<close> one after another, each with its time.\<close>

fun send_list ::
  "(GenericData \<Rightarrow> 'c \<Rightarrow> 'e option \<times> 'c) \<Rightarrow> ('c \<Rightarrow> bool) \<Rightarrow> (u64 \<times> send) list \<Rightarrow> 'c sessionSender \<Rightarrow> 'c sessionSender" where
  "send_list send isConn [] s = s"
| "send_list send isConn ((now, t, pay) # xs) s = send_list send isConn xs (Sender_Send send isConn now t pay s)"

section \<open>What arrives\<close>

text \<open>The packet that the peer reads for a call of \<open>Send\<close>.\<close>

definition arrives :: "send \<Rightarrow> GenericData \<Rightarrow> bool" where
  "arrives s q \<longleftrightarrow> gType q = fst s \<and>
    (case snd s of
       PMouse d \<Rightarrow> fst s = Mouse \<longrightarrow> gMouse q = d
     | PKeyboard d \<Rightarrow> fst s = Keyboard \<longrightarrow> gKeyboard q = d
     | PBytes (Some b) \<Rightarrow> fst s = ClipboardText \<longrightarrow> gRaw q = Some (zero_pad 48 b)
     | _ \<Rightarrow> True)"

lemma fill_defaults_fields:
  "gMouse (fill_defaults c d) = gMouse d" "gKeyboard (fill_defaults c d) = gKeyboard d" "gRaw (fill_defaults c d) = gRaw d"
  "gType (fill_defaults c d) = gType d"
  by (simp_all add: fill_defaults_def Let_def)

lemma build_arrives:
  "arrives (t, pay) (wire_view (fill_defaults c ((build_packet now t pay s)\<lparr>gHeader := (gHeader (build_packet now t pay s))\<lparr>hId := i\<rparr>\<rparr>)))"
  by (cases pay)
    (auto simp add: arrives_def wire_view_def Let_def fill_defaults_fields build_packet_def raw_bytes_def split: option.split)

lemma fits_type: "fits x \<Longrightarrow> fst x < 256"
  by (cases x) (metis fits_encodable fst_conv)

text \<open>On a connected client whose writes succeed every call emits its packet.\<close>

lemma Send_Emits:
  assumes "IsConnected (ssClient s)" and "wr (clConn (ssClient s)) = []"
    and "length (encIV (clCipher (ssClient s))) = 16" and "fits (t, pay)"
  shows "\<exists>d. emits (ssClient s) (ssClient (Sender_Send Client_Send IsConnected now t pay s)) [fill_defaults (ssClient s) d] \<and>
      gType d = t \<and> arrives (t, pay) (wire_view (fill_defaults (ssClient s) d)) \<and>
      IsConnected (ssClient (Sender_Send Client_Send IsConnected now t pay s)) \<and>
      wr (clConn (ssClient (Sender_Send Client_Send IsConnected now t pay s))) = []"
proof -
  let ?p = "build_packet now t pay s"
  let ?d = "?p\<lparr>gHeader := (gHeader ?p)\<lparr>hId := ssNextID s + 1\<rparr>\<rparr>"
  have "encodable ?d" using fits_encodable [OF assms(4), of now s] by simp
  then obtain p where p: "Marshal (fill_defaults (ssClient s) ?d) (clMagic (ssClient s)) = Inr p"
    using encodable_Marshal [of "fill_defaults (ssClient s) ?d"] by auto
  obtain x sc where c': "Client_Send ?d (ssClient s)
      = (None, (ssClient s)\<lparr>clCipher := sc, clConn := (clConn (ssClient s))\<lparr>tx := tx (clConn (ssClient s)) @ x\<rparr>\<rparr>)"
    using Send_plain [OF assms(2) p] by blast
  then have s': "ssClient (Sender_Send Client_Send IsConnected now t pay s)
      = (ssClient s)\<lparr>clCipher := sc, clConn := (clConn (ssClient s))\<lparr>tx := tx (clConn (ssClient s)) @ x\<rparr>\<rparr>"
    using assms(1) by (simp add: Sender_Send_def locked_send_def)
  show ?thesis
    using Send_emits [OF c' assms(3)] build_arrives [where t = t and pay = pay and c = "ssClient s" and now = now and s = s] assms(1,2) s'
    by (intro exI [of _ ?d]) (simp add: IsConnected_def build_packet_header)
qed

lemma send_list_emits:
  assumes "IsConnected (ssClient s)" and "wr (clConn (ssClient s)) = []"
    and "length (encIV (clCipher (ssClient s))) = 16" and "list_all (fits \<circ> snd) xs"
  shows "\<exists>ds. emits (ssClient s) (ssClient (send_list Client_Send IsConnected xs s)) (map (fill_defaults (ssClient s)) ds) \<and>
      map gType ds = map (fst \<circ> snd) xs \<and> list_all2 (\<lambda>x d. arrives (snd x) (wire_view (fill_defaults (ssClient s) d))) xs ds"
  using assms
proof (induction xs arbitrary: s)
  case Nil
  then show ?case using emits_refl [of "ssClient s"] by (auto intro: exI [of _ "[]"])
next
  case (Cons x xs)
  obtain now t pay where x: "x = (now, t, pay)" by (cases x)
  let ?s = "Sender_Send Client_Send IsConnected now t pay s"
  have "fits (t, pay)" using Cons.prems(4) x by simp
  from Send_Emits [OF Cons.prems(1-3) this, of now]
  obtain d where d: "emits (ssClient s) (ssClient ?s) [fill_defaults (ssClient s) d]" "gType d = t"
    "arrives (t, pay) (wire_view (fill_defaults (ssClient s) d))"
    "IsConnected (ssClient ?s)" "wr (clConn (ssClient ?s)) = []" by blast
  note same = emits_same [OF d(1)]
  have fd: "fill_defaults (ssClient ?s) = fill_defaults (ssClient s)" using same fill_defaults_same by blast
  have "length (encIV (clCipher (ssClient ?s))) = 16" using same by simp
  from Cons.IH [OF d(4,5) this] Cons.prems(4)
  obtain ds where ds: "emits (ssClient ?s) (ssClient (send_list Client_Send IsConnected xs ?s)) (map (fill_defaults (ssClient s)) ds)"
    "map gType ds = map (fst \<circ> snd) xs" "list_all2 (\<lambda>x d. arrives (snd x) (wire_view (fill_defaults (ssClient s) d))) xs ds"
    unfolding fd by auto
  from emits_trans [OF d(1) ds(1)] ds(2,3) d(2,3) x show ?case
    by (intro exI [of _ "d # ds"]) simp
qed

lemma sends_arrive:
  assumes "IsConnected c" and "wr (clConn c) = []" and "in_step (clCipher c) (clCipher p)"
    and "drop_bit 16 (clMagic c) = drop_bit 16 (clMagic p)"
    and "list_all (fits \<circ> snd) xs" and "s' = send_list Client_Send IsConnected xs (newSessionSender c src dst)"
    and "tx (clConn (ssClient s')) = tx (clConn c) @ w" and "rx (clConn p) = w @ rest"
  shows "\<exists>qs p'. receive_n (length xs) p = (Inr qs, p') \<and> rx (clConn p') = rest \<and> list_all2 arrives (map snd xs) qs"
proof -
  let ?s = "newSessionSender c src dst"
  have c: "ssClient ?s = c" by (simp add: newSessionSender_def)
  have iv: "length (encIV (clCipher c)) = 16" using assms(3) unfolding in_step_def by blast
  obtain ds where ds: "emits c (ssClient s') (map (fill_defaults c) ds)" "map gType ds = map (fst \<circ> snd) xs"
    "list_all2 (\<lambda>x d. arrives (snd x) (wire_view (fill_defaults c d))) xs ds"
    using send_list_emits [of ?s xs] assms(1,2,5,6) iv c by auto
  have "gType d < 256" if "d \<in> set ds" for d
  proof -
    have "gType d \<in> set (map (fst \<circ> snd) xs)" using ds(2) that by (metis image_eqI set_map)
    then show ?thesis using assms(5) by (force simp add: list_all_iff simp del: fits.simps dest: fits_type)
  qed
  then have "\<forall>d\<in>set (map (fill_defaults c) ds). gType d < 256" by (auto simp add: fill_defaults_fields)
  from emits_received [OF ds(1) this assms(3,4,7,8)]
  obtain p' where p': "receive_n (length ds) p = (Inr (map wire_view (map (fill_defaults c) ds)), p')" "rx (clConn p') = rest" by auto
  have "length ds = length xs" using ds(3) by (simp add: list_all2_lengthD)
  moreover have "list_all2 arrives (map snd xs) (map wire_view (map (fill_defaults c) ds))"
    using ds(3) by (simp add: list_all2_map1 list_all2_map2)
  ultimately show ?thesis using p' by auto
qed


section \<open>The interface of the virtual devices\<close>

text \<open>
  The button that a mouse packet presses or releases, and the key that a keyboard packet does:
  what the session relies on of \<open>VirtualInputInterface\<close>.
\<close>

definition button_of :: "i32 \<Rightarrow> i32 \<Rightarrow> (u16 \<times> bool) option" where
  "button_of flags wd =
    (if flags = WM_LBUTTONDOWN then Some (BTN_LEFT, True) else if flags = WM_LBUTTONUP then Some (BTN_LEFT, False)
     else if flags = WM_RBUTTONDOWN then Some (BTN_RIGHT, True) else if flags = WM_RBUTTONUP then Some (BTN_RIGHT, False)
     else if flags = WM_MBUTTONDOWN then Some (BTN_MIDDLE, True) else if flags = WM_MBUTTONUP then Some (BTN_MIDDLE, False)
     else if flags = WM_XBUTTONDOWN \<and> (ucast wd :: u16) = 1 then Some (BTN_SIDE, True)
     else if flags = WM_XBUTTONUP \<and> (ucast wd :: u16) = 1 then Some (BTN_SIDE, False)
     else if flags = WM_XBUTTONDOWN \<and> (ucast wd :: u16) = 2 then Some (BTN_EXTRA, True)
     else if flags = WM_XBUTTONUP \<and> (ucast wd :: u16) = 2 then Some (BTN_EXTRA, False)
     else None)"

definition set_key :: "u16 \<Rightarrow> bool \<Rightarrow> u16 set \<Rightarrow> u16 set" where
  "set_key l down K = (if down then insert l K else K - {l})"

definition press :: "(u16 \<times> bool) option \<Rightarrow> u16 set \<Rightarrow> u16 set" where
  "press b K = (case b of None \<Rightarrow> K | Some (l, down) \<Rightarrow> set_key l down K)"

definition key_of :: "i32 \<Rightarrow> i32 \<Rightarrow> (u16 \<times> bool) option" where
  "key_of vk flags = map_option (\<lambda>l. (l, flags AND LLKHF_UP = 0)) (VKToLinux vk)"

text \<open>The effect of the local event on the keys and buttons of the other machine.\<close>

definition mapped_key :: "u16 \<Rightarrow> bool" where
  "mapped_key code \<longleftrightarrow> code = 99 \<or> (\<exists>vk. VKToLinux vk = Some code)"

definition forwarded_button :: "u16 \<Rightarrow> bool" where
  "forwarded_button code \<longleftrightarrow> code \<in> {BTN_LEFT, BTN_RIGHT, BTN_MIDDLE, BTN_SIDE, BTN_EXTRA}"

fun remote_keys :: "callback \<Rightarrow> u16 set \<Rightarrow> u16 set" where
  "remote_keys (KeyEvent code pressed) K =
    (if mapped_key code then set_key (if code = 99 then 210 else code) pressed K else K)"
| "remote_keys _ K = K"

fun remote_buttons :: "callback \<Rightarrow> u16 set \<Rightarrow> u16 set" where
  "remote_buttons (ButtonEvent code pressed) B = (if forwarded_button code then set_key code pressed B else B)"
| "remote_buttons _ B = B"

locale virtual_input =
  fixes inject_key :: "i32 \<Rightarrow> i32 \<Rightarrow> 'v \<Rightarrow> 'v"
    and inject_mouse :: "i32 \<Rightarrow> i32 \<Rightarrow> i32 \<Rightarrow> i32 \<Rightarrow> 'v \<Rightarrow> 'v"
    and keys :: "'v \<Rightarrow> u16 set"
    and btns :: "'v \<Rightarrow> u16 set"
  assumes keys_key: "keys (inject_key vk flags v) = press (key_of vk flags) (keys v)"
    and btns_key: "btns (inject_key vk flags v) = btns v"
    and keys_mouse: "keys (inject_mouse x y wd flags v) = keys v"
    and btns_mouse: "btns (inject_mouse x y wd flags v) = press (button_of flags wd) (btns v)"
begin

text \<open>A packet of input injected at the other side.\<close>

definition inject :: "send \<Rightarrow> 'v \<Rightarrow> 'v" where
  "inject s v =
    (case snd s of
       PMouse (Some d) \<Rightarrow> inject_mouse (mX d) (mY d) (mWheelDelta d) (mFlags d) v
     | PKeyboard (Some k) \<Rightarrow> inject_key (kVk k) (kFlags k) v
     | _ \<Rightarrow> v)"

lemma key_arrives:
  assumes "set order = set VKToLinux_table"
  shows "keys (fold inject (onKeyEvent (LinuxToVK order) code pressed) v) = remote_keys (KeyEvent code pressed) (keys v)"
    and "btns (fold inject (onKeyEvent (LinuxToVK order) code pressed) v) = btns v"
proof -
  have up: "(LLKHF_UP OR LLKHF_EXTENDED) AND LLKHF_UP \<noteq> (0 :: i32)" "LLKHF_UP AND LLKHF_UP \<noteq> (0 :: i32)"
    "LLKHF_EXTENDED AND LLKHF_UP = (0 :: i32)"
    by simp_all
  have "keys (fold inject (onKeyEvent (LinuxToVK order) code pressed) v) = remote_keys (KeyEvent code pressed) (keys v) \<and>
      btns (fold inject (onKeyEvent (LinuxToVK order) code pressed) v) = btns v"
  proof (cases "LinuxToVK order code")
    case None
    then have "\<not> mapped_key code" using LinuxToVK_dom [OF assms, of code] by (simp add: mapped_key_def)
    then show ?thesis using None by (simp add: onKeyEvent_def)
  next
    case (Some vk)
    then have m: "mapped_key code" using LinuxToVK_dom [OF assms, of code] by (simp add: mapped_key_def)
    have "VKToLinux 0x2C = Some 210" by code_simp
    moreover have "\<not> (\<exists>vk. VKToLinux vk = Some 99)" using table_no_99 by (metis VKToLinux_iff image_eqI snd_conv)
    ultimately have "VKToLinux vk = Some (if code = 99 then 210 else code)"
      using LinuxToVK_sound [OF assms Some] by auto
    then show ?thesis using Some m up
      by (auto simp add: onKeyEvent_def Let_def inject_def keys_key btns_key key_of_def press_def)
  qed
  then show "keys (fold inject (onKeyEvent (LinuxToVK order) code pressed) v) = remote_keys (KeyEvent code pressed) (keys v)"
    and "btns (fold inject (onKeyEvent (LinuxToVK order) code pressed) v) = btns v" by simp_all
qed

lemma button_arrives:
  "btns (fold inject (onButtonEvent rnd code pressed cu) v) = remote_buttons (ButtonEvent code pressed) (btns v)"
  "keys (fold inject (onButtonEvent rnd code pressed cu) v) = keys v"
  by (auto simp add: onButtonEvent_def buttonPacket_def split_beta inject_def btns_mouse keys_mouse button_of_def press_def
      forwarded_button_def)

lemma mouse_arrives:
  "btns (fold inject (fst (onMouseEvent rnd dx dy wheel cu)) v) = btns v"
  "keys (fold inject (fst (onMouseEvent rnd dx dy wheel cu)) v) = keys v"
  by (simp_all add: onMouseEvent_def Let_def split_beta inject_def btns_mouse keys_mouse button_of_def press_def)

lemma forward_arrives:
  assumes "set order = set VKToLinux_table"
  shows "keys (fold inject (fst (forward rnd (LinuxToVK order) cb cu)) v) = remote_keys cb (keys v)"
    and "btns (fold inject (fst (forward rnd (LinuxToVK order) cb cu)) v) = remote_buttons cb (btns v)"
  using key_arrives [OF assms] button_arrives mouse_arrives by (cases cb; simp)+

lemma forward_all_arrives:
  assumes "set order = set VKToLinux_table"
  shows "keys (fold inject (fst (forward_all rnd (LinuxToVK order) cbs cu)) v) = fold remote_keys cbs (keys v) \<and>
    btns (fold inject (fst (forward_all rnd (LinuxToVK order) cbs cu)) v) = fold remote_buttons cbs (btns v)"
proof (induction cbs arbitrary: cu v)
  case (Cons cb cbs)
  then show ?case using forward_arrives [OF assms] by (simp add: split_beta Let_def)
qed simp

end

lemma InjectMouse_buttons: "buttons (InjectMouse x y wd flags vi) = press (button_of flags wd) (buttons vi)"
proof -
  have m: "buttons (snd (move_mouse x y vi)) = buttons vi"
    by (simp add: move_mouse_def Let_def buttons_def mouse_event_def)
  have "buttons (snd (updateButtons flags wd v)) = press (button_of flags wd) (buttons v)" for wd v
    unfolding updateButtons_eq button_of_def press_def set_key_def by (auto simp add: buttons_def mouse_event_def)
  with m show ?thesis by (simp add: InjectMouse_def split_beta Let_def)
qed

lemma InjectKeyboard_keys: "pressedKeys (InjectKeyboard vk flags vi) = press (key_of vk flags) (pressedKeys vi)"
  by (auto simp add: InjectKeyboard_eq key_of_def press_def set_key_def split: option.split)

interpretation uinput: virtual_input InjectKeyboard InjectMouse pressedKeys buttons
  by unfold_locales (simp_all add: InjectKeyboard_keys InjectMouse_buttons)


section \<open>The receiver of forwarded input\<close>

lemma receive_input:
  assumes "arrives x q" and "fits x" and "fst x \<in> {Keyboard, Mouse}"
  shows "mVi (snd (receive_packet inflate setText q (r, m))) = uinput.inject x (mVi m)"
proof -
  obtain t pay where x: "x = (t, pay)" by (cases x)
  consider k where "t = Keyboard" "pay = PKeyboard (Some k)" | d where "t = Mouse" "pay = PMouse (Some d)"
    using assms(2,3) x by (auto split: payload.splits option.splits)
  then show ?thesis
    using assms(1) x by cases (simp_all add: arrives_def receive_packet_def uinput.inject_def)
qed

lemma receive_inputs:
  assumes "list_all2 arrives xs qs" and "list_all (\<lambda>x. fits x \<and> fst x \<in> {Keyboard, Mouse}) xs"
  shows "mVi (snd (fold (receive_packet inflate setText) qs (r, m))) = fold uinput.inject xs (mVi m)"
  using assms
proof (induction xs qs arbitrary: r m rule: list_all2_induct)
  case (Cons x xs q qs)
  obtain r' m' where rm: "receive_packet inflate setText q (r, m) = (r', m')" by fastforce
  then have "mVi m' = uinput.inject x (mVi m)" using receive_input [OF Cons.hyps(1), where inflate = inflate and setText = setText and r = r and m = m] Cons.prems by auto
  with Cons.IH [where r = r' and m = m'] Cons.prems rm show ?case by simp
qed simp

lemma forward_fits:
  "list_all (\<lambda>x. fits x \<and> fst x \<in> {Keyboard, Mouse}) (fst (forward rnd table cb cu))"
  by (cases cb)
    (auto simp add: onMouseEvent_def onButtonEvent_def onKeyEvent_def Let_def split_beta split: option.split)

lemma forward_all_fits:
  "list_all (\<lambda>x. fits x \<and> fst x \<in> {Keyboard, Mouse}) (fst (forward_all rnd table cbs cu))"
proof (induction cbs arbitrary: cu)
  case (Cons cb cbs)
  then show ?case using forward_fits [of rnd table cb cu] by (simp add: split_beta Let_def del: fits.simps)
qed simp

section \<open>The receiver of a clipboard text\<close>

lemma receive_text:
  assumes "arrives (ClipboardText, PBytes (Some b)) q"
  shows "receive_packet inflate setText q (r, m) =
     (r\<lparr>clipboardBuffer := clipboardBuffer r @ zero_pad 48 b, receivingClipboard := True\<rparr>, m)"
  using assms by (simp add: arrives_def receive_packet_def)

lemma receive_texts:
  assumes "list_all2 arrives (map (\<lambda>b. (ClipboardText, PBytes (Some b))) bs) qs" and "bs \<noteq> []"
  shows "fold (receive_packet inflate setText) qs (r, m) =
     (r\<lparr>clipboardBuffer := clipboardBuffer r @ concat (map (zero_pad 48) bs), receivingClipboard := True\<rparr>, m)"
  using assms
proof (induction bs arbitrary: qs r)
  case (Cons b bs)
  obtain q qs' where qs: "qs = q # qs'" using Cons.prems by (cases qs) auto
  show ?case
  proof (cases "bs = []")
    case True
    then show ?thesis using Cons.prems qs by (simp add: receive_text)
  next
    case False
    moreover have "arrives (ClipboardText, PBytes (Some b)) q" using Cons.prems qs by simp
    note receive_text [OF this, of inflate setText r m]
    ultimately show ?thesis using Cons.prems qs Cons.IH [of qs'] by simp
  qed
qed simp

lemma receive_clipboard:
  assumes "list_all2 arrives (clipboard_sends deflate content) qs" and "clipboardBuffer r = []"
    and "formatClipboardText deflate content \<noteq> []"
    and "decompressAndParseClipboard inflate
           (concat (map (zero_pad 48) (chunks 48 (formatClipboardText deflate content)))) = content" and "content \<noteq> []"
  shows "fold (receive_packet inflate setText) qs (r, m) =
     (r\<lparr>receivingClipboard := False\<rparr>, m\<lparr>mClip := snd (setText content (mClip m))\<rparr>)"
proof -
  let ?bs = "chunks 48 (formatClipboardText deflate content)"
  obtain ts e where qs: "qs = ts @ [e]" "list_all2 arrives (map (\<lambda>b. (ClipboardText, PBytes (Some b))) ?bs) ts"
    "arrives (ClipboardDataEnd, PNil) e"
    using assms(1) by (auto simp add: clipboard_sends_def Let_def list_all2_append1 list_all2_Cons1)
  have "?bs \<noteq> []" using chunks_length [OF assms(3), of 48] by simp
  note t = receive_texts [OF qs(2) this, of inflate setText r m]
  have "0 < length (concat (map (zero_pad 48) ?bs))" using chunks_padded_long [OF assms(3)] by linarith
  then show ?thesis
    using assms(2,4,5) t qs(3) by (simp add: qs(1) receive_packet_def arrives_def Let_def)
qed

lemma clipboard_sends_fit: "list_all fits (clipboard_sends deflate content)"
  by (auto simp add: clipboard_sends_def Let_def list_all_iff)

section \<open>When the loop ends\<close>

lemma receive_error:
  assumes "Client_Receive c = (Inl e, c')"
  shows "rxEnd (clConn c') = rxEnd (clConn c)" and "e = RdIO EOF \<Longrightarrow> rxEnd (clConn c) = EOF"
    and "rx (clConn c) = [] \<Longrightarrow> e = RdIO (rxEnd (clConn c))"
    and "rx (clConn c) \<noteq> [] \<Longrightarrow> length (rx (clConn c')) < length (rx (clConn c))"
proof -
  have r: "readPacket c = (Inl e, c')" using assms by (simp add: Client_Receive_def)
  show "rxEnd (clConn c') = rxEnd (clConn c)" by (rule readPacket_frame(4) [OF r])
  obtain q conn where q: "ReadFull 32 (clConn c) = (q, conn)" by fastforce
  have "(e = RdIO EOF \<longrightarrow> rxEnd (clConn c) = EOF) \<and> (rx (clConn c) = [] \<longrightarrow> e = RdIO (rxEnd (clConn c))) \<and>
    (rx (clConn c) \<noteq> [] \<longrightarrow> length (rx (clConn c')) < length (rx (clConn c)))"
  proof (cases q)
    case (Inl err)
    then have "e = RdIO err" "clConn c' = conn" using r q by (auto simp add: readPacket_def)
    moreover have "rx (clConn c) \<noteq> [] \<Longrightarrow> rx conn = []" "rx (clConn c) = [] \<Longrightarrow> err = rxEnd (clConn c)"
      "err = EOF \<Longrightarrow> rxEnd (clConn c) = EOF"
      using q Inl by (auto simp add: ReadFull_def split: if_splits)
    ultimately show ?thesis by auto
  next
    case (Inr buf)
    then have l: "length (rx conn) < length (rx (clConn c))" "rx (clConn c) \<noteq> []"
      using q by (auto simp add: ReadFull_def split: if_splits)
    have "e \<noteq> RdIO err \<and> length (rx (clConn c')) \<le> length (rx conn)" for err
      using r q Inr ReadFull_frame [of 32 conn]
      by (auto simp add: readPacket_def Let_def split: prod.splits option.splits sum.splits if_splits)
    with l show ?thesis by (metis le_less_trans)
  qed
  then show "e = RdIO EOF \<Longrightarrow> rxEnd (clConn c) = EOF" "rx (clConn c) = [] \<Longrightarrow> e = RdIO (rxEnd (clConn c))"
    "rx (clConn c) \<noteq> [] \<Longrightarrow> length (rx (clConn c')) < length (rx (clConn c))" by blast+
qed

lemma receive_packet_shorter:
  "Client_Receive c = (Inr pkt, c') \<Longrightarrow>
   rxEnd (clConn c') = rxEnd (clConn c) \<and> length (rx (clConn c')) < length (rx (clConn c))"
  using readPacket_frame(4) [of c "Inr pkt" c'] readPacket_frame(9) [of c "Inr pkt" c' pkt]
  by (auto simp add: Client_Receive_def)

lemma loop_returns_EOF:
  "rxEnd (clConn c) = EOF \<Longrightarrow> length (rx (clConn c)) < n \<Longrightarrow>
   \<exists>r. receiveLoop inflate setText n cancelled c st = Some r"
proof (induction n arbitrary: c st cancelled)
  case (Suc n)
  obtain q c' where q: "Client_Receive c = (q, c')" by fastforce
  show ?case
  proof (cases q)
    case (Inl e)
    show ?thesis
    proof (cases "rx (clConn c) = []")
      case True
      then have "e = RdIO EOF" using receive_error(3) [of c e c'] q Inl Suc.prems(1) by simp
      then show ?thesis using q Inl by simp
    next
      case False
      then have "length (rx (clConn c')) < n" "rxEnd (clConn c') = EOF"
        using receive_error(1,4) [of c e c'] q Inl Suc.prems by auto
      then show ?thesis using q Inl Suc.IH [of c'] by simp
    qed
  next
    case (Inr pkt)
    then have "length (rx (clConn c')) < n" "rxEnd (clConn c') = EOF"
      using receive_packet_shorter [of c pkt c'] q Suc.prems by auto
    then show ?thesis using q Inr Suc.IH [of c'] by simp
  qed
qed simp

lemma loop_runs:
  "rxEnd (clConn c) \<noteq> EOF \<Longrightarrow> receiveLoop inflate setText n (\<lambda>i. False) c st = None"
proof (induction n arbitrary: c st)
  case (Suc n)
  obtain q c' where q: "Client_Receive c = (q, c')" by fastforce
  then show ?case
    using Suc receive_error(1,2) [of c _ c'] receive_packet_shorter [of c _ c'] by (cases q) auto
qed simp


section \<open>Buttons tracked for the log\<close>

definition tracked :: "Receiver \<Rightarrow> u16 set" where
  "tracked r = {c. c = BTN_LEFT \<and> leftDown r \<or> c = BTN_RIGHT \<and> rightDown r \<or> c = BTN_MIDDLE \<and> middleDown r \<or>
     c = BTN_SIDE \<and> sideDown r \<or> c = BTN_EXTRA \<and> extraDown r}"

lemma track_buttons_tracked: "tracked (track_buttons d r) = press (button_of (mFlags d) (mWheelDelta d)) (tracked r)"
  unfolding track_buttons_def button_of_def press_def set_key_def Let_def by (auto simp add: tracked_def)

lemma tracked_frame [simp]:
  "tracked (track_keys k r) = tracked r" "tracked (r\<lparr>clipboardBuffer := b\<rparr>) = tracked r"
  "tracked (r\<lparr>receivingClipboard := v\<rparr>) = tracked r"
  by (simp_all add: tracked_def track_keys_def Let_def)

lemma button_of_move: "press (button_of (WinMouseEventFMove OR WinMouseEventFAbsolute) wd) B = B"
  by (simp add: button_of_def press_def)

lemma receive_packet_tracks:
  assumes "tracked r = buttons (mVi m)"
  shows "tracked (fst (receive_packet inflate setText q (r, m))) = buttons (mVi (snd (receive_packet inflate setText q (r, m))))"
  using assms button_of_move
  by (simp add: receive_packet_def Let_def track_buttons_tracked InjectMouse_buttons split: option.split)

section \<open>Properties\<close>

definition sample_vi :: VirtualInput where
  "sample_vi = \<lparr>mouseFile = new_file, kbdFile = new_file, screenW = 1920, screenH = 1080, absAvailable = True,
     absX = 0, absY = 0, btnLeft = False, btnRight = False, btnMiddle = False, btnSide = False,
     btnExtra = False, pressedKeys = {}\<rparr>"

definition sample_machine :: Machine where
  "sample_machine = \<lparr>mVi = sample_vi, mEvdev = NewEvdevCapture 1920 1080, mClip = Clip_New (Inr [])\<rparr>"

text \<open>A client and a peer in step with it.\<close>

abbreviation sample_peer :: "bytes \<Rightarrow> Client" where
  "sample_peer w \<equiv> sample_client\<lparr>clConn := (clConn sample_client)\<lparr>rx := w\<rparr>\<rparr>"

lemma sample_link:
  "IsConnected sample_client" "wr (clConn sample_client) = []"
  "in_step (clCipher sample_client) (clCipher (sample_peer w))"
  "drop_bit 16 (clMagic sample_client) = drop_bit 16 (clMagic (sample_peer w))"
  "tx (clConn c) = tx (clConn sample_client) @ tx (clConn c)" "rx (clConn (sample_peer w)) = w @ []"
  by (simp_all add: sample_client_def in_step_def IsConnected_def)

text \<open>Whatever packets the loop handles, the button states that it logs are those of the virtual
  mouse.\<close>

lemma logged_buttons:
  assumes "buttons (mVi m) = {}" and "fold (receive_packet inflate setText) qs (new_receiver, m) = (r', m')"
  shows "{c. c = BTN_LEFT \<and> leftDown r' \<or> c = BTN_RIGHT \<and> rightDown r' \<or> c = BTN_MIDDLE \<and> middleDown r' \<or>
      c = BTN_SIDE \<and> sideDown r' \<or> c = BTN_EXTRA \<and> extraDown r'} = buttons (mVi m')"
proof -
  have "tracked r = buttons (mVi m) \<Longrightarrow> fold (receive_packet inflate setText) qs (r, m) = (r', m') \<Longrightarrow>
      tracked r' = buttons (mVi m')" for r m
  proof (induction qs arbitrary: r m)
    case (Cons q qs)
    obtain r1 m1 where 1: "receive_packet inflate setText q (r, m) = (r1, m1)" by fastforce
    with Cons.IH [of r1 m1] Cons.prems receive_packet_tracks [OF Cons.prems(1), of inflate setText q] show ?case by simp
  qed simp
  from this [of new_receiver m] assms show ?thesis by (simp add: tracked_def new_receiver_def)
qed

text \<open>C2: The other machine mirrors this one: when the input events \<open>cbs\<close> that the capture reports
  are forwarded over a connection whose writes succeed, the peer reads exactly the packets sent,
  and after its loop has handled them its virtual keyboard and mouse hold down the keys and
  buttons that these events press and release, starting from whatever was held before; keys
  without a virtual key change nothing and \<open>KEY_SYSRQ\<close> arrives as \<open>KEY_PRINT\<close>.\<close>

theorem remote_mirrors:
  assumes "set order = set VKToLinux_table" and "forward_all rnd (LinuxToVK order) cbs cu = (map snd xs, cu')"
    and "IsConnected c" and "wr (clConn c) = []" and "in_step (clCipher c) (clCipher p)"
    and "drop_bit 16 (clMagic c) = drop_bit 16 (clMagic p)"
    and "s' = send_list Client_Send IsConnected xs (newSessionSender c src dst)"
    and "tx (clConn (ssClient s')) = tx (clConn c) @ w" and "rx (clConn p) = w @ rest"
  shows "\<exists>qs p'. receive_n (length xs) p = (Inr qs, p') \<and> rx (clConn p') = rest \<and>
    (\<forall>r m r' m'. fold (receive_packet inflate setText) qs (r, m) = (r', m') \<longrightarrow>
       pressedKeys (mVi m') = fold remote_keys cbs (pressedKeys (mVi m)) \<and>
       buttons (mVi m') = fold remote_buttons cbs (buttons (mVi m)))"
proof -
  have sends: "map snd xs = fst (forward_all rnd (LinuxToVK order) cbs cu)" using assms(2) by simp
  have ok: "list_all (\<lambda>x. fits x \<and> fst x \<in> {Keyboard, Mouse}) (map snd xs)"
    unfolding sends by (rule forward_all_fits)
  then have "list_all (fits \<circ> snd) xs" by (auto simp add: list_all_iff simp del: fits.simps)
  from sends_arrive [OF assms(3-6) this assms(7-9)]
  obtain qs p' where qs: "receive_n (length xs) p = (Inr qs, p')" "rx (clConn p') = rest"
    "list_all2 arrives (map snd xs) qs" by blast
  have "pressedKeys (mVi m') = fold remote_keys cbs (pressedKeys (mVi m)) \<and>
       buttons (mVi m') = fold remote_buttons cbs (buttons (mVi m))"
    if "fold (receive_packet inflate setText) qs (r, m) = (r', m')" for r m r' m'
  proof -
    have "mVi m' = fold uinput.inject (map snd xs) (mVi m)"
      using receive_inputs [OF qs(3) ok, of inflate setText r m] that by simp
    then show ?thesis using uinput.forward_all_arrives [OF assms(1)] by (simp add: sends)
  qed
  with qs show ?thesis by blast
qed

theorem remote_mirrors_witness:
  "\<exists>xs s' qs p'. map snd xs = fst (forward_all (\<lambda>x. x) (LinuxToVK VKToLinux_table)
        [KeyEvent 30 True, ButtonEvent BTN_LEFT True] (new_cursor (\<lambda>x. x) default_config)) \<and>
     s' = send_list Client_Send IsConnected xs (newSessionSender sample_client 111 222) \<and>
     receive_n (length xs) (sample_client\<lparr>clConn := (clConn sample_client)\<lparr>rx := tx (clConn (ssClient s'))\<rparr>\<rparr>) = (Inr qs, p') \<and>
     (\<exists>r' m'. fold (receive_packet toy_inflate (\<lambda>t c. (None, c))) qs (new_receiver, sample_machine) = (r', m') \<and>
        pressedKeys (mVi m') = {30} \<and> buttons (mVi m') = {BTN_LEFT})"
proof -
  let ?cbs = "[KeyEvent 30 True, ButtonEvent BTN_LEFT True]" and ?cu = "new_cursor (\<lambda>x. x) default_config"
  obtain sends cu' where f: "forward_all (\<lambda>x. x) (LinuxToVK VKToLinux_table) ?cbs ?cu = (sends, cu')" by fastforce
  define xs where "xs = map (Pair (0 :: u64)) sends"
  define s' where "s' = send_list Client_Send IsConnected xs (newSessionSender sample_client 111 222)"
  let ?p = "sample_client\<lparr>clConn := (clConn sample_client)\<lparr>rx := tx (clConn (ssClient s'))\<rparr>\<rparr>"
  have xs: "map snd xs = sends" by (simp add: xs_def comp_def)
  have "\<exists>qs p'. receive_n (length xs) ?p = (Inr qs, p') \<and> rx (clConn p') = [] \<and>
    (\<forall>r m r' m'. fold (receive_packet toy_inflate (\<lambda>t c. (None, c))) qs (r, m) = (r', m') \<longrightarrow>
       pressedKeys (mVi m') = fold remote_keys ?cbs (pressedKeys (mVi m)) \<and>
       buttons (mVi m') = fold remote_buttons ?cbs (buttons (mVi m)))"
    by (rule remote_mirrors [where order = VKToLinux_table, OF refl f [folded xs] sample_link(1-4) s'_def sample_link(5,6)])
  then obtain qs p' where qs: "receive_n (length xs) ?p = (Inr qs, p')"
    "\<forall>r m r' m'. fold (receive_packet toy_inflate (\<lambda>t c. (None, c))) qs (r, m) = (r', m') \<longrightarrow>
       pressedKeys (mVi m') = fold remote_keys ?cbs (pressedKeys (mVi m)) \<and>
       buttons (mVi m') = fold remote_buttons ?cbs (buttons (mVi m))" by blast
  obtain r' m' where m': "fold (receive_packet toy_inflate (\<lambda>t c. (None, c))) qs (new_receiver, sample_machine) = (r', m')"
    by fastforce
  have "mapped_key 30"
  proof -
    have "VKToLinux 0x41 = Some 30" by code_simp
    then show ?thesis unfolding mapped_key_def by blast
  qed
  then have "fold remote_keys ?cbs {} = {30}" "fold remote_buttons ?cbs {} = {BTN_LEFT}"
    by (simp_all add: forwarded_button_def set_key_def)
  moreover have "pressedKeys (mVi sample_machine) = {}" "buttons (mVi sample_machine) = {}"
    by (simp_all add: sample_machine_def sample_vi_def buttons_def)
  ultimately have "pressedKeys (mVi m') = {30} \<and> buttons (mVi m') = {BTN_LEFT}" using qs(2) m' by metis
  then show ?thesis using xs f qs(1) m' s'_def
    by (intro exI [of _ xs] exI [of _ s'] exI [of _ qs] exI [of _ p']) auto
qed




end
