(* ===== verification/Lifecycle.thy ===== *)
theory Lifecycle
  imports Receive Handshake
begin

text \<open>
  How \<open>src/main.go\<close> puts the components together: connecting in the three modes, setting up a
  session, the steps of a running session with all its goroutines, the emergency exit, and the
  outer loop that reconnects.  What the network and the devices answer are arguments.
\<close>

section \<open>Connecting\<close>

datatype run_error =
    ConnectFailed connect_error | ServerStartFailed | AcceptFailed accept_error | UnknownMode gostring

text \<open>
  The second component is the background server that was started.  \<open>incoming\<close> are the
  connections that the listener of server mode will accept.
\<close>

definition connectClient ::
  "(bytes \<Rightarrow> bytes \<Rightarrow> nat \<Rightarrow> nat \<Rightarrow> bytes) \<Rightarrow> (bytes \<Rightarrow> bytes) \<Rightarrow> (gostring \<Rightarrow> int \<Rightarrow> Conn option) \<Rightarrow> (int \<Rightarrow> bool)
   \<Rightarrow> (Conn \<times> bytes option \<times> bytes option) list \<Rightarrow> bytes option \<Rightarrow> bytes option \<Rightarrow> Config
   \<Rightarrow> (run_error + Client) \<times> Server option" where
  "connectClient pbkdf2 sha512 dial listen incoming primer rnd cfg =
    (let port = sint (ListenPort cfg);
         background = (if Mode cfg = gostr ''client'' \<or> Mode cfg = gostr ''tui''
           then NewServer pbkdf2 sha512 listen port (SecurityKey cfg) (MachineID cfg) (MachineName cfg) else None)
     in if Mode cfg = gostr ''client'' \<or> Mode cfg = gostr ''tui'' then
          (case fst (Connect pbkdf2 sha512 dial (RemoteAddress cfg) port (SecurityKey cfg) (MachineID cfg)
                       (MachineName cfg) primer rnd) of
             Inl e \<Rightarrow> (Inl (ConnectFailed e), background)
           | Inr c \<Rightarrow> (Inr c, background))
        else if Mode cfg = gostr ''server'' then
          (case NewServer pbkdf2 sha512 listen port (SecurityKey cfg) (MachineID cfg) (MachineName cfg) of
             None \<Rightarrow> (Inl ServerStartFailed, background)
           | Some s \<Rightarrow>
               (case fst (Accept s incoming) of
                  Inl e \<Rightarrow> (Inl (AcceptFailed e), background)
                | Inr c \<Rightarrow> (Inr c, background)))
        else (Inl (UnknownMode (Mode cfg)), background))"

text \<open>
  The accept loop of the background server: the clients it hands to a goroutine that reads and
  drops their packets.  Every accepted or refused connection uses up one of \<open>incoming\<close>.
\<close>

function runBackgroundServer ::
  "Server \<Rightarrow> (Conn \<times> bytes option \<times> bytes option) list \<Rightarrow> Client list" where
  "runBackgroundServer s incoming =
    (case Accept s incoming of
       (Inl e, gone) \<Rightarrow> []
     | (Inr c, gone) \<Rightarrow>
         if incoming = [] then [] else c # runBackgroundServer s (drop (Suc (length gone)) incoming))"
  by pat_completeness auto
termination by (relation "measure (\<lambda>(s, xs). length xs)") auto

declare runBackgroundServer.simps [simp del]

section \<open>Setting up a session\<close>

text \<open>What a session works on; \<open>Exited\<close> is the end of the process, \<open>CleanedUp\<close> of the session.\<close>

datatype ending = Ongoing | Exited | CleanedUp

record Session =
  snSender :: "Client sessionSender"
  snMachine :: Machine
  snCursor :: Cursor
  snReceiver :: Receiver
  snEnding :: ending

datatype fatal = VirtualInputFailed vi_error | CaptureFailed evdev_error

definition setupInputCapture ::
  "(gostring \<Rightarrow> gostring) \<Rightarrow> gostring list option \<Rightarrow> (gostring \<Rightarrow> Node option) \<Rightarrow> (gostring \<Rightarrow> bool) \<Rightarrow> Config
   \<Rightarrow> evdev_error + EvdevCapture" where
  "setupInputCapture base glob nodes opens cfg =
    (let e = NewEvdevCapture (ScreenWidth cfg) (ScreenHeight cfg);
         callbacks = {OnEdgeHit, OnReturn, OnEmergency, OnMouseEvent, OnButtonEvent, OnKeyEvent}
     in if MouseDevice cfg = [] \<and> KeyboardDevice cfg = [] then
          (case DiscoverAndOpen glob nodes opens e of
             (Some err, _) \<Rightarrow> Inl err
           | (None, e) \<Rightarrow> Inr (e\<lparr>ecOn := callbacks\<rparr>))
        else
          (case (if MouseDevice cfg = [] then FindMouseDevice glob nodes else Inr (MouseDevice cfg)) of
             Inl err \<Rightarrow> Inl err
           | Inr mouseDev \<Rightarrow>
               (case (if KeyboardDevice cfg = [] then FindKeyboardDevice glob nodes else Inr (KeyboardDevice cfg)) of
                  Inl err \<Rightarrow> Inl err
                | Inr kbdDev \<Rightarrow>
                    (case Open base nodes mouseDev kbdDev e of
                       (Some err, _) \<Rightarrow> Inl err
                     | (None, e) \<Rightarrow> Inr (e\<lparr>ecOn := callbacks\<rparr>)))))"

text \<open>
  The virtual devices are created before the input devices are looked for: \<open>nodes\<close> are the
  event devices that exist at that time.  \<open>got\<close> is the first reading of the clipboard.
\<close>

definition runSession ::
  "(rat \<Rightarrow> rat) \<Rightarrow> bool \<Rightarrow> bool \<Rightarrow> (ioctl_req \<Rightarrow> bool) \<Rightarrow> (ioctl_req \<Rightarrow> bool) \<Rightarrow> (gostring \<Rightarrow> gostring) \<Rightarrow> gostring list option
   \<Rightarrow> (gostring \<Rightarrow> Node option) \<Rightarrow> (gostring \<Rightarrow> bool) \<Rightarrow> clip_error + gostring \<Rightarrow> Config \<Rightarrow> Client \<Rightarrow> fatal + Session" where
  "runSession rnd open1 open2 kern1 kern2 base glob nodes opens got cfg client =
    (let sender = newSessionSender client (MachineID cfg) (clRemoteMachineID client)
     in case NewVirtualInput open1 open2 kern1 kern2 (ScreenWidth cfg) (ScreenHeight cfg) of
          Inl e \<Rightarrow> Inl (VirtualInputFailed e)
        | Inr vi \<Rightarrow>
            (case setupInputCapture base glob nodes opens cfg of
               Inl e \<Rightarrow> Inl (CaptureFailed e)
             | Inr evdev \<Rightarrow>
                 Inr \<lparr>snSender = sender,
                      snMachine = \<lparr>mVi = vi, mEvdev = evdev, mClip = (Clip_New got)\<lparr>clipOnChange := True\<rparr>\<rparr>,
                      snCursor = new_cursor rnd cfg, snReceiver = new_receiver, snEnding = Ongoing\<rparr>))"

section \<open>The running session\<close>

text \<open>\<open>OnEmergency\<close>: close the capture and exit.\<close>

definition emergency :: "Session \<Rightarrow> Session" where
  "emergency s = s\<lparr>snMachine := (snMachine s)\<lparr>mEvdev := Evdev_Close (mEvdev (snMachine s))\<rparr>, snEnding := Exited\<rparr>"

text \<open>
  The cleanup when the connection is lost or the program interrupted.  It would panic (\<open>None\<close>) if
  the clipboard were stopped already.  \<open>order\<close> is the order in which the held keys are released.
\<close>

definition cleanup :: "(ioctl_req \<Rightarrow> bool) \<Rightarrow> (ioctl_req \<Rightarrow> bool) \<Rightarrow> u16 list \<Rightarrow> Session \<Rightarrow> Session option" where
  "cleanup kern1 kern2 order s =
    (let m = (snMachine s)\<lparr>mEvdev := Evdev_Close (mEvdev (snMachine s))\<rparr> in
     case Clip_Stop (mClip m) of
       None \<Rightarrow> None
     | Some clip \<Rightarrow>
         Some (s\<lparr>snMachine := m\<lparr>mClip := clip, mVi := VirtualInput_Close kern1 kern2 order (mVi m)\<rparr>,
                 snEnding := CleanedUp\<rparr>))"

text \<open>
  The calls of one event of the capture, in order; nothing is sent after the emergency call.
  \<open>clock i\<close> is the time of the \<open>i\<close>-th packet.
\<close>

definition stamped :: "(nat \<Rightarrow> u64) \<Rightarrow> send list \<Rightarrow> (u64 \<times> send) list" where
  "stamped clock sends = zip (map clock [0..<length sends]) sends"

definition run_callbacks ::
  "(rat \<Rightarrow> rat) \<Rightarrow> (u16 \<Rightarrow> i32 option) \<Rightarrow> (nat \<Rightarrow> u64) \<Rightarrow> callback list \<Rightarrow> Session \<Rightarrow> Session" where
  "run_callbacks rnd table clock cs s =
    (let (sends, cu) = forward_all rnd table (takeWhile (\<lambda>c. c \<noteq> Emergency) cs) (snCursor s);
         s = s\<lparr>snSender := send_list Client_Send IsConnected (stamped clock sends) (snSender s), snCursor := cu\<rparr>
     in if Emergency \<in> set cs then emergency s else s)"

text \<open>
  One step of any goroutine: an event of a captured device, a packet handled by the receive loop or
  an error it retries, the keep-awake tap, a heartbeat, a round of the clipboard watcher, the cleanup.
\<close>

inductive session_step ::
  "(rat \<Rightarrow> rat) \<Rightarrow> (u16 \<Rightarrow> i32 option) \<Rightarrow> (gostring \<Rightarrow> gostring) \<Rightarrow> (gostring \<Rightarrow> gostring) \<Rightarrow> (bytes \<Rightarrow> bytes)
   \<Rightarrow> (bytes \<Rightarrow> bytes option) \<Rightarrow> Session \<Rightarrow> Session \<Rightarrow> bool"
  for rnd table trim lower deflate inflate where
  input: "snEnding s = Ongoing \<Longrightarrow> capture_step trim lower (mEvdev (snMachine s)) cs e \<Longrightarrow>
     session_step rnd table trim lower deflate inflate s
       (run_callbacks rnd table clock cs (s\<lparr>snMachine := (snMachine s)\<lparr>mEvdev := e\<rparr>\<rparr>))"
| packet: "snEnding s = Ongoing \<Longrightarrow> Client_Receive (ssClient (snSender s)) = (Inr pkt, c) \<Longrightarrow>
     receive_packet inflate (SetText run os) pkt (snReceiver s, snMachine s) = (r, m) \<Longrightarrow>
     session_step rnd table trim lower deflate inflate s
       (s\<lparr>snSender := (snSender s)\<lparr>ssClient := c\<rparr>, snReceiver := r, snMachine := m\<rparr>)"
| bad_packet: "snEnding s = Ongoing \<Longrightarrow> Client_Receive (ssClient (snSender s)) = (Inl err, c) \<Longrightarrow>
     session_step rnd table trim lower deflate inflate s (s\<lparr>snSender := (snSender s)\<lparr>ssClient := c\<rparr>\<rparr>)"
| jiggle: "snEnding s = Ongoing \<Longrightarrow> i < length jigglerKeys \<Longrightarrow>
     session_step rnd table trim lower deflate inflate s
       (s\<lparr>snSender := send_list Client_Send IsConnected (stamped clock (fst (jigglerTick i (mEvdev (snMachine s))))) (snSender s)\<rparr>)"
| heartbeat: "snEnding s = Ongoing \<Longrightarrow>
     session_step rnd table trim lower deflate inflate s
       (s\<lparr>snSender := Sender_Send Client_Send IsConnected now Heartbeat PNil (snSender s)\<rparr>)"
| clipboard: "snEnding s = Ongoing \<Longrightarrow> watch_tick trim (GetText lower run os) (mClip (snMachine s)) = (r, cl) \<Longrightarrow>
     sends = (case r of None \<Rightarrow> [] | Some content \<Rightarrow> clipboard_sends deflate content) \<Longrightarrow>
     session_step rnd table trim lower deflate inflate s
       (s\<lparr>snSender := send_list Client_Send IsConnected (stamped clock sends) (snSender s),
          snMachine := (snMachine s)\<lparr>mClip := cl\<rparr>\<rparr>)"
| finish: "snEnding s = Ongoing \<Longrightarrow> distinct order \<Longrightarrow> set order = pressedKeys (mVi (snMachine s)) \<Longrightarrow>
     cleanup kern1 kern2 order s = Some s' \<Longrightarrow> session_step rnd table trim lower deflate inflate s s'"

section \<open>The demo\<close>

definition demo_positions :: "(i32 \<times> i32) list" where
  "demo_positions =
    (let centerX = 32768; centerY = 32768; offset = 15000
     in [(centerX - offset, centerY - offset), (centerX + offset, centerY - offset), (centerX + offset, centerY + offset),
         (centerX - offset, centerY + offset), (centerX, centerY)])"

text \<open>The virtual devices at the end of the demo, closed; \<open>order\<close> as in \<open>cleanup\<close>.\<close>

definition runDemo ::
  "bool \<Rightarrow> bool \<Rightarrow> (ioctl_req \<Rightarrow> bool) \<Rightarrow> (ioctl_req \<Rightarrow> bool) \<Rightarrow> u16 list \<Rightarrow> Config \<Rightarrow> vi_error + VirtualInput" where
  "runDemo open1 open2 kern1 kern2 order cfg =
    (case NewVirtualInput open1 open2 kern1 kern2 (ScreenWidth cfg) (ScreenHeight cfg) of
       Inl e \<Rightarrow> Inl e
     | Inr vi \<Rightarrow>
         Inr (VirtualInput_Close kern1 kern2 order
                (fold (\<lambda>(x, y). InjectMouse x y 0 0) demo_positions (InjectMouse 32768 32768 0 0 vi))))"

section \<open>The outer loop\<close>

text \<open>The phases of \<open>main\<close>; a number is an exit status, \<open>Returned\<close> the return of \<open>main\<close>.\<close>

datatype phase = Exit nat | Connecting | Waiting | Running Client | RunningTui Client | Returned

definition main_start :: "Config \<Rightarrow> phase" where
  "main_start cfg =
    (if ShowVersion cfg then Exit 0
     else if ListDevices cfg then Exit 0
     else if Validate cfg \<noteq> None then Exit 1
     else if Demo cfg then Exit 0
     else Connecting)"

text \<open>\<open>attempt c\<close> tells that a call of \<open>connectClient\<close> may return \<open>c\<close>.\<close>

inductive main_step :: "(run_error + Client \<Rightarrow> bool) \<Rightarrow> Config \<Rightarrow> phase \<Rightarrow> phase \<Rightarrow> bool" for attempt cfg where
  tui_failed: "Mode cfg = gostr ''tui'' \<Longrightarrow> attempt (Inl e) \<Longrightarrow> main_step attempt cfg Connecting (Exit 1)"
| tui: "Mode cfg = gostr ''tui'' \<Longrightarrow> attempt (Inr c) \<Longrightarrow> main_step attempt cfg Connecting (RunningTui c)"
| tui_quit: "main_step attempt cfg (RunningTui c) Returned"
| failed: "Mode cfg \<noteq> gostr ''tui'' \<Longrightarrow> attempt (Inl e) \<Longrightarrow> main_step attempt cfg Connecting Waiting"
| connected: "Mode cfg \<noteq> gostr ''tui'' \<Longrightarrow> attempt (Inr c) \<Longrightarrow> main_step attempt cfg Connecting (Running c)"
| again: "main_step attempt cfg Waiting Connecting"
| interrupted: "main_step attempt cfg (Running c) Returned"
| lost: "main_step attempt cfg (Running c) Waiting"

inductive_cases main_stepE: "main_step attempt cfg p q"

section \<open>The invariant of a session\<close>

lemma close_device_sel [simp]:
  "mouseDevs (close_device i e) = mouseDevs e" "kbdDevs (close_device i e) = kbdDevs e"
  "ecKernel (close_device i e) = ecKernel e" "IsRemote (close_device i e) = IsRemote e"
  "length (ecDevs (close_device i e)) = length (ecDevs e)"
  by (simp_all add: close_device_def)

lemma close_device_handle:
  assumes "i < length (ecDevs e)"
  shows "handle (close_device i e) j = (if i = j then (handle e i)\<lparr>hOpen := False\<rparr> else handle e j)"
  using assms by (auto simp add: close_device_def)

lemma close_device_inv:
  assumes "i < length (ecDevs e)"
  shows "capture_inv (close_device i e) = capture_inv e"
proof -
  have "hInfo (handle (close_device i e) j) = hInfo (handle e j)"
    "hGrabbed (handle (close_device i e) j) = hGrabbed (handle e j)" for j
    using assms by (simp_all add: close_device_handle)
  moreover have "activeMouseDev (close_device i e) = activeMouseDev e" "activeKbdDev (close_device i e) = activeKbdDev e"
    "pendingMouse (close_device i e) = pendingMouse e"
    by (simp_all add: close_device_def)
  ultimately show ?thesis
    by (simp add: capture_inv_def devices_ok_def in_sync_def isMouseDevicePath_def)
qed

lemma fold_close_device:
  "set is \<subseteq> {..<length (ecDevs e)} \<Longrightarrow>
   capture_inv (fold close_device is e) = capture_inv e \<and> ecKernel (fold close_device is e) = ecKernel e \<and>
   IsRemote (fold close_device is e) = IsRemote e \<and> kbdDevs (fold close_device is e) = kbdDevs e \<and>
   mouseDevs (fold close_device is e) = mouseDevs e \<and> length (ecDevs (fold close_device is e)) = length (ecDevs e) \<and>
   (\<forall>i. i \<in> set is \<or> \<not> hOpen (handle e i) \<longrightarrow> \<not> hOpen (handle (fold close_device is e) i))"
proof (induction "is" arbitrary: e)
  case (Cons i "is")
  then have i: "i < length (ecDevs e)" by simp
  from Cons.IH [of "close_device i e"] Cons.prems show ?case
    by (simp add: close_device_inv [OF i] close_device_handle [OF i])
qed simp

text \<open>Closing the capture releases every device, leaves remote mode and closes every file.\<close>

lemma Evdev_Close_local:
  assumes "in_sync e" and "devices_ok e" and "ecKernel e \<subseteq> set (mouseDevs e) \<union> set (kbdDevs e)"
  shows "capture_inv (Evdev_Close e)" and "ecKernel (Evdev_Close e) = {}" and "\<not> IsRemote (Evdev_Close e)"
    and "\<forall>i\<in>set (mouseDevs e @ kbdDevs e). \<not> hOpen (handle (Evdev_Close e) i)"
    and "mouseDevs (Evdev_Close e) = mouseDevs e" and "kbdDevs (Evdev_Close e) = kbdDevs e"
proof -
  note u = Ungrab_local [OF assms]
  have d: "set (mouseDevs e) \<subseteq> {..<length (ecDevs (Ungrab e))}" "set (kbdDevs e) \<subseteq> {..<length (ecDevs (Ungrab e))}"
    using u(7,10,11) by (auto simp add: devices_ok_def)
  let ?m = "fold close_device (mouseDevs e) (Ungrab e)"
  have m: "set (mouseDevs (Ungrab e)) \<subseteq> {..<length (ecDevs (Ungrab e))}" using d u(11) by simp
  note 1 = fold_close_device [OF m]
  have "set (kbdDevs e) \<subseteq> {..<length (ecDevs ?m)}" using 1 d(2) u(11) by simp
  note 2 = fold_close_device [OF this]
  have e: "Evdev_Close e = fold close_device (kbdDevs e) ?m"
    using 1 u(10,11) by (simp add: Evdev_Close_def Let_def)
  show "capture_inv (Evdev_Close e)" "ecKernel (Evdev_Close e) = {}" "\<not> IsRemote (Evdev_Close e)"
    "\<forall>i\<in>set (mouseDevs e @ kbdDevs e). \<not> hOpen (handle (Evdev_Close e) i)"
    "mouseDevs (Evdev_Close e) = mouseDevs e" "kbdDevs (Evdev_Close e) = kbdDevs e"
    using 1 2 u Ungrab_inv [OF assms] unfolding e by auto
qed

lemma Evdev_Close_inv:
  assumes "capture_inv e"
  shows "capture_inv (Evdev_Close e)" and "ecKernel (Evdev_Close e) = {}" and "\<not> IsRemote (Evdev_Close e)"
    and "\<forall>i\<in>set (mouseDevs e @ kbdDevs e). \<not> hOpen (handle (Evdev_Close e) i)"
    and "mouseDevs (Evdev_Close e) = mouseDevs e" and "kbdDevs (Evdev_Close e) = kbdDevs e"
  using Evdev_Close_local [OF capture_invD(2,1,3) [OF assms]] by simp_all

text \<open>No step takes a callback away.\<close>

lemma ecOn_activate: "ecOn (activate_mouse ok now d ev e) = ecOn e"
proof -
  have "ecOn (snd (decideMouseActivation now d ev e)) = ecOn e" using decide_frame [of now d ev e] by auto
  then show ?thesis
    by (auto simp add: activate_mouse_def grabMouse_def ungrabMouse_def Let_def split_beta
        split: mouseActivationAction.split option.split)
qed

lemma capture_step_ecOn: "capture_step trim lower e cs e' \<Longrightarrow> ecOn e' = ecOn e"
proof (induction rule: capture_step.induct)
  case (mouse dev e ok now ev e' cs)
  then show ?case
    by (auto simp add: mouse_loop_step_def Let_def handleLocalMouseEvent_def ecOn_activate split: if_splits)
next
  case (keyboard dev e order ev ok now e' cs)
  show ?case
  proof (cases "evType ev = EV_KEY \<and> evValue ev \<noteq> 2 \<and> \<not> isMouseButtonCode (evCode ev)")
    case True
    then show ?thesis using keyboard(4) ecOn_Grab ecOn_Ungrab
      by (auto simp add: keyboard_loop_step_eq Let_def split: if_splits)
  next
    case False
    then show ?thesis using keyboard(4)
      by (auto simp add: keyboard_loop_step_def keyboard_mouse_button_def Let_def ecOn_activate split: if_splits option.splits)
  qed
qed (rule ecOn_Ungrab)

text \<open>The demo presses nothing and closes what it opened.\<close>

lemma runDemo_closed:
  assumes "runDemo o1 o2 k1 k2 [] cfg = Inr vi"
  shows "keys_down (kbd_events vi) = {} \<and> buttons vi = {} \<and> \<not> ufOpen (mouseFile vi) \<and> \<not> ufOpen (kbdFile vi)"
proof -
  obtain v0 where v: "NewVirtualInput o1 o2 k1 k2 (ScreenWidth cfg) (ScreenHeight cfg) = Inr v0"
    using assms by (auto simp add: runDemo_def split: sum.splits)
  let ?v = "fold (\<lambda>(x, y). InjectMouse x y 0 0) demo_positions (InjectMouse 32768 32768 0 0 v0)"
  have f: "pressedKeys (InjectMouse x y wd fl w) = pressedKeys w" for x y wd fl w by simp
  have s: "vi_step\<^sup>*\<^sup>* w (fold (\<lambda>(x, y). InjectMouse x y 0 0) ps w) \<and>
      pressedKeys (fold (\<lambda>(x, y). InjectMouse x y 0 0) ps w) = pressedKeys w \<and>
      buttons (fold (\<lambda>(x, y). InjectMouse x y 0 0) ps w) = buttons w" for ps w
  proof (induction ps arbitrary: w)
    case (Cons p ps)
    obtain x y where p: "p = (x, y)" by (cases p)
    have "vi_step w (InjectMouse x y 0 0 w)" by (rule vi_step.mouse)
    moreover have "buttons (InjectMouse x y 0 0 w) = buttons w"
      by (simp add: InjectMouse_buttons button_of_def press_def)
    ultimately show ?case using Cons.IH [of "InjectMouse x y 0 0 w"] by (auto simp add: p intro: converse_rtranclp_into_rtranclp)
  qed simp
  have e: "?v = fold (\<lambda>(x, y). InjectMouse x y 0 0) ((32768, 32768) # demo_positions) v0" by simp
  have "buttons v0 = {}" "pressedKeys v0 = {}" using v
    by (auto simp add: NewVirtualInput_def buttons_def split: if_splits prod.splits option.splits)
  then have b: "buttons ?v = {}" "pressedKeys ?v = {}" using s [of v0 "(32768, 32768) # demo_positions"] unfolding e by blast+
  have "vi_inv ?v" using vi_steps_inv s [of v0 "(32768, 32768) # demo_positions"] NewVirtualInput_inv [OF v] unfolding e by blast
  from VirtualInput_Close_released [OF this, of "[]" k1 k2] b v assms show ?thesis
    by (auto simp add: runDemo_def)
qed

lemma receive_packet_keeps:
  assumes "receive_packet inflate (SetText run os) pkt (r, m) = (r', m')"
  shows "vi_inv (mVi m) \<Longrightarrow> vi_inv (mVi m')" and "capture_inv (mEvdev m) \<Longrightarrow> capture_inv (mEvdev m')"
    and "clipStopped (mClip m') = clipStopped (mClip m)" and "ecOn (mEvdev m') = ecOn (mEvdev m)"
proof -
  have s: "clipStopped (snd (SetText run os tx c)) = clipStopped c" for tx c
    by (simp add: SetText_def split_beta)
  have k: "vi_inv v \<Longrightarrow> vi_inv (InjectKeyboard vk flags v)" "vi_inv v \<Longrightarrow> vi_inv (InjectMouse x y wd flags v)"
    for v vk flags x y wd by (rule vi_step_inv, rule vi_step.intros, assumption)+
  have u: "capture_inv e \<Longrightarrow> capture_inv (Ungrab e)" for e using Ungrab_inv capture_invD by blast
  have m': "m' = snd (receive_packet inflate (SetText run os) pkt (r, m))" using assms by simp
  show "vi_inv (mVi m) \<Longrightarrow> vi_inv (mVi m')" unfolding m'
    by (simp add: receive_packet_def Let_def k split: option.split)
  show "capture_inv (mEvdev m) \<Longrightarrow> capture_inv (mEvdev m')" unfolding m'
    by (simp add: receive_packet_def Let_def u split: option.split)
  show "clipStopped (mClip m') = clipStopped (mClip m)" unfolding m'
    by (simp add: receive_packet_def Let_def s split: option.split)
  show "ecOn (mEvdev m') = ecOn (mEvdev m)" unfolding m'
    by (simp add: receive_packet_def Let_def ecOn_Ungrab split: option.split)
qed

definition session_inv :: "(rat \<Rightarrow> rat) \<Rightarrow> Session \<Rightarrow> bool" where
  "session_inv rnd s \<longleftrightarrow>
     capture_inv (mEvdev (snMachine s)) \<and>
     tracked (snReceiver s) = buttons (mVi (snMachine s)) \<and>
     (rounding rnd \<longrightarrow> cursor_inv (snCursor s)) \<and>
     (snEnding s \<noteq> CleanedUp \<longrightarrow> vi_inv (mVi (snMachine s))) \<and>
     (snEnding s = Ongoing \<longrightarrow> \<not> clipStopped (mClip (snMachine s)) \<and> OnEmergency \<in> ecOn (mEvdev (snMachine s))) \<and>
     (snEnding s \<noteq> Ongoing \<longrightarrow> ecKernel (mEvdev (snMachine s)) = {}) \<and>
     (snEnding s = CleanedUp \<longrightarrow> keys_down (kbd_events (mVi (snMachine s))) = {} \<and>
        \<not> ufOpen (mouseFile (mVi (snMachine s))) \<and> \<not> ufOpen (kbdFile (mVi (snMachine s))))"

lemma run_callbacks_inv:
  assumes "session_inv rnd s" and "snEnding s = Ongoing" and "capture_inv e"
    and "OnEmergency \<in> ecOn e"
  shows "session_inv rnd (run_callbacks rnd table clock cs (s\<lparr>snMachine := (snMachine s)\<lparr>mEvdev := e\<rparr>\<rparr>))"
proof -
  obtain sends cu where f: "forward_all rnd table (takeWhile (\<lambda>c. c \<noteq> Emergency) cs) (snCursor s) = (sends, cu)" by fastforce
  have "rounding rnd \<Longrightarrow> cursor_inv cu" using forward_all_inv [OF _ _ f] assms(1) by (simp add: session_inv_def)
  then show ?thesis
    using assms f Evdev_Close_inv [OF assms(3)]
    by (simp add: run_callbacks_def Let_def emergency_def session_inv_def)
qed

lemma cleanup_total:
  assumes "session_inv rnd s" and "snEnding s = Ongoing"
  shows "\<exists>s'. cleanup k1 k2 order s = Some s' \<and> snEnding s' = CleanedUp"
  using assms by (simp add: cleanup_def Let_def Clip_Stop_def session_inv_def)

lemma cleanup_inv:
  assumes "session_inv rnd s" and "snEnding s = Ongoing" and "set order = pressedKeys (mVi (snMachine s))"
    and "cleanup k1 k2 order s = Some s'"
  shows "session_inv rnd s'"
proof -
  have "vi_inv (mVi (snMachine s))" "capture_inv (mEvdev (snMachine s))" using assms(1,2) by (simp_all add: session_inv_def)
  with assms Evdev_Close_inv [OF this(2)] VirtualInput_Close_released [OF this(1) assms(3), of k1 k2] show ?thesis
    by (auto simp add: cleanup_def Let_def Clip_Stop_def session_inv_def split: if_splits)
qed

lemma session_step_inv:
  "session_step rnd table trim lower deflate inflate s t \<Longrightarrow> session_inv rnd s \<Longrightarrow> session_inv rnd t"
proof (induction rule: session_step.induct)
  case (input s cs e clock)
  then show ?case using capture_step_inv [OF input(2)] capture_step_ecOn [OF input(2)] by (intro run_callbacks_inv) (simp_all add: session_inv_def)
next
  case (packet s pkt c run os r m)
  have "tracked r = buttons (mVi m)"
    using receive_packet_tracks [of "snReceiver s" "snMachine s" inflate "SetText run os" pkt] packet by (simp add: session_inv_def)
  with packet receive_packet_keeps [OF packet(3)] show ?case by (simp add: session_inv_def)
next
  case (clipboard s run os r cl sends clock)
  have "clipStopped cl = clipStopped (mClip (snMachine s))"
    using clipboard(2) by (auto simp add: watch_tick_def Let_def split: sum.splits if_splits)
  with clipboard show ?case by (simp add: session_inv_def)
next
  case (finish s order kern1 kern2 s')
  from finish(5,1,3,4) show ?case by (rule cleanup_inv)
qed (simp_all add: session_inv_def)

text \<open>A session keeps its invariant and takes no step after its end.\<close>

interpretation session: stopping_system
  "session_step rnd table trim lower deflate inflate" "session_inv rnd" "\<lambda>s. snEnding s \<noteq> Ongoing"
  for rnd table trim lower deflate inflate
  by unfold_locales (auto intro: session_step_inv elim: session_step.cases)

lemma setupInputCapture_inv:
  assumes "setupInputCapture base glob nodes opens cfg = Inr e"
  shows "capture_inv e \<and> \<not> IsRemote e \<and> OnEmergency \<in> ecOn e"
proof -
  have n: "capture_inv (NewEvdevCapture w h)" "\<not> IsRemote (NewEvdevCapture w h)" for w h
    using NewEvdevCapture_inv by blast+
  have o: "capture_inv (x\<lparr>ecOn := c\<rparr>) = capture_inv x" for x c
    by (simp add: capture_inv_def devices_ok_def in_sync_def isMouseDevicePath_def)
  show ?thesis
    using assms DiscoverAndOpen_inv [OF n] Open_inv [OF n]
    by (auto simp add: setupInputCapture_def Let_def o split: if_splits prod.splits option.splits sum.splits)
qed

lemma runSession_inv:
  assumes "runSession rnd o1 o2 k1 k2 base glob nodes opens got cfg client = Inr s" and "\<forall>x. rnd (rnd x) = rnd x"
  shows "session_inv rnd s \<and> snEnding s = Ongoing"
proof -
  obtain vi where v: "NewVirtualInput o1 o2 k1 k2 (ScreenWidth cfg) (ScreenHeight cfg) = Inr vi"
    using assms(1) by (auto simp add: runSession_def Let_def split: sum.splits)
  obtain e where e: "setupInputCapture base glob nodes opens cfg = Inr e"
    using assms(1) v by (auto simp add: runSession_def Let_def split: sum.splits)
  have "buttons vi = {}" using v
    by (auto simp add: NewVirtualInput_def buttons_def split: if_splits prod.splits option.splits)
  moreover have "tracked new_receiver = {}" by (simp add: tracked_def new_receiver_def)
  ultimately show ?thesis
    using assms v e NewVirtualInput_inv [OF v] setupInputCapture_inv [OF e] new_cursor_inv [OF _ assms(2)]
    by (auto simp add: runSession_def Let_def session_inv_def Clip_New_def)
qed

section \<open>Properties\<close>

text \<open>A session with one mouse and one keyboard.\<close>

lemma sample_session:
  "\<exists>s. runSession (\<lambda>x. x) True True (\<lambda>_. True) (\<lambda>_. True) (\<lambda>p. p) (Some []) sample_nodes (\<lambda>_. True) (Inr [])
      (default_config\<lparr>MouseDevice := [1], KeyboardDevice := [2]\<rparr>) sample_client = Inr s \<and>
     snEnding s = Ongoing \<and> pressedKeys (mVi (snMachine s)) = {} \<and> kbdDevs (mEvdev (snMachine s)) = [1] \<and>
     ecPressedKeys (mEvdev (snMachine s)) = {}"
proof -
  obtain vi where v: "NewVirtualInput True True (\<lambda>_. True) (\<lambda>_. True) 1920 1080 = Inr vi"
    using NewVirtualInput_ok by blast
  then have "pressedKeys vi = {}" by (auto simp add: NewVirtualInput_def split: prod.splits option.splits)
  with v show ?thesis
    by (simp add: runSession_def default_config_def Let_def setupInputCapture_def Open_def sample_nodes_def
        add_kbd_def add_mouse_def NewEvdevCapture_def)
qed

text \<open>C8: In every state that a session can reach, whatever input, packets, clipboard changes,
  keep-awake taps and interruptions occur in whatever order: the devices grabbed are none in
  local mode, and at most the active mouse and pure keyboards in remote mode; the keys down on
  the virtual keyboard are those recorded as held, and the buttons down on the virtual mouse are
  those that the receive loop logs; the cursor is inside the screen; and once the session or the
  process has ended, no device is grabbed.\<close>

theorem session_safe:
  assumes "runSession rnd o1 o2 k1 k2 base glob nodes opens got cfg client = Inr s0"
    and "rounding rnd" and "\<forall>x. rnd (rnd x) = rnd x"
    and "(session_step rnd table trim lower deflate inflate)\<^sup>*\<^sup>* s0 s"
  shows "(\<not> IsRemote (mEvdev (snMachine s)) \<or> snEnding s \<noteq> Ongoing \<longrightarrow> ecKernel (mEvdev (snMachine s)) = {}) \<and>
    (\<forall>i\<in>ecKernel (mEvdev (snMachine s)). activeMouseDev (mEvdev (snMachine s)) = Some i \<or>
       i \<in> set (kbdDevs (mEvdev (snMachine s))) \<and>
       \<not> isMouseDevicePath (dPath (hInfo (handle (mEvdev (snMachine s)) i))) (mEvdev (snMachine s))) \<and>
    (snEnding s \<noteq> CleanedUp \<longrightarrow>
       keys_down (kbd_events (mVi (snMachine s))) = pressedKeys (mVi (snMachine s)) \<and>
       keys_down (mouse_events (mVi (snMachine s))) = tracked (snReceiver s)) \<and>
    0 \<le> cursorXf (snCursor s) \<and> cursorXf (snCursor s) \<le> sourceWidth (snCursor s) \<and>
    0 \<le> cursorYf (snCursor s) \<and> cursorYf (snCursor s) \<le> sourceHeight (snCursor s)"
proof -
  have "session_inv rnd s0" using runSession_inv [OF assms(1,3)] by blast
  from session.run_inv [OF assms(4) this] show ?thesis
    using assms(2) by (auto simp add: session_inv_def capture_inv_def cursor_inv_def vi_inv_def kbd_inv_def mouse_inv_def)
qed

theorem session_safe_witness:
  "\<exists>s t. runSession (\<lambda>x. x) True True (\<lambda>_. True) (\<lambda>_. True) (\<lambda>p. p) (Some []) sample_nodes (\<lambda>_. True) (Inr [])
      (default_config\<lparr>MouseDevice := [1], KeyboardDevice := [2]\<rparr>) sample_client = Inr s \<and>
     session_step (\<lambda>x. x) (LinuxToVK VKToLinux_table) id id toy_deflate toy_inflate s t \<and>
     ecKernel (mEvdev (snMachine t)) = {}"
proof -
  obtain s where s: "runSession (\<lambda>x. x) True True (\<lambda>_. True) (\<lambda>_. True) (\<lambda>p. p) (Some []) sample_nodes (\<lambda>_. True) (Inr [])
      (default_config\<lparr>MouseDevice := [1], KeyboardDevice := [2]\<rparr>) sample_client = Inr s"
    "snEnding s = Ongoing" using sample_session by blast
  let ?m = "(snMachine s)\<lparr>mEvdev := Ungrab (mEvdev (snMachine s))\<rparr>"
  let ?t = "run_callbacks (\<lambda>x. x) (LinuxToVK VKToLinux_table) (\<lambda>_. 0) [] (s\<lparr>snMachine := ?m\<rparr>)"
  have st: "session_step (\<lambda>x. x) (LinuxToVK VKToLinux_table) id id toy_deflate toy_inflate s ?t"
    using s(2) capture_step.ungrab by (rule session_step.input)
  have "snMachine ?t = ?m" by (simp add: run_callbacks_def)
  then have "\<not> IsRemote (mEvdev (snMachine ?t))" by (simp add: Ungrab_def Let_def resetPendingMouse_def)
  with session_safe [OF s(1) rounding_id _ r_into_rtranclp [of "session_step _ _ _ _ _ _", OF st]] s(1) st show ?thesis by blast
qed

text \<open>Whenever the connection is lost or the program interrupted, the cleanup of the session
  succeeds (it does not stop the clipboard twice), grabs no device any more, closes every device
  it had opened, leaves no key pressed on the virtual keyboard, closes the virtual devices, and ends
  the steps of this relation; reads that are then still in progress are in \<open>Cleanup\<close>.\<close>

lemma session_ends:
  assumes "runSession rnd o1 o2 k1 k2 base glob nodes opens got cfg client = Inr s0"
    and "\<forall>x. rnd (rnd x) = rnd x"
    and "(session_step rnd table trim lower deflate inflate)\<^sup>*\<^sup>* s0 s" and "snEnding s = Ongoing"
    and "set order = pressedKeys (mVi (snMachine s))" and "distinct order"
  shows "\<exists>s'. cleanup kern1 kern2 order s = Some s' \<and> session_step rnd table trim lower deflate inflate s s' \<and>
    ecKernel (mEvdev (snMachine s')) = {} \<and>
    (\<forall>i\<in>set (mouseDevs (mEvdev (snMachine s)) @ kbdDevs (mEvdev (snMachine s))). \<not> hOpen (handle (mEvdev (snMachine s')) i)) \<and>
    keys_down (kbd_events (mVi (snMachine s'))) = {} \<and>
    \<not> ufOpen (mouseFile (mVi (snMachine s'))) \<and> \<not> ufOpen (kbdFile (mVi (snMachine s'))) \<and>
    (\<forall>t. (session_step rnd table trim lower deflate inflate)\<^sup>*\<^sup>* s' t \<longrightarrow> t = s')"
proof -
  have "session_inv rnd s0" using runSession_inv [OF assms(1,2)] by blast
  from session.run_inv [OF assms(3) this] have i: "session_inv rnd s" .
  obtain s' where s': "cleanup kern1 kern2 order s = Some s'" "snEnding s' = CleanedUp"
    using cleanup_total [OF i assms(4)] by blast
  have c: "mEvdev (snMachine s') = Evdev_Close (mEvdev (snMachine s))"
    using s'(1) by (auto simp add: cleanup_def Let_def split: option.splits)
  have "capture_inv (mEvdev (snMachine s))" using i by (simp add: session_inv_def)
  note e = Evdev_Close_inv(4) [OF this]
  have f: "t = s'" if "(session_step rnd table trim lower deflate inflate)\<^sup>*\<^sup>* s' t" for t
    using session.final_run [OF that] s'(2) by simp
  from session_step.finish [OF assms(4,6,5) s'(1)] cleanup_inv [OF i assms(4,5) s'(1)] s' e f c show ?thesis
    by (intro exI [of _ s']) (simp add: session_inv_def)
qed

text \<open>A press of the pause key read from a captured keyboard.\<close>

lemma pause_step:
  assumes "session_inv rnd s" and "snEnding s = Ongoing"
    and "dev \<in> set (kbdDevs (mEvdev (snMachine s)))" and "evType ev = EV_KEY" and "evCode ev = 119" and "evValue ev = 1"
    and "keyboard_loop_step trim lower ok order now dev ev (mEvdev (snMachine s)) = (e, cs)"
    and "set order = pressed_after ev (mEvdev (snMachine s))" and "distinct order"
    and "s' = run_callbacks rnd table clock cs (s\<lparr>snMachine := (snMachine s)\<lparr>mEvdev := e\<rparr>\<rparr>)"
  shows "session_step rnd table trim lower deflate inflate s s' \<and> snEnding s' = Exited \<and>
    ecKernel (mEvdev (snMachine s')) = {} \<and> snSender s' = snSender s"
proof -
  have st: "session_step rnd table trim lower deflate inflate s s'" for deflate inflate unfolding assms(10)
    using assms(2) capture_step.keyboard [OF assms(3,8,9,7)] by (rule session_step.input)
  have "OnEmergency \<in> ecOn (mEvdev (snMachine s))" using assms(1,2) by (simp add: session_inv_def)
  from pause_is_emergency [OF assms(4-6) this, of trim lower ok order now dev]
  have "\<exists>rest. snd (keyboard_loop_step trim lower ok order now dev ev (mEvdev (snMachine s))) = Emergency # rest" .
  then obtain rest where "cs = Emergency # rest" using assms(7) by auto
  then have "snEnding s' = Exited" "snSender s' = snSender s"
    unfolding assms(10) by (simp_all add: run_callbacks_def emergency_def stamped_def)
  with st session_step_inv [OF st assms(1)] show ?thesis by (simp add: session_inv_def)
qed



text \<open>What a call of \<open>connectClient\<close> can return, whatever the network answers.\<close>

definition may_return ::
  "(bytes \<Rightarrow> bytes \<Rightarrow> nat \<Rightarrow> nat \<Rightarrow> bytes) \<Rightarrow> (bytes \<Rightarrow> bytes) \<Rightarrow> Config \<Rightarrow> run_error + Client \<Rightarrow> bool" where
  "may_return pbkdf2 sha512 cfg r \<longleftrightarrow>
     (\<exists>dial listen incoming primer rnd. r = fst (connectClient pbkdf2 sha512 dial listen incoming primer rnd cfg))"

text \<open>C33: A mode that is not one of the three is accepted by the validation; the program then never
  runs a session and never ends, but tries to connect and waits, for ever.\<close>

theorem unknown_mode_retries:
  assumes "Mode cfg \<notin> {gostr ''client'', gostr ''server'', gostr ''tui''}"
    and "SecurityKey cfg \<noteq> []" and "MachineID cfg \<noteq> 0" and "0 < sint (MouseSensitivity cfg)"
    and "\<not> ShowVersion cfg" and "\<not> ListDevices cfg" and "\<not> Demo cfg"
  shows "main_start cfg = Connecting \<and>
    {p. (main_step (may_return pbkdf2 sha512 cfg) cfg)\<^sup>*\<^sup>* Connecting p} = {Connecting, Waiting} \<and>
    (\<forall>p\<in>{Connecting, Waiting}. \<exists>q. main_step (may_return pbkdf2 sha512 cfg) cfg p q)"
proof -
  let ?step = "main_step (may_return pbkdf2 sha512 cfg) cfg"
  have m: "Mode cfg \<noteq> gostr ''client''" "Mode cfg \<noteq> gostr ''server''" "Mode cfg \<noteq> gostr ''tui''" using assms(1) by auto
  have r: "may_return pbkdf2 sha512 cfg r \<longleftrightarrow> r = Inl (UnknownMode (Mode cfg))" for r
    using m by (simp add: may_return_def connectClient_def Let_def)
  have 1: "?step Connecting Waiting"
    using r main_step.failed [OF m(3), of "may_return pbkdf2 sha512 cfg" "UnknownMode (Mode cfg)"] by simp
  have 2: "?step Waiting Connecting" by (rule main_step.again)
  have inv: "?step p q \<Longrightarrow> p \<in> {Connecting, Waiting} \<Longrightarrow> q \<in> {Connecting, Waiting}" for p q
    by (auto simp add: r m elim: main_stepE)
  have "?step\<^sup>*\<^sup>* Connecting p \<Longrightarrow> p \<in> {Connecting, Waiting}" for p
    by (induction rule: rtranclp_induct) (simp, rule inv)
  then have "{p. ?step\<^sup>*\<^sup>* Connecting p} = {Connecting, Waiting}" using 1 by auto
  moreover have "main_start cfg = Connecting" using assms m by (simp add: main_start_def Validate_def)
  ultimately show ?thesis using 1 2 by auto
qed

theorem unknown_mode_retries_witness:
  "main_start (default_config\<lparr>SecurityKey := gostr ''key'', Mode := gostr ''Client''\<rparr>) = Connecting"
proof -
  let ?cfg = "default_config\<lparr>SecurityKey := gostr ''key'', Mode := gostr ''Client''\<rparr>"
  have "gostr ''Client'' \<noteq> gostr ''client''" "gostr ''Client'' \<noteq> gostr ''server''" "gostr ''Client'' \<noteq> gostr ''tui''"
    by (simp_all add: gostr_def)
  then have "Mode ?cfg \<notin> {gostr ''client'', gostr ''server'', gostr ''tui''}" by simp
  from unknown_mode_retries [OF this] show ?thesis by (simp add: default_config_def)
qed

end
