(* ===== verification/System.thy ===== *)
theory System
  imports Channel Lifecycle
begin

text \<open>
  Two machines: a session of \<open>src/main.go\<close> on each side of a connection, with every goroutine of
  both, and the bytes that one writes arriving at the other.  What each machine reads is well
  formed: the packets that its peer's goroutines sent, each with the data its type needs, and no
  read ever fails while something is on the way.
\<close>

section \<open>The packets of a session\<close>

definition session_packet :: "GenericData \<Rightarrow> bool" where
  "session_packet d \<longleftrightarrow> gType d \<in> {HandshakeAck, Heartbeat, ClipboardText, ClipboardDataEnd} \<or>
     gType d = Mouse \<and> gMouse d \<noteq> None \<or> gType d = Keyboard \<and> gKeyboard d \<noteq> None"

definition session_send :: "send \<Rightarrow> bool" where
  "session_send x \<longleftrightarrow> fits x \<and> fst x \<in> {Keyboard, Mouse, Heartbeat, ClipboardText, ClipboardDataEnd}"

lemma arrives_session: "session_send x \<Longrightarrow> arrives x q \<Longrightarrow> session_packet q"
  by (cases x) (auto simp add: session_send_def arrives_def session_packet_def split: payload.splits option.splits)

lemma forward_session: "list_all session_send (fst (forward_all rnd table cbs cu))"
  using forward_all_fits [of rnd table cbs cu] by (auto simp add: list_all_iff session_send_def simp del: fits.simps)

lemma clipboard_session: "list_all session_send (clipboard_sends deflate content)"
  by (auto simp add: clipboard_sends_def Let_def list_all_iff session_send_def)

lemma jiggler_session: "list_all session_send (fst (jigglerTick i e))"
  by (auto simp add: jigglerTick_def session_send_def split_beta)

lemma stamped_session: "list_all session_send sends \<Longrightarrow> list_all (session_send \<circ> snd) (stamped clock sends)"
  by (auto simp add: stamped_def list_all_iff dest: set_zip_rightD)

section \<open>What a step of a session does to its client\<close>

definition ready :: "Client \<Rightarrow> bool" where
  "ready c \<longleftrightarrow> IsConnected c \<and> wr (clConn c) = [] \<and> length (encIV (clCipher c)) = 16"

definition puts :: "Client \<Rightarrow> Client \<Rightarrow> bool" where
  "puts c c' \<longleftrightarrow> ready c' \<and> rv c' = rv c \<and>
     (\<exists>es. emits c c' es \<and> (\<forall>d\<in>set es. gType d < 256 \<and> session_packet (wire_view d)))"

lemma puts_refl: "ready c \<Longrightarrow> puts c c"
  using emits_refl [of c] by (auto simp add: puts_def ready_def intro!: exI [of _ "[]"])

lemma puts_trans:
  assumes "puts a b" and "puts b c"
  shows "puts a c"
proof -
  obtain es fs where "emits a b es" "emits b c fs"
    "\<forall>d\<in>set (es @ fs). gType d < 256 \<and> session_packet (wire_view d)"
    using assms by (auto simp add: puts_def)
  then show ?thesis using emits_trans [of a b es c fs] assms by (auto simp add: puts_def)
qed

lemma Sender_Send_puts:
  assumes "ready (ssClient s)" and "session_send (t, pay)"
  shows "puts (ssClient s) (ssClient (Sender_Send Client_Send IsConnected now t pay s))"
proof -
  let ?s = "Sender_Send Client_Send IsConnected now t pay s"
  have f: "fits (t, pay)" using assms(2) by (simp add: session_send_def del: fits.simps)
  from Send_Emits [of s t pay now] obtain d where d:
    "emits (ssClient s) (ssClient ?s) [fill_defaults (ssClient s) d]" "gType d = t"
    "arrives (t, pay) (wire_view (fill_defaults (ssClient s) d))"
    "IsConnected (ssClient ?s)" "wr (clConn (ssClient ?s)) = []"
    using assms(1) f by (auto simp add: ready_def simp del: fits.simps)
  have "rv (ssClient ?s) = rv (ssClient s)"
  proof -
    let ?p = "build_packet now t pay s"
    obtain e c where "Client_Send (?p\<lparr>gHeader := (gHeader ?p)\<lparr>hId := ssNextID s + 1\<rparr>\<rparr>) (ssClient s) = (e, c)"
      by fastforce
    with Send_rv [OF this] show ?thesis by (simp add: Sender_Send_def locked_send_def Let_def)
  qed
  moreover have "t < 256" using fits_type [OF f] by simp
  ultimately show ?thesis
    using d emits_same [OF d(1)] arrives_session [OF assms(2) d(3)]
    by (auto simp add: puts_def ready_def intro!: exI [of _ "[fill_defaults (ssClient s) d]"])
qed

lemma send_list_puts:
  "ready (ssClient s) \<Longrightarrow> list_all (session_send \<circ> snd) xs \<Longrightarrow>
   puts (ssClient s) (ssClient (send_list Client_Send IsConnected xs s))"
proof (induction xs arbitrary: s)
  case (Cons x xs)
  obtain now t pay where x: "x = (now, t, pay)" by (cases x)
  have p: "puts (ssClient s) (ssClient (Sender_Send Client_Send IsConnected now t pay s))"
    using Cons.prems x by (intro Sender_Send_puts) simp_all
  then have "ready (ssClient (Sender_Send Client_Send IsConnected now t pay s))" by (simp add: puts_def)
  from puts_trans [OF p Cons.IH [OF this]] Cons.prems x show ?case by simp
qed (simp add: puts_refl)

abbreviation client :: "Session \<Rightarrow> Client" where
  "client s \<equiv> ssClient (snSender s)"

lemma run_callbacks_client:
  "client (run_callbacks rnd table clock cs s) =
     ssClient (send_list Client_Send IsConnected
       (stamped clock (fst (forward_all rnd table (takeWhile (\<lambda>c. c \<noteq> Emergency) cs) (snCursor s)))) (snSender s))"
  by (simp add: run_callbacks_def emergency_def Let_def split_beta)

lemma session_step_client:
  assumes "session_step rnd table trim lower deflate inflate s s'" and "ready (client s)"
  shows "puts (client s) (client s') \<or> (\<exists>r. Client_Receive (client s) = (r, client s'))"
  using assms(1)
proof cases
  case (input cs e clock)
  show ?thesis unfolding input(1) run_callbacks_client
    using send_list_puts [OF assms(2) stamped_session [OF forward_session]] by simp
next
  case (packet pkt c run os r m)
  then show ?thesis by simp
next
  case (bad_packet err c)
  then show ?thesis by simp
next
  case (jiggle i clock)
  then show ?thesis using send_list_puts [OF assms(2) stamped_session [OF jiggler_session]] by simp
next
  case (heartbeat now)
  have "session_send (Heartbeat, PNil)" by (simp add: session_send_def)
  then show ?thesis unfolding heartbeat(1) using Sender_Send_puts [OF assms(2)] by simp
next
  case (clipboard run os r cl sends clock)
  have "list_all session_send sends" unfolding clipboard(4) using clipboard_session by (simp split: option.split)
  then show ?thesis unfolding clipboard(1) using send_list_puts [OF assms(2) stamped_session] by simp
next
  case (finish order kern1 kern2)
  then have "client s' = client s" by (auto simp add: cleanup_def Let_def split: option.splits)
  then show ?thesis using puts_refl [OF assms(2)] by simp
qed

section \<open>Two sessions\<close>

definition arrive :: "bytes \<Rightarrow> Session \<Rightarrow> Session" where
  "arrive w s = s\<lparr>snSender := (snSender s)\<lparr>ssClient := feed w (client s)\<rparr>\<rparr>"

text \<open>A step of one session; what it wrote arrives at the other.\<close>

inductive system_step ::
  "(rat \<Rightarrow> rat) \<Rightarrow> (u16 \<Rightarrow> i32 option) \<Rightarrow> (gostring \<Rightarrow> gostring) \<Rightarrow> (gostring \<Rightarrow> gostring) \<Rightarrow> (bytes \<Rightarrow> bytes)
   \<Rightarrow> (bytes \<Rightarrow> bytes option) \<Rightarrow> (side \<Rightarrow> Session) \<Rightarrow> (side \<Rightarrow> Session) \<Rightarrow> bool"
  for rnd table trim lower deflate inflate where
  step: "session_step rnd table trim lower deflate inflate (S p) s \<Longrightarrow>
     tx (clConn (client s)) = tx (clConn (client (S p))) @ w \<Longrightarrow>
     system_step rnd table trim lower deflate inflate S (S(p := s, other p := arrive w (S (other p))))"

definition system_ok :: "(side \<Rightarrow> Session) \<Rightarrow> bool" where
  "system_ok S \<longleftrightarrow> (\<exists>q. linked (\<lambda>p. client (S p)) q \<and> (\<forall>p. ready (client (S p)) \<and> (\<forall>d\<in>set (q p). session_packet d)))"

lemma feed_nil [simp]: "feed [] c = c"
  by (simp add: feed_def)

lemma feed_ready [simp]: "ready (feed w c) = ready c"
  by (simp add: feed_def ready_def IsConnected_def)

lemma system_step_ok:
  assumes "system_step rnd table trim lower deflate inflate S T" and "system_ok S"
  shows "system_ok T"
  using assms(1)
proof cases
  case (step p s w)
  obtain q where lk: "linked (\<lambda>p. client (S p)) q" and rd: "\<And>p. ready (client (S p))"
    and ty: "\<And>p. \<forall>d\<in>set (q p). session_packet d"
    using assms(2) by (auto simp add: system_ok_def)
  have T: "(\<lambda>p. client (T p)) = (\<lambda>p. client (S p))(p := client s, other p := feed w (client (S (other p))))"
    unfolding step(1) by (auto simp add: arrive_def)
  have ready: "ready (client (T p'))" if "ready (client s)" for p'
    unfolding fun_cong [OF T] using that rd by simp
  from session_step_client [OF step(2) rd] show ?thesis
  proof
    assume "puts (client (S p)) (client s)"
    then obtain es where es: "emits (client (S p)) (client s) es" "ready (client s)" "rv (client s) = rv (client (S p))"
      "\<forall>d\<in>set es. gType d < 256 \<and> session_packet (wire_view d)"
      by (auto simp add: puts_def)
    have "\<forall>d\<in>set es. gType d < 256" using es(4) by blast
    note l = linked_emits [OF lk es(1) this step(3) es(3)]
    show ?thesis unfolding system_ok_def T
      using l ready [OF es(2)] ty es(4)
      by (intro exI [of _ "q(other p := q (other p) @ map wire_view es)"]) (auto simp add: T [THEN fun_cong])
  next
    assume "\<exists>r. Client_Receive (client (S p)) = (r, client s)"
    then obtain r where r: "Client_Receive (client (S p)) = (r, client s)" by blast
    have rp: "readPacket (client (S p)) = (r, client s)" using r by (simp add: Client_Receive_def)
    note fr = readPacket_frame [OF rp]
    have w: "w = []" using step(3) fr(2) by simp
    have rs: "ready (client s)" using rd [of p] fr(3,5,7) by (simp add: ready_def IsConnected_def)
    have T': "(\<lambda>p. client (T p)) = (\<lambda>p. client (S p))(p := client s)" unfolding T w by (auto simp add: fun_upd_idem)
    show ?thesis
    proof (cases r)
      case (Inl e)
      have "client s = client (S p)" using linked_empty [OF lk] r Inl by blast
      then have "(\<lambda>p. client (T p)) = (\<lambda>p. client (S p))" unfolding T' by (auto simp add: fun_upd_idem)
      then have "client (T p) = client (S p)" for p by (rule fun_cong)
      then show ?thesis using assms(2) by (simp add: system_ok_def)
    next
      case (Inr d)
      obtain ds where ds: "q p = d # ds" "linked ((\<lambda>p. client (S p))(p := client s)) (q(p := ds))"
        using linked_receive [OF lk r [unfolded Inr]] by blast
      then show ?thesis unfolding system_ok_def T'
        using ready [OF rs] ty [of p] ty by (intro exI [of _ "q(p := ds)"]) auto
    qed
  qed
qed

interpretation system: invariant_system "system_step rnd table trim lower deflate inflate" system_ok
  for rnd table trim lower deflate inflate
  by unfold_locales (rule system_step_ok)

lemma runSession_client:
  "runSession rnd o1 o2 k1 k2 base glob nodes opens got cfg c = Inr s \<Longrightarrow> client s = c"
  by (auto simp add: runSession_def newSessionSender_def Let_def split: sum.splits)

text \<open>Two sessions on clients that are connected to each other.\<close>

lemma linked_well_typed:
  assumes "\<And>p. client (start p) = c p"
    and "linked c q" and "\<forall>p. IsConnected (c p) \<and> wr (clConn (c p)) = []"
    and "\<forall>p. \<forall>d\<in>set (q p). gType d = HandshakeAck"
    and "(system_step rnd table trim lower deflate inflate)\<^sup>*\<^sup>* start S"
  shows "case fst (Client_Receive (client (S p))) of
     Inr d \<Rightarrow> session_packet d
   | Inl e \<Rightarrow> rx (clConn (client (S p))) = [] \<and> e = RdIO (rxEnd (clConn (client (S p))))"
proof -
  note cl = assms(1)
  have "length (encIV (clCipher (c p))) = 16" for p
    using in_transit_iv [OF linkedD [OF assms(2), of "other p"]] by simp
  then have rd: "ready (client (start p))" for p using assms(3) by (simp add: cl ready_def)
  have "session_packet d" if "d \<in> set (q p)" for p d
    using assms(4) [THEN spec, THEN bspec, OF that] by (simp add: session_packet_def)
  moreover have "linked (\<lambda>p. client (start p)) q" using assms(2) by (simp add: cl)
  ultimately have "system_ok start" unfolding system_ok_def using rd by blast
  from system.run_inv [OF assms(5) this]
  obtain r where lk: "linked (\<lambda>p. client (S p)) r" and ty: "\<forall>d\<in>set (r p). session_packet d"
    by (auto simp add: system_ok_def)
  obtain x c' where x: "Client_Receive (client (S p)) = (x, c')" by fastforce
  show ?thesis
  proof (cases x)
    case (Inl e)
    then show ?thesis using linked_empty [OF lk x [unfolded Inl]] x by simp
  next
    case (Inr d)
    obtain ds where "r p = d # ds" using linked_receive [OF lk x [unfolded Inr]] by blast
    then show ?thesis using x Inr ty by simp
  qed
qed

text \<open>C1: Two machines with one security key connect, as \<open>Connect\<close> and \<open>Accept\<close> do, and start their
  sessions: through any steps of the two sessions, in any order, a read by either of them returns
  a packet of one of the types that a session sends, with the mouse or keyboard data its type
  needs, or finds that nothing is on the way; it never meets a packet that is cut off, cannot be
  decrypted or fails its checks.\<close>

theorem peers_well_typed:
  assumes "\<forall>p s i n. length (pbkdf2 p s i n) = n"
  shows "\<exists>wa wb. \<forall>dial listen incoming.
     dial addr (port + 1) = Some \<lparr>rx = wb, rxEnd = EOF, tx = [], wr = []\<rparr> \<longrightarrow> listen (port + 1) \<longrightarrow>
     (\<exists>a sv b. Connect pbkdf2 sha dial addr port key ida na (Some pa) (Some ra) = (Inr a, [])
       \<and> NewServer pbkdf2 sha listen port key idb nb = Some sv
       \<and> Accept sv ((\<lparr>rx = wa, rxEnd = EOF, tx = [], wr = []\<rparr>, Some pb, Some rb) # incoming) = (Inr b, [])
       \<and> (\<forall>start S p.
            (\<forall>p. runSession rnd (openA p) (openB p) (kernA p) (kernB p) base (glob p) (nodes p) (opens p) (got p) (cfg p)
                   (case p of Here \<Rightarrow> a | There \<Rightarrow> b) = Inr (start p)) \<longrightarrow>
            (system_step rnd table trim lower deflate inflate)\<^sup>*\<^sup>* start S \<longrightarrow>
            (case fst (Client_Receive (client (S p))) of
               Inr d \<Rightarrow> session_packet d
             | Inl e \<Rightarrow> rx (clConn (client (S p))) = [] \<and> e = RdIO (rxEnd (clConn (client (S p)))))))"
proof -
  have "length (cKey (NewMWBCrypto pbkdf2 sha key)) = 32"
    using assms by (simp add: NewMWBCrypto_def Let_def)
  from connect_accept_aux [OF this, of addr port ida na pa ra idb nb pb rb]
  obtain wa wb where con: "\<And>dial listen incoming.
     dial addr (port + 1) = Some \<lparr>rx = wb, rxEnd = EOF, tx = [], wr = []\<rparr> \<Longrightarrow> listen (port + 1) \<Longrightarrow>
     (\<exists>a s b. Connect pbkdf2 sha dial addr port key ida na (Some pa) (Some ra) = (Inr a, [])
       \<and> NewServer pbkdf2 sha listen port key idb nb = Some s
       \<and> Accept s ((\<lparr>rx = wa, rxEnd = EOF, tx = [], wr = []\<rparr>, Some pb, Some rb) # incoming) = (Inr b, [])
       \<and> tx (clConn a) = wa \<and> tx (clConn b) = wb \<and> IsConnected a \<and> IsConnected b
       \<and> wr (clConn a) = [] \<and> wr (clConn b) = []
       \<and> clRemoteMachineID a = idb \<and> clRemoteMachineID b = ida
       \<and> (\<exists>as bs. in_transit b a as \<and> in_transit a b bs \<and> length as = 9 \<and> length bs = 9 \<and>
            (\<forall>d\<in>set (as @ bs). gType d = HandshakeAck)))"
    by (elim exE) (rule that, blast)
  show ?thesis
  proof (rule exI [of _ wa], rule exI [of _ wb], intro allI impI)
    fix dial :: "gostring \<Rightarrow> int \<Rightarrow> Conn option" and listen incoming
    assume d: "dial addr (port + 1) = Some \<lparr>rx = wb, rxEnd = EOF, tx = [], wr = []\<rparr>" and l: "listen (port + 1)"
    obtain a sv b as bs where ab:
      "Connect pbkdf2 sha dial addr port key ida na (Some pa) (Some ra) = (Inr a, [])"
      "NewServer pbkdf2 sha listen port key idb nb = Some sv"
      "Accept sv ((\<lparr>rx = wa, rxEnd = EOF, tx = [], wr = []\<rparr>, Some pb, Some rb) # incoming) = (Inr b, [])"
      "IsConnected a" "IsConnected b" "wr (clConn a) = []" "wr (clConn b) = []"
      "in_transit b a as" "in_transit a b bs" "\<forall>d\<in>set (as @ bs). gType d = HandshakeAck"
      using con [of dial listen incoming, OF d l] by blast
    have ok: "\<forall>p. IsConnected (case_side a b p) \<and> wr (clConn (case_side a b p)) = []"
      "\<forall>p. \<forall>d\<in>set (case_side as bs p). gType d = HandshakeAck"
      using ab(4-7,10) by (auto split: side.split)
    have "case fst (Client_Receive (client (S p))) of
               Inr d \<Rightarrow> session_packet d
             | Inl e \<Rightarrow> rx (clConn (client (S p))) = [] \<and> e = RdIO (rxEnd (clConn (client (S p))))"
      if r: "\<forall>p. runSession rnd (openA p) (openB p) (kernA p) (kernB p) base (glob p) (nodes p) (opens p) (got p) (cfg p)
                   (case_side a b p) = Inr (start p)"
        and s: "(system_step rnd table trim lower deflate inflate)\<^sup>*\<^sup>* start S" for start S p
      by (rule linked_well_typed [OF _ linked_pair [OF ab(8,9)] ok s]) (rule runSession_client [OF r [THEN spec]])
    then show "\<exists>a sv b. Connect pbkdf2 sha dial addr port key ida na (Some pa) (Some ra) = (Inr a, [])
       \<and> NewServer pbkdf2 sha listen port key idb nb = Some sv
       \<and> Accept sv ((\<lparr>rx = wa, rxEnd = EOF, tx = [], wr = []\<rparr>, Some pb, Some rb) # incoming) = (Inr b, [])
       \<and> (\<forall>start S p.
            (\<forall>p. runSession rnd (openA p) (openB p) (kernA p) (kernB p) base (glob p) (nodes p) (opens p) (got p) (cfg p)
                   (case_side a b p) = Inr (start p)) \<longrightarrow>
            (system_step rnd table trim lower deflate inflate)\<^sup>*\<^sup>* start S \<longrightarrow>
            (case fst (Client_Receive (client (S p))) of
               Inr d \<Rightarrow> session_packet d
             | Inl e \<Rightarrow> rx (clConn (client (S p))) = [] \<and> e = RdIO (rxEnd (clConn (client (S p))))))"
      by (intro exI [of _ a] exI [of _ sv] exI [of _ b] conjI ab(1-3)) blast
  qed
qed

theorem peers_well_typed_witness:
  "\<exists>wa wb a sv b. Connect (\<lambda>_ _ _ n. replicate n 9) (\<lambda>bs. replicate 64 1)
       (\<lambda>_ p. if p = 15101 then Some \<lparr>rx = wb, rxEnd = EOF, tx = [], wr = []\<rparr> else None)
       (gostr ''10.0.0.2'') 15100 (gostr ''secret'') 11 (gostr ''a'') (Some [1]) (Some (replicate 16 2)) = (Inr a, []) \<and>
     Accept sv [(\<lparr>rx = wa, rxEnd = EOF, tx = [], wr = []\<rparr>, Some [5], Some (replicate 16 6))] = (Inr b, []) \<and>
     (\<exists>start. \<forall>S. (system_step (\<lambda>x. x) (LinuxToVK VKToLinux_table) id id toy_deflate toy_inflate)\<^sup>*\<^sup>* start S \<longrightarrow>
        (case fst (Client_Receive (client (S There))) of
           Inr d \<Rightarrow> session_packet d
         | Inl e \<Rightarrow> rx (clConn (client (S There))) = [] \<and> e = RdIO (rxEnd (clConn (client (S There))))))"
proof -
  have l: "\<forall>p s i n. length ((\<lambda>_ _ _ n. replicate n 9) p s i n) = n" by simp
  let ?cfg = "default_config\<lparr>MouseDevice := [1], KeyboardDevice := [2]\<rparr>"
  let ?run = "\<lambda>c. runSession (\<lambda>x. x) True True (\<lambda>_. True) (\<lambda>_. True) (\<lambda>p. p) (Some []) sample_nodes (\<lambda>_. True) (Inr []) ?cfg c"
  let ?step = "system_step (\<lambda>x. x) (LinuxToVK VKToLinux_table) id id toy_deflate toy_inflate"
  let ?dial = "\<lambda>wb _ p. if p = (15101::int) then Some \<lparr>rx = wb, rxEnd = EOF, tx = [], wr = []\<rparr> else None"
  obtain vi where v: "NewVirtualInput True True (\<lambda>_. True) (\<lambda>_. True) 1920 1080 = Inr vi"
    using NewVirtualInput_ok by blast
  then have run: "\<exists>s. ?run c = Inr s" for c
    by (simp add: runSession_def default_config_def Let_def setupInputCapture_def Open_def sample_nodes_def)
  obtain wa wb where con: "\<forall>dial listen incoming.
     dial (gostr ''10.0.0.2'') (15100 + 1) = Some \<lparr>rx = wb, rxEnd = EOF, tx = [], wr = []\<rparr> \<longrightarrow> listen (15100 + 1) \<longrightarrow>
     (\<exists>a sv b. Connect (\<lambda>_ _ _ n. replicate n 9) (\<lambda>bs. replicate 64 1) dial (gostr ''10.0.0.2'') 15100
         (gostr ''secret'') 11 (gostr ''a'') (Some [1]) (Some (replicate 16 2)) = (Inr a, [])
       \<and> NewServer (\<lambda>_ _ _ n. replicate n 9) (\<lambda>bs. replicate 64 1) listen 15100 (gostr ''secret'') 22 (gostr ''b'') = Some sv
       \<and> Accept sv ((\<lparr>rx = wa, rxEnd = EOF, tx = [], wr = []\<rparr>, Some [5], Some (replicate 16 6)) # incoming) = (Inr b, [])
       \<and> (\<forall>start S p.
            (\<forall>p. ?run (case_side a b p) = Inr (start p)) \<longrightarrow> ?step\<^sup>*\<^sup>* start S \<longrightarrow>
            (case fst (Client_Receive (client (S p))) of
               Inr d \<Rightarrow> session_packet d
             | Inl e \<Rightarrow> rx (clConn (client (S p))) = [] \<and> e = RdIO (rxEnd (clConn (client (S p)))))))"
    using peers_well_typed [OF l, where addr = "gostr ''10.0.0.2''" and port = 15100 and sha = "\<lambda>bs. replicate 64 1"
        and key = "gostr ''secret''" and ida = 11 and na = "gostr ''a''" and pa = "[1]" and ra = "replicate 16 2"
        and idb = 22 and nb = "gostr ''b''" and pb = "[5]" and rb = "replicate 16 6" and rnd = "\<lambda>x. x"
        and openA = "\<lambda>_. True" and openB = "\<lambda>_. True" and kernA = "\<lambda>_ _. True" and kernB = "\<lambda>_ _. True"
        and base = "\<lambda>p. p" and glob = "\<lambda>_. Some []" and nodes = "\<lambda>_. sample_nodes" and opens = "\<lambda>_ _. True"
        and got = "\<lambda>_. Inr []" and cfg = "\<lambda>_. ?cfg" and table = "LinuxToVK VKToLinux_table" and trim = id
        and lower = id and deflate = toy_deflate and inflate = toy_inflate]
    by (elim exE) (rule that, assumption)
  have p: "?dial wb (gostr ''10.0.0.2'') (15100 + 1) = Some \<lparr>rx = wb, rxEnd = EOF, tx = [], wr = []\<rparr>"
    "(\<lambda>p::int. p = 15101) (15100 + 1)" by simp_all
  from con [THEN spec [of _ "?dial wb"], THEN spec [of _ "\<lambda>p. p = 15101"], THEN spec [of _ "[]"],
      THEN mp [OF _ p(1)], THEN mp [OF _ p(2)]]
  obtain a sv b where ab:
    "Connect (\<lambda>_ _ _ n. replicate n 9) (\<lambda>bs. replicate 64 1) (?dial wb) (gostr ''10.0.0.2'') 15100
       (gostr ''secret'') 11 (gostr ''a'') (Some [1]) (Some (replicate 16 2)) = (Inr a, [])"
    "Accept sv [(\<lparr>rx = wa, rxEnd = EOF, tx = [], wr = []\<rparr>, Some [5], Some (replicate 16 6))] = (Inr b, [])"
    "\<And>start S p. \<forall>p. ?run (case_side a b p) = Inr (start p) \<Longrightarrow> ?step\<^sup>*\<^sup>* start S \<Longrightarrow>
            (case fst (Client_Receive (client (S p))) of
               Inr d \<Rightarrow> session_packet d
             | Inl e \<Rightarrow> rx (clConn (client (S p))) = [] \<and> e = RdIO (rxEnd (clConn (client (S p)))))"
    by blast
  obtain sa sb where "?run a = Inr sa" "?run b = Inr sb" using run by metis
  then have "\<forall>p. ?run (case_side a b p) = Inr (case_side sa sb p)" by (simp split: side.split)
  note read = ab(3) [OF this]
  show ?thesis
    by (rule exI [of _ wa], rule exI [of _ wb], rule exI [of _ a], rule exI [of _ sv], rule exI [of _ b],
        intro conjI exI [of _ "case_side sa sb"] allI impI ab(1,2)) (rule read)
qed

end
