(* ===== verification/OwnDevices.thy ===== *)
theory OwnDevices
  imports Lifecycle
begin

text \<open>
  The virtual devices of \<open>src/input/uinput.go\<close> and the discovery of \<open>src/input/evdev.go\<close>
  together: \<open>runSession\<close> creates the virtual keyboard first and then looks for keyboards, so that
  the program captures its own keyboard.  What the kernel does in between is the hypothesis
  \<open>exposes\<close>: an event device has the capabilities that were set for it.
\<close>

section \<open>The event device of a uinput file\<close>

definition exposes :: "uinput_file \<Rightarrow> Node \<Rightarrow> bool" where
  "exposes f node \<longleftrightarrow> nName node \<noteq> None \<and> (\<forall>t. nBits node t \<noteq> None) \<and>
     (\<forall>c. UI_SET_EVBIT c \<in> set (ufReqs f) \<longrightarrow> hasBit (the (ioctl_buf 8 (nBits node 0))) (unat c)) \<and>
     (\<forall>k. UI_SET_KEYBIT k \<in> set (ufReqs f) \<longrightarrow> hasBit (the (ioctl_buf 64 (nBits node (unat EV_KEY)))) (unat k))"

definition accepts_keys :: "(ioctl_req \<Rightarrow> bool) \<Rightarrow> bool" where
  "accepts_keys kern \<longleftrightarrow> list_all (\<lambda>k. kern (UI_SET_KEYBIT (of_nat k))) [1..<249]"

lemma setupKeyboard_reqs:
  assumes "setupKeyboard kern new_file = (None, f)" and "accepts_keys kern"
  shows "UI_SET_EVBIT EV_KEY \<in> set (ufReqs f)" and "k \<in> {1..<249} \<Longrightarrow> UI_SET_KEYBIT (of_nat k) \<in> set (ufReqs f)"
proof -
  obtain f1 where f1: "ioctls kern [UI_SET_EVBIT EV_SYN, UI_SET_EVBIT EV_KEY] new_file = (None, f1)"
    using assms(1) unfolding setupKeyboard_def by (auto split: prod.splits option.splits)
  let ?f2 = "f1\<lparr>ufReqs := ufReqs f1 @ filter kern (map (\<lambda>k. UI_SET_KEYBIT (of_nat k)) [1..<249])\<rparr>"
  have "ioctls kern [UI_DEV_SETUP 0x03 0x1234 0x5679 1 (gostr ''MWB Virtual Keyboard''), UI_DEV_CREATE] ?f2 = (None, f)"
    using assms(1) f1 unfolding setupKeyboard_def Let_def by simp
  from ioctls_keep [OF this] have keep: "set (ufReqs ?f2) \<subseteq> set (ufReqs f)" by simp
  have "UI_SET_EVBIT EV_KEY \<in> set (ufReqs f1)" using ioctls_ok [OF f1] by simp
  then show "UI_SET_EVBIT EV_KEY \<in> set (ufReqs f)" using keep by auto
  show "UI_SET_KEYBIT (of_nat k) \<in> set (ufReqs f)" if k: "k \<in> {1..<249}"
  proof -
    have "kern (UI_SET_KEYBIT (of_nat k))" using assms(2) k by (simp add: accepts_keys_def list_all_iff)
    then have "UI_SET_KEYBIT (of_nat k) \<in> set (filter kern (map (\<lambda>k. UI_SET_KEYBIT (of_nat k)) [1..<249]))" using k by auto
    then show ?thesis using keep by auto
  qed
qed

text \<open>Such a device is classified as a keyboard.\<close>

lemma exposed_keyboard:
  assumes "exposes f node" and "UI_SET_EVBIT EV_KEY \<in> set (ufReqs f)"
    and "\<And>k. k \<in> {1..<249} \<Longrightarrow> UI_SET_KEYBIT (of_nat k) \<in> set (ufReqs f)" and "nodes p = Some node"
  shows "\<exists>info. probe nodes p = Some info \<and> dPath info = p \<and> dIsKeyboard info"
proof -
  have "\<exists>bs. ioctl_buf n (nBits node t) = Some bs" for n t
  proof -
    have "nBits node t \<noteq> None" using assms(1) unfolding exposes_def by blast
    then show ?thesis by (auto simp add: ioctl_buf_def)
  qed
  then obtain ev rel ab key where b: "ioctl_buf 8 (nBits node 0) = Some ev" "ioctl_buf 8 (nBits node (unat EV_REL)) = Some rel"
    "ioctl_buf 8 (nBits node (unat EV_ABS)) = Some ab" "ioctl_buf 64 (nBits node (unat EV_KEY)) = Some key" by meson
  have ev: "hasBit ev (unat EV_KEY)" using assms(1,2) b(1) by (auto simp add: exposes_def)
  have key: "hasBit key k" if "k \<in> {1..<249}" for k
  proof -
    have "hasBit key (unat (of_nat k :: u16))" using assms(1) assms(3) [OF that] b(4) by (auto simp add: exposes_def)
    moreover have "unat (of_nat k :: u16) = k" using that by (simp add: unat_of_nat)
    ultimately show ?thesis by simp
  qed
  obtain caps where c: "detectCapabilities node = Some caps" "EvBits caps = ev" "KeyBits caps = key"
  proof -
    have "\<exists>caps. detectCapabilities node = Some caps \<and> EvBits caps = ev \<and> KeyBits caps = key"
      using b ev by (cases "hasBit ev (unat EV_REL)"; cases "hasBit ev (unat EV_ABS)") (simp_all add: detectCapabilities_def)
    with that show thesis by blast
  qed
  have "filter (hasBit key) ([30..<46] @ [2..<12] @ [59..<71]) = [30..<46] @ [2..<12] @ [59..<71]"
    by (rule filter_True) (auto intro!: key)
  then have "fst (snd (classifyDevice caps))"
    using c ev key [of 57] key [of 28] by (simp add: classifyDevice_def Let_def del: filter_append)
  moreover obtain nb where "ioctl_buf 256 (nName node) = Some nb"
    using assms(1) by (auto simp add: exposes_def ioctl_buf_def)
  ultimately show ?thesis using assms(4) c(1) by (auto simp add: probe_def split: prod.splits)
qed

section \<open>What is discovered is opened\<close>

lemma fold_add_kbd_old:
  "dev < length (ecDevs e) \<Longrightarrow> handle (fold add_kbd is e) dev = handle e dev"
proof (induction "is" arbitrary: e)
  case (Cons i "is")
  have "dev < length (ecDevs (add_kbd i e))" "handle (add_kbd i e) dev = handle e dev"
    using Cons.prems by (simp_all add: add_kbd_def nth_append)
  with Cons.IH [OF this(1)] show ?case by simp
qed simp

lemma fold_add_kbd_subset: "set (kbdDevs e) \<subseteq> set (kbdDevs (fold add_kbd is e))"
proof (induction "is" arbitrary: e)
  case (Cons i "is")
  have "set (kbdDevs e) \<subseteq> set (kbdDevs (add_kbd i e))" by (auto simp add: add_kbd_def)
  with Cons.IH [of "add_kbd i e"] show ?case by simp
qed simp

lemma fold_add_kbd:
  "info \<in> set is \<Longrightarrow> \<exists>dev\<in>set (kbdDevs (fold add_kbd is e)). hInfo (handle (fold add_kbd is e) dev) = info"
proof (induction "is" arbitrary: e)
  case (Cons i "is")
  let ?e = "add_kbd i e"
  have n: "length (ecDevs e) < length (ecDevs ?e)" "hInfo (handle ?e (length (ecDevs e))) = i" "length (ecDevs e) \<in> set (kbdDevs ?e)"
    by (simp_all add: add_kbd_def new_handle_def)
  show ?case
  proof (cases "info = i")
    case True
    then show ?thesis using fold_add_kbd_old [OF n(1), of "is"] fold_add_kbd_subset [of ?e "is"] n(2,3)
      by (intro bexI [of _ "length (ecDevs e)"]) auto
  next
    case False
    then show ?thesis using Cons.prems Cons.IH [of ?e] by simp
  qed
qed simp

lemma discovered_keyboard:
  assumes "DiscoverAndOpen (Some paths) nodes opens e = (None, e')" and "p \<in> set paths"
    and "probe nodes p = Some info" and "dIsKeyboard info" and "opens (dPath info)"
  shows "\<exists>dev\<in>set (kbdDevs e'). hInfo (handle e' dev) = info"
proof -
  let ?infos = "List.map_filter (probe nodes) paths"
  have "info \<in> set (filter (\<lambda>i. opens (dPath i)) (filter dIsKeyboard ?infos))"
    using assms(2-5) by (force simp add: List.map_filter_def)
  moreover obtain e1 where "e' = fold add_kbd (filter (\<lambda>i. opens (dPath i)) (filter dIsKeyboard ?infos)) e1"
    using assms(1) by (auto simp add: DiscoverAndOpen_def discoverDevices_def Let_def split: if_splits)
  ultimately show ?thesis using fold_add_kbd by blast
qed

lemma DiscoverAndOpen_pressed: "DiscoverAndOpen glob nodes opens e = (r, e') \<Longrightarrow> ecPressedKeys e' = ecPressedKeys e"
proof -
  have "ecPressedKeys (fold add_mouse is e) = ecPressedKeys e" for "is" e
    by (induction "is" arbitrary: e) (simp_all add: add_mouse_def)
  moreover have "ecPressedKeys (fold add_kbd is e) = ecPressedKeys e" for "is" e
    by (induction "is" arbitrary: e) (simp_all add: add_kbd_def)
  moreover assume "DiscoverAndOpen glob nodes opens e = (r, e')"
  ultimately show ?thesis by (auto simp add: DiscoverAndOpen_def Let_def split: option.splits if_splits)
qed

section \<open>Properties\<close>

text \<open>C21: The program captures the keyboard that it creates itself: in a session with discovered
  devices, the event device of the virtual keyboard is one of the captured keyboards.  A pause
  key that the other machine sends is written to it as a press of \<open>KEY_PAUSE\<close>, and reading that
  press ends the process.\<close>

theorem remote_pause_exits:
  assumes "runSession rnd True True k1 k2 base (Some paths) nodes opens got cfg client = Inr s"
    and "MouseDevice cfg = []" and "KeyboardDevice cfg = []" and "\<forall>x. rnd (rnd x) = rnd x"
    and "accepts_keys k2" and "p \<in> set paths" and "nodes p = Some node" and "opens p"
    and "exposes (kbdFile (mVi (snMachine s))) node"
  shows "kbd_events (InjectKeyboard 0x13 0 (mVi (snMachine s))) = [event EV_KEY 119 1, event EV_SYN SYN_REPORT 0] \<and>
    (\<exists>dev\<in>set (kbdDevs (mEvdev (snMachine s))). dPath (hInfo (handle (mEvdev (snMachine s)) dev)) = p \<and>
       (\<exists>e cs. keyboard_loop_step trim lower ok [119] now dev (event EV_KEY 119 1) (mEvdev (snMachine s)) = (e, cs) \<and>
          snEnding (run_callbacks rnd table clock cs (s\<lparr>snMachine := (snMachine s)\<lparr>mEvdev := e\<rparr>\<rparr>)) = Exited))"
proof -
  obtain vi where v: "NewVirtualInput True True k1 k2 (ScreenWidth cfg) (ScreenHeight cfg) = Inr vi"
    using assms(1) by (auto simp add: runSession_def Let_def split: sum.splits)
  obtain e0 where e0: "DiscoverAndOpen (Some paths) nodes opens (NewEvdevCapture (ScreenWidth cfg) (ScreenHeight cfg)) = (None, e0)"
    and s: "mVi (snMachine s) = vi" "mEvdev (snMachine s) = e0\<lparr>ecOn := ecOn (mEvdev (snMachine s))\<rparr>"
    using assms(1-3) v
    by (auto simp add: runSession_def setupInputCapture_def Let_def split: sum.splits prod.splits option.splits)
  obtain f where f: "setupKeyboard k2 new_file = (None, f)" "kbdFile vi = f" "pressedKeys vi = {}"
    using v by (auto simp add: NewVirtualInput_def split: prod.splits option.splits)
  obtain info where i: "probe nodes p = Some info" "dPath info = p" "dIsKeyboard info"
    using exposed_keyboard [of f node nodes p] setupKeyboard_reqs [OF f(1) assms(5)] assms(7,9) f(2) s(1) by blast
  obtain dev where d: "dev \<in> set (kbdDevs e0)" "hInfo (handle e0 dev) = info"
    using discovered_keyboard [OF e0 assms(6) i(1,3)] i(2) assms(8) by blast
  have "dev \<in> set (kbdDevs (mEvdev (snMachine s)))" "hInfo (handle (mEvdev (snMachine s)) dev) = info"
    using d by (subst s(2), simp)+
  moreover have "kbd_events (InjectKeyboard 0x13 0 vi) = [event EV_KEY 119 1, event EV_SYN SYN_REPORT 0]"
  proof -
    have "VKToLinux 0x13 = Some 119" by code_simp
    moreover have "events (kbdFile vi) = []" "aligned (kbdFile vi)"
      using setupKeyboard_ok [OF f(1)] f(2) by (simp_all add: events_def aligned_def)
    ultimately show ?thesis using f(3) by (simp add: InjectKeyboard_eq)
  qed
  moreover have "\<exists>e cs. keyboard_loop_step trim lower ok [119] now dev (event EV_KEY 119 1) (mEvdev (snMachine s)) = (e, cs) \<and>
      snEnding (run_callbacks rnd table clock cs (s\<lparr>snMachine := (snMachine s)\<lparr>mEvdev := e\<rparr>\<rparr>)) = Exited"
  proof -
    let ?e = "mEvdev (snMachine s)"
    obtain e cs where k: "keyboard_loop_step trim lower ok [119] now dev (event EV_KEY 119 1) ?e = (e, cs)" by fastforce
    have "ecPressedKeys ?e = {}" using DiscoverAndOpen_pressed [OF e0] by (subst s(2)) (simp add: NewEvdevCapture_def)
    then have "set [119] = pressed_after (event EV_KEY 119 1) ?e" by (simp add: pressed_after_def)
    moreover have "dev \<in> set (kbdDevs ?e)" using d(1) by (subst s(2)) simp
    ultimately show ?thesis
      using pause_step [OF _ _ _ _ _ _ k _ _ refl] runSession_inv [OF assms(1,4)] k by auto
  qed
  ultimately show ?thesis using i(2) s(1) by auto
qed

text \<open>A mouse, and the event device of the virtual keyboard.\<close>

definition own_node :: Node where
  "own_node = \<lparr>nBits = (\<lambda>t. if t = 0 then Some [0x03] else Some (replicate 32 0xFF)),
     nName = Some (gostr ''MWB Virtual Keyboard''), nPhys = None\<rparr>"

definition own_nodes :: "gostring \<Rightarrow> Node option" where
  "own_nodes p = (if p = [1] then Some mouse_node else if p = [3] then Some own_node else None)"

lemma own_keys: "n < 256 \<Longrightarrow> hasBit (the (ioctl_buf 64 (nBits own_node (unat EV_KEY)))) n"
proof -
  assume n: "n < 256"
  have "(0xFF :: u8) AND push_bit m 1 \<noteq> 0" if "m < 8" for m
  proof -
    have "m \<in> {0, 1, 2, 3, 4, 5, 6, 7}" using that by auto
    then show ?thesis by auto
  qed
  then show ?thesis using n
    by (simp add: own_node_def ioctl_buf_def hasBit_def copy_into_def nth_append less_mult_imp_div_less)
qed

lemma own_exposed:
  assumes "setupKeyboard kern new_file = (None, f)"
  shows "exposes f own_node"
proof -
  have r: "set (ufReqs f) \<subseteq> {UI_SET_EVBIT EV_SYN, UI_SET_EVBIT EV_KEY} \<union> (\<lambda>k. UI_SET_KEYBIT (of_nat k)) ` {1..<249} \<union>
      {UI_DEV_SETUP 0x03 0x1234 0x5679 1 (gostr ''MWB Virtual Keyboard''), UI_DEV_CREATE}"
    using assms unfolding setupKeyboard_def
    by (auto dest!: ioctls_ok simp add: new_file_def Let_def simp del: ioctls.simps split: prod.splits option.splits)
  have ev: "c = 0 \<or> c = 1" if "UI_SET_EVBIT c \<in> set (ufReqs f)" for c using r that by auto
  have kb: "\<exists>n\<in>{1..<249}. k = of_nat n" if "UI_SET_KEYBIT k \<in> set (ufReqs f)" for k using r that by auto
  have 0: "hasBit (the (ioctl_buf 8 (nBits own_node 0))) (unat (0 :: u16))"
    "hasBit (the (ioctl_buf 8 (nBits own_node 0))) (unat (1 :: u16))" by (code_simp, code_simp)
  have 1: "hasBit (the (ioctl_buf 64 (nBits own_node (unat EV_KEY)))) (unat (of_nat n :: u16))" if "n \<in> {1..<249}" for n
    using that by (intro own_keys) (simp add: unat_of_nat)
  show ?thesis unfolding exposes_def
  proof (intro conjI allI impI)
    show "nName own_node \<noteq> None" "nBits own_node t \<noteq> None" for t by (simp_all add: own_node_def)
  next
    fix c assume "UI_SET_EVBIT c \<in> set (ufReqs f)"
    from ev [OF this] 0 show "hasBit (the (ioctl_buf 8 (nBits own_node 0))) (unat c)" by blast
  next
    fix k assume "UI_SET_KEYBIT k \<in> set (ufReqs f)"
    from kb [OF this] 1 show "hasBit (the (ioctl_buf 64 (nBits own_node (unat EV_KEY)))) (unat k)" by blast
  qed
qed

theorem remote_pause_exits_witness:
  "\<exists>s. runSession (\<lambda>x. x) True True (\<lambda>_. True) (\<lambda>_. True) (\<lambda>p. p) (Some [[1], [3]]) own_nodes (\<lambda>_. True) (Inr [])
      default_config sample_client = Inr s \<and>
     (\<exists>dev\<in>set (kbdDevs (mEvdev (snMachine s))). dPath (hInfo (handle (mEvdev (snMachine s)) dev)) = [3])"
proof -
  obtain vi where v: "NewVirtualInput True True (\<lambda>_. True) (\<lambda>_. True) 1920 1080 = Inr vi"
    using NewVirtualInput_ok by blast
  obtain r e where e: "DiscoverAndOpen (Some [[1], [3]]) own_nodes (\<lambda>_. True) (NewEvdevCapture 1920 1080) = (r, e)" by fastforce
  have "fst (DiscoverAndOpen (Some [[1], [3]]) own_nodes (\<lambda>_. True) (NewEvdevCapture 1920 1080)) = None" by code_simp
  with e have "r = None" by simp
  with v e obtain s where s: "runSession (\<lambda>x. x) True True (\<lambda>_. True) (\<lambda>_. True) (\<lambda>p. p) (Some [[1], [3]]) own_nodes (\<lambda>_. True) (Inr [])
      default_config sample_client = Inr s" and m: "mVi (snMachine s) = vi"
    by (simp add: runSession_def default_config_def Let_def setupInputCapture_def)
  obtain f where f: "setupKeyboard (\<lambda>_. True) new_file = (None, f)" "kbdFile vi = f"
    using v by (auto simp add: NewVirtualInput_def split: prod.splits option.splits)
  have "exposes (kbdFile (mVi (snMachine s))) own_node" using own_exposed [OF f(1)] f(2) m by simp
  moreover have "MouseDevice default_config = []" "KeyboardDevice default_config = []" by (simp_all add: default_config_def)
  moreover have "accepts_keys (\<lambda>_. True)" by (simp add: accepts_keys_def list_all_iff)
  moreover have "own_nodes [3] = Some own_node" by (simp add: own_nodes_def)
  ultimately show ?thesis using s
    remote_pause_exits [OF s, where p = "[3]" and node = own_node and trim = id and lower = id and ok = "\<lambda>_. True" and now = 0
        and table = "\<lambda>_. None" and clock = "\<lambda>_. 0"] by (simp del: upt.simps) blast
qed

end
