(* ===== verification/Texts.thy ===== *)
theory Texts
  imports Evdev
begin

text \<open>
  The texts that the program shows: numbers as \<open>fmt\<close> writes them, the names of keys in the log of
  \<open>src/main.go\<close>, the log lines about mouse buttons and the device list of \<open>input/evdev.go\<close>.  The
  main lemmas: different keys have different names, the route that a log line names is what
  happens to the event, and the device list agrees with the discovery.
\<close>

section \<open>Numbers\<close>

text \<open>\<open>%d\<close>, and \<open>%X\<close> with at least two digits.\<close>

fun digits :: "nat \<Rightarrow> nat \<Rightarrow> nat list" where
  "digits b n = (if b < 2 \<or> n < b then [n] else digits b (n div b) @ [n mod b])"

declare digits.simps [simp del]

definition digit_char :: "nat \<Rightarrow> u8" where
  "digit_char d = (if d < 10 then 0x30 + word_of_nat d else 0x41 + word_of_nat (d - 10))"

definition fmt_d :: "int \<Rightarrow> gostring" where
  "fmt_d i = (if i < 0 then [0x2D] else []) @ map digit_char (digits 10 (nat \<bar>i\<bar>))"

definition fmt_02X :: "u16 \<Rightarrow> gostring" where
  "fmt_02X w = (let ds = map digit_char (digits 16 (unat w)) in if length ds < 2 then 0x30 # ds else ds)"

text \<open>\<open>strings.Join\<close>.\<close>

fun join :: "gostring list \<Rightarrow> gostring \<Rightarrow> gostring" where
  "join [] sep = []"
| "join [s] sep = s"
| "join (s # t # ss) sep = s @ sep @ join (t # ss) sep"

section \<open>Names of keys\<close>

definition vk_names :: "(u16 \<times> string) list" where
  "vk_names =
   [(0x01, ''LMB''), (0x02, ''RMB''), (0x04, ''MMB''), (0x08, ''BACK''), (0x09, ''TAB''),
    (0x0D, ''ENTER''), (0x10, ''SHIFT''), (0x11, ''CTRL''), (0x12, ''ALT''), (0x13, ''PAUSE''),
    (0x14, ''CAPS''), (0x1B, ''ESC''), (0x20, ''SPACE''), (0x21, ''PGUP''), (0x22, ''PGDN''),
    (0x23, ''END''), (0x24, ''HOME''), (0x25, ''LEFT''), (0x26, ''UP''), (0x27, ''RIGHT''),
    (0x28, ''DOWN''), (0x2D, ''INS''), (0x2E, ''DEL''), (0x30, ''0''), (0x31, ''1''), (0x32, ''2''),
    (0x33, ''3''), (0x34, ''4''), (0x35, ''5''), (0x36, ''6''), (0x37, ''7''), (0x38, ''8''),
    (0x39, ''9''), (0x41, ''A''), (0x42, ''B''), (0x43, ''C''), (0x44, ''D''), (0x45, ''E''),
    (0x46, ''F''), (0x47, ''G''), (0x48, ''H''), (0x49, ''I''), (0x4A, ''J''), (0x4B, ''K''),
    (0x4C, ''L''), (0x4D, ''M''), (0x4E, ''N''), (0x4F, ''O''), (0x50, ''P''), (0x51, ''Q''),
    (0x52, ''R''), (0x53, ''S''), (0x54, ''T''), (0x55, ''U''), (0x56, ''V''), (0x57, ''W''),
    (0x58, ''X''), (0x59, ''Y''), (0x5A, ''Z''), (0x5B, ''LWIN''), (0x5C, ''RWIN''), (0x5D, ''APPS''),
    (0x60, ''NUM0''), (0x61, ''NUM1''), (0x62, ''NUM2''), (0x63, ''NUM3''), (0x64, ''NUM4''),
    (0x65, ''NUM5''), (0x66, ''NUM6''), (0x67, ''NUM7''), (0x68, ''NUM8''), (0x69, ''NUM9''),
    (0x6A, ''MULT''), (0x6B, ''ADD''), (0x6C, ''SEP''), (0x6D, ''SUB''), (0x6E, ''DEC''), (0x6F, ''DIV''),
    (0x70, ''F1''), (0x71, ''F2''), (0x72, ''F3''), (0x73, ''F4''), (0x74, ''F5''), (0x75, ''F6''),
    (0x76, ''F7''), (0x77, ''F8''), (0x78, ''F9''), (0x79, ''F10''), (0x7A, ''F11''), (0x7B, ''F12''),
    (0x90, ''NUMLOCK''), (0x91, ''SCROLL''), (0xA0, ''LSHIFT''), (0xA1, ''RSHIFT''), (0xA2, ''LCTRL''),
    (0xA3, ''RCTRL''), (0xA4, ''LALT''), (0xA5, ''RALT''), (0xBA, ''SEMICOLON''), (0xBB, ''PLUS''),
    (0xBC, ''COMMA''), (0xBD, ''MINUS''), (0xBE, ''PERIOD''), (0xBF, ''SLASH''), (0xC0, ''GRAVE''),
    (0xDB, ''LBRACKET''), (0xDC, ''BACKSLASH''), (0xDD, ''RBRACKET''), (0xDE, ''QUOTE'')]"

definition vkToName :: "u16 \<Rightarrow> gostring" where
  "vkToName vk = (case map_of vk_names vk of Some name \<Rightarrow> gostr name | None \<Rightarrow> gostr ''VK_'' @ fmt_02X vk)"

text \<open>\<open>keys\<close> are the keys of the map in the order of the iteration.\<close>

definition formatHeldKeys :: "u16 list \<Rightarrow> gostring" where
  "formatHeldKeys keys =
    (if keys = [] then gostr ''NONE''
     else gostr ''['' @ join (map vkToName keys) (gostr '','') @ gostr '']'')"

section \<open>Log lines about mouse buttons\<close>

definition mouseButtonName :: "u16 \<Rightarrow> gostring" where
  "mouseButtonName code =
    (if code = BTN_LEFT then gostr ''LEFT'' else if code = BTN_RIGHT then gostr ''RIGHT''
     else if code = BTN_MIDDLE then gostr ''MIDDLE'' else if code = BTN_SIDE then gostr ''SIDE''
     else if code = BTN_EXTRA then gostr ''EXTRA'' else gostr ''BTN_'' @ fmt_d (uint code))"

definition mouseButtonAction :: "i32 \<Rightarrow> gostring" where
  "mouseButtonAction v =
    (if v = 1 then gostr ''DOWN'' else if v = 0 then gostr ''UP'' else if v = 2 then gostr ''REPEAT''
     else gostr ''VALUE_'' @ fmt_d (sint v))"

definition mouse_route :: "bool \<Rightarrow> nat option \<Rightarrow> nat \<Rightarrow> gostring" where
  "mouse_route isRemote activeMouse dev =
    (if isRemote \<and> activeMouse = None then gostr ''REMOTE_WAITING_ACTIVE_MOUSE''
     else if isRemote \<and> activeMouse = Some dev then gostr ''REMOTE_FORWARDED''
     else if isRemote \<and> activeMouse \<noteq> Some dev then gostr ''REMOTE_IGNORED_INACTIVE_MOUSE''
     else gostr ''LOCAL_ONLY'')"

definition mouse_line :: "DeviceInfo \<Rightarrow> InputEvent \<Rightarrow> gostring \<Rightarrow> gostring" where
  "mouse_line info ev route =
     gostr ''[LOCAL-MOUSE] '' @ mouseButtonName (evCode ev) @ gostr '' '' @ mouseButtonAction (evValue ev) @
     gostr '' | Device='' @ dName info @ gostr '' ('' @ dPath info @ gostr '') | Route='' @ route"

definition logMouseButtonCapture :: "DeviceHandle list \<Rightarrow> nat \<Rightarrow> InputEvent \<Rightarrow> bool \<Rightarrow> nat option \<Rightarrow> gostring" where
  "logMouseButtonCapture devs dev ev isRemote activeMouse =
     mouse_line (hInfo (devs ! dev)) ev (mouse_route isRemote activeMouse dev)"

definition logMouseButtonCaptureKeyboardPath ::
  "DeviceHandle list \<Rightarrow> nat \<Rightarrow> InputEvent \<Rightarrow> gostring \<Rightarrow> nat option \<Rightarrow> gostring" where
  "logMouseButtonCaptureKeyboardPath devs dev ev route sourceMouse =
    (case sourceMouse of
       Some m \<Rightarrow>
         mouse_line (hInfo (devs ! dev)) ev route @ gostr '' | MappedMouse='' @ dName (hInfo (devs ! m)) @
         gostr '' ('' @ dPath (hInfo (devs ! m)) @ gostr '')''
     | None \<Rightarrow> mouse_line (hInfo (devs ! dev)) ev route)"

text \<open>The line that \<open>runSingleMouseLoop\<close> logs for an event of the mouse \<open>dev\<close>, after its section.\<close>

definition mouse_loop_log :: "(nat \<Rightarrow> bool) \<Rightarrow> int \<Rightarrow> nat \<Rightarrow> InputEvent \<Rightarrow> EvdevCapture \<Rightarrow> gostring option" where
  "mouse_loop_log ok now dev ev e =
    (if evType ev = EV_KEY \<and> isMouseButtonCode (evCode ev) then
       Some (logMouseButtonCapture (ecDevs e) dev ev (IsRemote e)
               (activeMouseDev (if IsRemote e then activate_mouse ok now dev ev e else e)))
     else None)"

text \<open>The route of a mouse button on a keyboard device.\<close>

definition keyboard_route ::
  "(gostring \<Rightarrow> gostring) \<Rightarrow> (gostring \<Rightarrow> gostring) \<Rightarrow> (nat \<Rightarrow> bool) \<Rightarrow> int \<Rightarrow> nat \<Rightarrow> InputEvent \<Rightarrow> EvdevCapture
   \<Rightarrow> gostring" where
  "keyboard_route trim lower ok now dev ev e =
    (if \<not> IsRemote e then gostr ''LOCAL_KEYBOARD_PATH''
     else case mouseSourceForKeyboardButton trim lower dev e of
            None \<Rightarrow> gostr ''REMOTE_KEYBOARD_PATH_FILTERED''
          | Some sourceMouse \<Rightarrow>
              if activeMouseDev (activate_mouse ok now sourceMouse ev e) = Some sourceMouse
              then gostr ''REMOTE_FORWARDED_KEYBOARD_COMBO'' else gostr ''REMOTE_IGNORED_INACTIVE_MOUSE'')"

section \<open>The list of devices\<close>

definition device_types :: "bool \<times> bool \<times> bool \<Rightarrow> gostring list" where
  "device_types c =
    (let (isMouse, isKeyboard, isTouchpad) = c in
     (if isMouse then [gostr ''mouse''] else []) @ (if isKeyboard then [gostr ''keyboard''] else []) @
     (if isTouchpad then [gostr ''touchpad''] else []))"

text \<open>The line for one path, if there is one; the error of \<open>Glob\<close> is ignored.\<close>

definition list_one :: "(gostring \<Rightarrow> Node option) \<Rightarrow> gostring \<Rightarrow> gostring option" where
  "list_one nodes path =
    (case nodes path of
       None \<Rightarrow> None
     | Some node \<Rightarrow>
         (let nameBuf = ioctl_buf 256 (nName node);
              caps = (if nameBuf \<noteq> None then detectCapabilities node else None)
          in case (nameBuf, caps) of
               (Some nameBuf, Some caps) \<Rightarrow>
                 (let name = trim_right 0 nameBuf; types = device_types (classifyDevice caps)
                  in if 0 < length types
                     then Some (gostr ''  '' @ path @ gostr '': '' @ name @ gostr '' ['' @
                                join types (gostr '', '') @ gostr '']'' @ [0x0A])
                     else None)
             | _ \<Rightarrow> None))"

definition Evdev_ListDevices :: "gostring list option \<Rightarrow> (gostring \<Rightarrow> Node option) \<Rightarrow> gostring list" where
  "Evdev_ListDevices glob nodes = List.map_filter (list_one nodes) (case glob of None \<Rightarrow> [] | Some matches \<Rightarrow> matches)"

section \<open>Different keys have different names\<close>

text \<open>Reading the digits back.\<close>

definition digit_value :: "u8 \<Rightarrow> nat" where
  "digit_value c = (if c < 0x3A then unat (c - 0x30) else unat (c - 0x41) + 10)"

definition read_base :: "nat \<Rightarrow> gostring \<Rightarrow> nat" where
  "read_base b s = foldl (\<lambda>a c. b * a + digit_value c) 0 s"

lemma digits_less: "2 \<le> b \<Longrightarrow> d \<in> set (digits b n) \<Longrightarrow> d < b"
proof (induction b n rule: digits.induct)
  case (1 b n)
  then show ?case by (cases "n < b") (auto simp add: digits.simps [of b n])
qed

lemma digit_value_char: "d < 16 \<Longrightarrow> digit_value (digit_char d) = d"
proof -
  assume "d < 16"
  then have "d \<in> set [0..<16]" by simp
  moreover have "\<forall>d\<in>set [0..<16]. digit_value (digit_char d) = d" by code_simp
  ultimately show ?thesis by blast
qed

lemma read_digits:
  assumes "2 \<le> b" and "b \<le> 16"
  shows "read_base b (map digit_char (digits b n)) = n"
proof -
  have "foldl (\<lambda>a d. b * a + d) 0 (digits b n) = n"
    using assms(1)
  proof (induction b n rule: digits.induct)
    case (1 b n)
    then show ?case by (cases "n < b") (simp_all add: digits.simps [of b n])
  qed
  moreover have "foldl (\<lambda>a c. b * a + digit_value c) a (map digit_char ds) = foldl (\<lambda>a d. b * a + d) a ds"
    if "\<forall>d\<in>set ds. d < 16" for a ds
    using that by (induction ds arbitrary: a) (simp_all add: digit_value_char)
  moreover have "\<forall>d\<in>set (digits b n). d < 16"
    using digits_less [OF assms(1)] assms(2) by (meson order_less_le_trans)
  ultimately show ?thesis by (simp add: read_base_def)
qed

lemma read_fmt_02X: "read_base 16 (fmt_02X w) = unat w"
proof -
  have "read_base 16 (0x30 # ds) = read_base 16 ds" for ds
    by (simp add: read_base_def digit_value_def)
  then show ?thesis by (simp add: fmt_02X_def Let_def read_digits)
qed

lemma gostr_inj [simp]: "gostr s = gostr t \<longleftrightarrow> s = t"
proof
  have u: "unat (of_char c :: u8) = of_char c" for c
  proof -
    have "(of_char c :: u8) = of_nat (of_char c)" by (rule of_nat_of_char [symmetric])
    then show ?thesis by (simp add: unat_of_nat)
  qed
  have "inj (of_char :: char \<Rightarrow> u8)"
  proof (rule injI)
    fix c d assume "(of_char c :: u8) = of_char d"
    then have "(of_char c :: nat) = of_char d" using u by metis
    then show "c = d" by (rule of_char_eqI)
  qed
  then show "gostr s = gostr t \<Longrightarrow> s = t" by (simp add: gostr_def inj_map_eq_map)
qed simp

lemma vk_names_distinct: "distinct (map snd vk_names)"
  by code_simp

lemma vk_names_prefix: "\<forall>x\<in>set vk_names. take 3 (snd x) \<noteq> ''VK_''"
  by code_simp

lemma vkToName_inj: "vkToName a = vkToName b \<longleftrightarrow> a = b"
proof
  have named: "vkToName k = gostr n \<and> take 3 n \<noteq> ''VK_'' \<and> (k, n) \<in> set vk_names"
    if "map_of vk_names k = Some n" for k n
    using that map_of_SomeD [OF that] vk_names_prefix by (auto simp add: vkToName_def)
  have other: "vkToName k = gostr ''VK_'' @ fmt_02X k" if "map_of vk_names k = None" for k
    using that by (simp add: vkToName_def)
  have clash: False if "gostr n = gostr ''VK_'' @ x" "take 3 n \<noteq> ''VK_''" for n x
  proof -
    have "gostr (take 3 n) = take 3 (gostr n)" by (simp add: gostr_def take_map)
    also have "... = gostr ''VK_''" unfolding that(1) by simp
    finally show False using that(2) gostr_inj by blast
  qed
  assume eq: "vkToName a = vkToName b"
  show "a = b"
  proof (cases "map_of vk_names a"; cases "map_of vk_names b")
    assume "map_of vk_names a = None" "map_of vk_names b = None"
    then have "fmt_02X a = fmt_02X b" using eq other by simp
    then show "a = b" using read_fmt_02X by (metis unsigned_word_eqI)
  next
    fix m n assume "map_of vk_names a = Some m" "map_of vk_names b = Some n"
    note A = named [OF this(1)] and B = named [OF this(2)]
    then have "m = n" using eq by simp
    then show "a = b" using A B vk_names_distinct unfolding distinct_map inj_on_def by fastforce
  next
    fix n assume "map_of vk_names a = None" "map_of vk_names b = Some n"
    then show "a = b" using eq other named clash by metis
  next
    fix n assume "map_of vk_names a = Some n" "map_of vk_names b = None"
    then show "a = b" using eq other named clash by metis
  qed
qed simp

section \<open>The routes\<close>

lemma mouse_route_forwarded:
  "mouse_route r a dev = gostr ''REMOTE_FORWARDED'' \<longleftrightarrow> r \<and> a = Some dev"
  by (auto simp add: mouse_route_def)

text \<open>What the log says is what happens.\<close>

lemma mouse_log_true:
  "snd (mouse_loop_step ok now dev ev e) =
    (let e1 = (if IsRemote e then activate_mouse ok now dev ev e else e) in
     if mouse_route (IsRemote e) (activeMouseDev e1) dev = gostr ''REMOTE_FORWARDED''
     then handleRemoteMouseEvent ev e1 else [])"
  by (simp add: mouse_loop_step_def mouse_route_forwarded Let_def)

lemma keyboard_log_true:
  assumes "OnButtonEvent \<in> ecOn (fst (keyboard_mouse_button trim lower ok now dev ev e))"
  shows "snd (keyboard_mouse_button trim lower ok now dev ev e) =
    (if keyboard_route trim lower ok now dev ev e = gostr ''REMOTE_FORWARDED_KEYBOARD_COMBO''
     then [ButtonEvent (evCode ev) (evValue ev = 1)] else [])"
  using assms by (simp add: keyboard_mouse_button_def keyboard_route_def Let_def call_def split: option.splits if_splits)

section \<open>The list and the discovery\<close>

definition device_line :: "DeviceInfo \<Rightarrow> gostring" where
  "device_line i = gostr ''  '' @ dPath i @ gostr '': '' @ dName i @ gostr '' ['' @
     join (device_types (dIsMouse i, dIsKeyboard i, dIsTouchpad i)) (gostr '', '') @ gostr '']'' @ [0x0A]"

lemma list_one_probe:
  "list_one nodes path =
    (case probe nodes path of
       None \<Rightarrow> None
     | Some i \<Rightarrow> if dIsMouse i \<or> dIsKeyboard i \<or> dIsTouchpad i then Some (device_line i) else None)"
  by (auto simp add: list_one_def probe_def device_line_def device_types_def Let_def split: option.split prod.split)

text \<open>The list of devices shows one line for exactly the devices that the discovery classifies as a
  mouse, keyboard or touchpad; a line says mouse also for a touchpad, which is never opened as one.\<close>

lemma list_agrees:
  assumes "discoverDevices (Some paths) nodes = Some (mice, keyboards, touchpads)"
  shows "set (Evdev_ListDevices (Some paths) nodes) = device_line ` (set mice \<union> set keyboards \<union> set touchpads) \<and>
    (\<forall>i\<in>set touchpads. dIsMouse i \<and> i \<notin> set mice)"
proof
  let ?is = "List.map_filter (probe nodes) paths"
  have d: "mice = filter (\<lambda>i. dIsMouse i \<and> \<not> dIsTouchpad i) ?is" "keyboards = filter dIsKeyboard ?is"
    "touchpads = filter dIsTouchpad ?is"
    using assms by (simp_all add: discoverDevices_def Let_def)
  have l: "Evdev_ListDevices (Some paths) nodes =
      map device_line (filter (\<lambda>i. dIsMouse i \<or> dIsKeyboard i \<or> dIsTouchpad i) ?is)"
    unfolding Evdev_ListDevices_def option.case
    by (induction paths) (simp_all add: map_filter_simps list_one_probe split: option.split)
  then show "set (Evdev_ListDevices (Some paths) nodes) = device_line ` (set mice \<union> set keyboards \<union> set touchpads)"
    by (auto simp add: d)
  have "dIsMouse i" if "probe nodes p = Some i" "dIsTouchpad i" for p i
    using that by (auto simp add: probe_def classifyDevice_def Let_def split: option.splits)
  then show "\<forall>i\<in>set touchpads. dIsMouse i \<and> i \<notin> set mice"
    by (auto simp add: d map_filter_def)
qed

end
