(* ===== verification/Tui.thy ===== *)
theory Tui
  imports Receive
begin

text \<open>
  \<open>src/tui/tui.go\<close>: the debug screen.  One definition per key, per received packet and for the
  heartbeat, over the fields of \<open>Screen\<close>; the network client is a type parameter with its
  operations \<open>send\<close> and \<open>recv\<close> as arguments, so that the properties can say what is sent.  A
  status line is a value with what it shows; its text and the frame are in \<open>Render\<close>.
\<close>

section \<open>The screen\<close>

datatype 'e status =
    StInitial | StReturned | StClicked | StSendError 'e | StClipboardSent
  | StClosed | StRecvError recv_error | StMouse i32 i32 i32 | StIncoming u64 u64 | StKey i32 bool
  | StChunk nat nat | StClipboard gostring | StPacket PackageType

record ('c, 'e) Screen =
  Width :: u64
  Height :: u64
  CursorX :: u64
  CursorY :: u64
  RemoteCursorX :: i32
  RemoteCursorY :: i32
  scIsRemote :: bool
  Status :: "'e status"
  scClient :: 'c
  scMachineID :: u32
  scRemoteMachineID :: u32
  PacketID :: u32

text \<open>\<open>termSize\<close> is the answer of \<open>term.GetSize\<close>.\<close>

definition New :: "(u64 \<times> u64) option \<Rightarrow> 'c \<Rightarrow> u32 \<Rightarrow> u32 \<Rightarrow> ('c, 'e) Screen" where
  "New termSize client machineID remoteMachineID =
    (let (width, height) = (case termSize of None \<Rightarrow> (80, 24) | Some (w, h) \<Rightarrow> (w, h));
         contentWidth = width - 4;
         contentHeight = height - 20;
         contentWidth = (if sint contentWidth < 18 then 18 else contentWidth);
         contentHeight = (if sint contentHeight < 8 then 8 else contentHeight)
     in \<lparr>Width = contentWidth, Height = contentHeight,
         CursorX = godiv contentWidth 2, CursorY = godiv contentHeight 2,
         RemoteCursorX = 32768, RemoteCursorY = 32768, scIsRemote = False, Status = StInitial,
         scClient = client, scMachineID = machineID, scRemoteMachineID = remoteMachineID, PacketID = 100\<rparr>)"

definition clamp_axis :: "u64 \<Rightarrow> u64 \<Rightarrow> u64" where
  "clamp_axis bound v =
    (let v = (if sint v < 0 then 0 else v) in if sint bound \<le> sint v then bound - 1 else v)"

definition clampCursor :: "('c, 'e) Screen \<Rightarrow> ('c, 'e) Screen" where
  "clampCursor s = s\<lparr>CursorX := clamp_axis (Width s) (CursorX s), CursorY := clamp_axis (Height s) (CursorY s)\<rparr>"

section \<open>Sending\<close>

definition tui_send ::
  "(GenericData \<Rightarrow> 'c \<Rightarrow> 'e option \<times> 'c) \<Rightarrow> GenericData \<Rightarrow> ('c, 'e) Screen \<Rightarrow> 'e option \<times> ('c, 'e) Screen" where
  "tui_send send pkt s = (case send pkt (scClient s) of (e, c) \<Rightarrow> (e, s\<lparr>scClient := c\<rparr>))"

definition tui_packet :: "PackageType \<Rightarrow> u32 \<Rightarrow> u64 \<Rightarrow> ('c, 'e) Screen \<Rightarrow> GenericData" where
  "tui_packet t des time s =
     \<lparr>gHeader = \<lparr>hType = t, hId = PacketID s, hSrc = scMachineID s, hDes = des, hDateTime = time\<rparr>,
      gKeyboard = None, gMouse = None, gHandshake = None, gMachineName = [], gRaw = None\<rparr>"

definition sendMousePacket ::
  "(GenericData \<Rightarrow> 'c \<Rightarrow> 'e option \<times> 'c) \<Rightarrow> i32 \<Rightarrow> i32 \<Rightarrow> i32 \<Rightarrow> i32 \<Rightarrow> ('c, 'e) Screen \<Rightarrow> ('c, 'e) Screen" where
  "sendMousePacket send x y wheelDelta flags s =
    (let s = s\<lparr>PacketID := PacketID s + 1\<rparr>;
         pkt = (tui_packet Mouse (scRemoteMachineID s) 0 s)
                 \<lparr>gMouse := Some \<lparr>mX = x, mY = y, mWheelDelta = wheelDelta, mFlags = flags\<rparr>\<rparr>
     in case tui_send send pkt s of
          (Some e, s) \<Rightarrow> s\<lparr>Status := StSendError e\<rparr>
        | (None, s) \<Rightarrow> s)"

section \<open>Keys\<close>

definition handleArrowKey ::
  "(GenericData \<Rightarrow> 'c \<Rightarrow> 'e option \<times> 'c) \<Rightarrow> int \<Rightarrow> int \<Rightarrow> ('c, 'e) Screen \<Rightarrow> ('c, 'e) Screen" where
  "handleArrowKey send dx dy s =
    (if scIsRemote s then
       (let x = RemoteCursorX s + word_of_int (dx * 1000);
            y = RemoteCursorY s + word_of_int (dy * 1000);
            x = (if sint x < 0 then 0 else x);
            x = (if 65535 < sint x then 65535 else x);
            y = (if sint y < 0 then 0 else y);
            y = (if 65535 < sint y then 65535 else y);
            s = s\<lparr>RemoteCursorX := x, RemoteCursorY := y\<rparr>;
            s = sendMousePacket send (RemoteCursorX s) (RemoteCursorY s) 0 WM_MOUSEMOVE s
        in clampCursor (s\<lparr>CursorX := CursorX s + word_of_int dx, CursorY := CursorY s + word_of_int dy\<rparr>))
     else
       clampCursor (s\<lparr>CursorX := CursorX s + word_of_int dx, CursorY := CursorY s + word_of_int dy\<rparr>))"

text \<open>The second copies of the two functions of \<open>src/main.go\<close>.\<close>

definition tui_formatClipboardText :: "(bytes \<Rightarrow> bytes) \<Rightarrow> gostring \<Rightarrow> bytes" where
  "tui_formatClipboardText deflate text =
    (let formatted = GenerateMWBClipboardFormat text;
         utf16Bytes = fold (\<lambda>(i, r) buf. buf[i * 2 := word_of_nat r, i * 2 + 1 := word_of_nat (drop_bit 8 r)])
           (range_string formatted) (replicate (length formatted * 2) 0)
     in if 48 < length utf16Bytes then deflate utf16Bytes else utf16Bytes)"

definition tui_decompressAndParseClipboard :: "(bytes \<Rightarrow> bytes option) \<Rightarrow> bytes \<Rightarrow> gostring" where
  "tui_decompressAndParseClipboard inflate data =
    (if length data = 0 then []
     else
       let decompressed =
             (if 10 < length data
              then (case inflate data of None \<Rightarrow> data | Some decompressed \<Rightarrow> decompressed)
              else data);
           text =
             (if 2 \<le> length decompressed \<and> decompressed ! 1 = 0
              then string_of_runes (utf16_runes decompressed)
              else decompressed)
       in case ParseMWBClipboardFormat text of Inl err \<Rightarrow> text | Inr text \<Rightarrow> text)"

text \<open>The key \<open>c\<close>: \<open>stamp\<close> is the formatted time; \<open>time\<close> gives the times of the packets.\<close>

definition send_timestamp ::
  "(GenericData \<Rightarrow> 'c \<Rightarrow> 'e option \<times> 'c) \<Rightarrow> (bytes \<Rightarrow> bytes) \<Rightarrow> gostring \<Rightarrow> (u32 \<Rightarrow> u64) \<Rightarrow> ('c, 'e) Screen \<Rightarrow> ('c, 'e) Screen" where
  "send_timestamp send deflate stamp time s =
    (let formatted = tui_formatClipboardText deflate stamp;
         s = fold (\<lambda>chunk s.
               let s = s\<lparr>PacketID := PacketID s + 1\<rparr>
               in snd (tui_send send ((tui_packet ClipboardText (scRemoteMachineID s) (time (PacketID s)) s)\<lparr>gRaw := Some chunk\<rparr>) s))
             (chunks 48 formatted) s;
         s = s\<lparr>PacketID := PacketID s + 1\<rparr>
     in case tui_send send (tui_packet ClipboardDataEnd (scRemoteMachineID s) (time (PacketID s)) s) s of
          (Some e, s) \<Rightarrow> s\<lparr>Status := StSendError e\<rparr>
        | (None, s) \<Rightarrow> s\<lparr>Status := StClipboardSent\<rparr>)"

text \<open>
  One round of the loop of \<open>Run\<close> after a read of \<open>n > 0\<close> bytes into \<open>buf\<close>; \<open>None\<close> when it returns.
\<close>

definition run_key ::
  "(GenericData \<Rightarrow> 'c \<Rightarrow> 'e option \<times> 'c) \<Rightarrow> (bytes \<Rightarrow> bytes) \<Rightarrow> gostring \<Rightarrow> (u32 \<Rightarrow> u64) \<Rightarrow> nat \<Rightarrow> u8 \<times> u8 \<times> u8
   \<Rightarrow> ('c, 'e) Screen \<Rightarrow> ('c, 'e) Screen option" where
  "run_key send deflate stamp time n buf s =
    (let (b0, b1, b2) = buf in
     if b0 = 0x71 \<or> b0 = 0x51 \<or> b0 = 3 then None
     else
       let s = (if n = 3 \<and> b0 = 27 \<and> b1 = 0x5B then
                  (let (dx, dy) = (if b2 = 0x41 then (0, -1) else if b2 = 0x42 then (0, 1)
                                   else if b2 = 0x43 then (1, 0) else if b2 = 0x44 then (-1, 0) else (0, 0))
                   in if dx \<noteq> 0 \<or> dy \<noteq> 0 then handleArrowKey send dx dy s else s)
                else s);
           s = (if b0 = 0x20 \<and> scIsRemote s then
                  s\<lparr>scIsRemote := False, Status := StReturned, CursorX := godiv (Width s) 2, CursorY := godiv (Height s) 2\<rparr>
                else s);
           s = (if (b0 = 0x78 \<or> b0 = 0x58) \<and> scIsRemote s then
                  (let s = sendMousePacket send (RemoteCursorX s) (RemoteCursorY s) 0 WM_LBUTTONDOWN s;
                       s = sendMousePacket send (RemoteCursorX s) (RemoteCursorY s) 0 WM_LBUTTONUP s
                   in s\<lparr>Status := StClicked\<rparr>)
                else s)
       in Some (if (b0 = 0x63 \<or> b0 = 0x43) \<and> scIsRemote s then send_timestamp send deflate stamp time s else s))"

section \<open>Receiving\<close>

text \<open>The variables of the receive loop: the clipboard buffer and whether one is being received.\<close>

definition tui_receive ::
  "(bytes \<Rightarrow> bytes option) \<Rightarrow> GenericData \<Rightarrow> ('c, 'e) Screen \<times> bytes \<times> bool \<Rightarrow> ('c, 'e) Screen \<times> bytes \<times> bool" where
  "tui_receive inflate pkt st =
    (let (s, buf, receiving) = st in
     if gType pkt = Mouse then
       (case gMouse pkt of
          None \<Rightarrow> st
        | Some m \<Rightarrow>
            (let s = clampCursor (s\<lparr>CursorX := godiv (scast (mX m) * Width s) 65536,
                                    CursorY := godiv (scast (mY m) * Height s) 65536\<rparr>);
                 s = s\<lparr>Status := StMouse (mX m) (mY m) (mFlags m)\<rparr>;
                 s = (if \<not> scIsRemote s
                      then s\<lparr>scIsRemote := False, Status := StIncoming (CursorX s) (CursorY s)\<rparr> else s)
             in (s, buf, receiving)))
     else if gType pkt = Keyboard then
       (case gKeyboard pkt of
          None \<Rightarrow> st
        | Some k \<Rightarrow> (s\<lparr>Status := StKey (kVk k) (kFlags k AND LLKHF_UP \<noteq> 0)\<rparr>, buf, receiving))
     else if gType pkt = Heartbeat then st
     else if gType pkt = ClipboardText then
       (case gRaw pkt of
          None \<Rightarrow> st
        | Some raw \<Rightarrow> (s\<lparr>Status := StChunk (length raw) (length (buf @ raw))\<rparr>, buf @ raw, True))
     else if gType pkt = ClipboardDataEnd then
       (if receiving \<and> 0 < length buf then
          (let text = tui_decompressAndParseClipboard inflate buf;
               text = (if 40 < length text then take 40 text @ gostr ''...'' else text)
           in (s\<lparr>Status := StClipboard text\<rparr>, [], False))
        else st)
     else (s\<lparr>Status := StPacket (gType pkt)\<rparr>, buf, receiving))"

text \<open>One round of the receive loop; \<open>True\<close> when it returns.\<close>

definition tui_recv_round ::
  "(bytes \<Rightarrow> bytes option) \<Rightarrow> recv_error + GenericData \<Rightarrow> ('c, 'e) Screen \<times> bytes \<times> bool
   \<Rightarrow> bool \<times> ('c, 'e) Screen \<times> bytes \<times> bool" where
  "tui_recv_round inflate r st =
    (case r of
       Inl err \<Rightarrow>
         (if err = RdIO EOF then (True, (fst st)\<lparr>Status := StClosed\<rparr>, snd st)
          else (False, (fst st)\<lparr>Status := StRecvError err\<rparr>, snd st))
     | Inr pkt \<Rightarrow> (False, tui_receive inflate pkt st))"

text \<open>One tick of the heartbeat loop; its packet has no receiver.\<close>

definition tui_heartbeat ::
  "(GenericData \<Rightarrow> 'c \<Rightarrow> 'e option \<times> 'c) \<Rightarrow> ('c \<Rightarrow> gostring) \<Rightarrow> u64 \<Rightarrow> ('c, 'e) Screen \<Rightarrow> ('c, 'e) Screen" where
  "tui_heartbeat send name time s =
    (let s = s\<lparr>PacketID := PacketID s + 1\<rparr>
     in snd (tui_send send ((tui_packet Heartbeat 0 time s)\<lparr>gMachineName := name (scClient s)\<rparr>) s))"

section \<open>Runs\<close>

text \<open>
  A key, a round of the receive loop, a heartbeat, in any order.  \<open>recv c r c'\<close> tells that
  receiving on the client \<open>c\<close> may give \<open>r\<close> and leave \<open>c'\<close>.
\<close>

inductive tui_step ::
  "(GenericData \<Rightarrow> 'c \<Rightarrow> 'e option \<times> 'c) \<Rightarrow> ('c \<Rightarrow> recv_error + GenericData \<Rightarrow> 'c \<Rightarrow> bool) \<Rightarrow> ('c \<Rightarrow> gostring)
   \<Rightarrow> (bytes \<Rightarrow> bytes) \<Rightarrow> (bytes \<Rightarrow> bytes option) \<Rightarrow> ('c, 'e) Screen \<times> bytes \<times> bool \<Rightarrow> ('c, 'e) Screen \<times> bytes \<times> bool \<Rightarrow> bool"
  for send recv name deflate inflate where
  key: "run_key send deflate stamp time n buf s = Some s' \<Longrightarrow>
     tui_step send recv name deflate inflate (s, b) (s', b)"
| packet: "recv (scClient s) r c \<Longrightarrow> tui_recv_round inflate r (s\<lparr>scClient := c\<rparr>, b) = (ended, st) \<Longrightarrow>
     tui_step send recv name deflate inflate (s, b) st"
| heartbeat: "tui_step send recv name deflate inflate (s, b) (tui_heartbeat send name time s, b)"

section \<open>The window\<close>

definition in_window :: "u64 \<Rightarrow> u64 \<Rightarrow> bool" where
  "in_window bound v \<longleftrightarrow> 0 \<le> sint v \<and> sint v < sint bound"

lemma sint_between:
  assumes "0 \<le> k" and "k \<le> sint (b :: u64)"
  shows "sint (word_of_int k :: u64) = k"
  using assms sint_lt [of b] by (intro sint_small_word) simp_all

lemma sint_minus_1: "0 < sint (b :: u64) \<Longrightarrow> sint (b - 1) = sint b - 1"
proof -
  assume "0 < sint b"
  then have "sint (word_of_int (sint b - 1) :: u64) = sint b - 1" by (intro sint_between [of _ b]) simp_all
  then show ?thesis by simp
qed

lemma clamp_in_window: "0 < sint b \<Longrightarrow> in_window b (clamp_axis b v)"
  by (auto simp add: in_window_def clamp_axis_def Let_def sint_minus_1)

lemma half_in_window:
  assumes "0 < sint (b :: u64)"
  shows "in_window b (godiv b 2)"
proof -
  have "sint b sdiv 2 = sint b div 2" using assms by (simp add: signed_divide_int_eq_divide_int)
  moreover have "sint (word_of_int (sint b div 2) :: u64) = sint b div 2"
    using assms by (intro sint_between [of _ b]) simp_all
  ultimately show ?thesis using assms by (simp add: in_window_def godiv_def)
qed

section \<open>The copies\<close>

lemma tui_copies:
  "tui_formatClipboardText = formatClipboardText"
  "tui_decompressAndParseClipboard = decompressAndParseClipboard"
  by (intro ext, simp add: tui_formatClipboardText_def formatClipboardText_def utf16_bytes_def Let_def)
    (intro ext, simp add: tui_decompressAndParseClipboard_def decompressAndParseClipboard_def)

section \<open>What every step keeps\<close>

text \<open>For a client that is the list of the packets handed to it.\<close>

definition heartbeats :: "GenericData list \<Rightarrow> bool" where
  "heartbeats ds \<longleftrightarrow> (\<forall>i<length ds. gType (ds ! i) = Heartbeat \<and> hId (gHeader (ds ! i)) = 101 + of_nat i)"

lemma heartbeats_snoc:
  "heartbeats ds \<Longrightarrow> gType d = Heartbeat \<Longrightarrow> hId (gHeader d) = 101 + of_nat (length ds) \<Longrightarrow> heartbeats (ds @ [d])"
  by (simp add: heartbeats_def nth_append less_Suc_eq)

definition tui_inv :: "(GenericData list, 'e) Screen \<times> bytes \<times> bool \<Rightarrow> bool" where
  "tui_inv st \<longleftrightarrow> \<not> scIsRemote (fst st) \<and> 0 < sint (Width (fst st)) \<and> 0 < sint (Height (fst st)) \<and>
     in_window (Width (fst st)) (CursorX (fst st)) \<and> in_window (Height (fst st)) (CursorY (fst st)) \<and>
     PacketID (fst st) = 100 + of_nat (length (scClient (fst st))) \<and>
     heartbeats (scClient (fst st))"

abbreviation log_send :: "(GenericData \<Rightarrow> GenericData list \<Rightarrow> 'e option) \<Rightarrow> GenericData \<Rightarrow> GenericData list \<Rightarrow> 'e option \<times> GenericData list" where
  "log_send err d sent \<equiv> (err d sent, sent @ [d])"

abbreviation log_recv :: "GenericData list \<Rightarrow> recv_error + GenericData \<Rightarrow> GenericData list \<Rightarrow> bool" where
  "log_recv c r c' \<equiv> c' = c"

lemma clampCursor_inv:
  "tui_inv (s, b) \<Longrightarrow> tui_inv (clampCursor (s\<lparr>CursorX := x, CursorY := y\<rparr>), b')"
  by (simp add: tui_inv_def clampCursor_def clamp_in_window)

lemma tui_inv_status [simp]: "tui_inv (s\<lparr>Status := v\<rparr>, b) = tui_inv (s, b)"
  by (simp add: tui_inv_def)

lemma run_key_inv:
  assumes "tui_inv (s, b)" and "run_key send deflate stamp time n buf s = Some s'"
  shows "tui_inv (s', b)"
proof -
  have l: "\<not> scIsRemote s" using assms(1) by (simp add: tui_inv_def)
  obtain b0 b1 b2 where buf: "buf = (b0, b1, b2)" by (cases buf)
  have arrow: "handleArrowKey send dx dy s = clampCursor (s\<lparr>CursorX := CursorX s + word_of_int dx, CursorY := CursorY s + word_of_int dy\<rparr>)"
    for dx dy using l by (simp add: handleArrowKey_def)
  have loc: "\<not> scIsRemote (handleArrowKey send dx dy s)" for dx dy using l by (simp add: arrow clampCursor_def)
  have "s' = s \<or> (\<exists>dx dy. s' = handleArrowKey send dx dy s)"
    using assms(2) l loc by (simp add: run_key_def buf Let_def split: if_splits) blast+
  then show ?thesis using assms(1) clampCursor_inv [OF assms(1), where b' = b] by (auto simp only: arrow)
qed

lemma tui_receive_inv:
  assumes "tui_inv (s, b)"
  shows "tui_inv (tui_receive inflate pkt (s, b))"
proof -
  obtain buf receiving where b: "b = (buf, receiving)" by (cases b)
  have l: "\<not> scIsRemote s" using assms by (simp add: tui_inv_def)
  have all: "tui_inv (s, b')" for b' using assms by (simp add: tui_inv_def)
  have c: "tui_inv ((clampCursor (s\<lparr>CursorX := x, CursorY := y\<rparr>))\<lparr>Status := v, scIsRemote := False, Status := w\<rparr>, b')" for x y v w b'
    using clampCursor_inv [OF assms, where x = x and y = y and b' = b'] by (simp add: tui_inv_def)
  have r: "\<not> scIsRemote (clampCursor (s\<lparr>CursorX := x, CursorY := y\<rparr>))" for x y using l by (simp add: clampCursor_def)
  show ?thesis
    using all c r by (simp add: tui_receive_def b Let_def split: option.split)
qed

lemma tui_heartbeat_inv:
  assumes "tui_inv (s, b)"
  shows "tui_inv (tui_heartbeat (log_send err) name time s, b)"
proof -
  obtain d where t: "tui_heartbeat (log_send err) name time s = s\<lparr>PacketID := PacketID s + 1, scClient := scClient s @ [d]\<rparr>"
    and d: "gType d = Heartbeat" "hId (gHeader d) = PacketID s + 1"
    by (simp add: tui_heartbeat_def tui_send_def tui_packet_def Let_def)
  have p: "PacketID s = 100 + of_nat (length (scClient s))" and h: "heartbeats (scClient s)" using assms by (simp_all add: tui_inv_def)
  have "heartbeats (scClient s @ [d])" using h d by (intro heartbeats_snoc) (simp_all add: p)
  with assms show ?thesis by (simp add: t tui_inv_def)
qed

lemma tui_step_inv:
  "tui_step (log_send err) log_recv name deflate inflate st st' \<Longrightarrow> tui_inv st \<Longrightarrow> tui_inv st'"
proof (induction rule: tui_step.induct)
  case (key stamp time n buf s s' b)
  from key(2,1) show ?case by (rule run_key_inv)
next
  case (packet s r c b ended st)
  have "tui_inv (s\<lparr>scClient := c\<rparr>, b)" using packet by (simp add: tui_inv_def)
  moreover have "snd (tui_recv_round inflate r (s\<lparr>scClient := c\<rparr>, b)) = st" using packet by simp
  ultimately show ?case using tui_receive_inv [of "s\<lparr>scClient := c\<rparr>" b]
    by (auto simp add: tui_recv_round_def split: sum.splits if_splits)
next
  case (heartbeat time s b)
  then show ?case by (rule tui_heartbeat_inv)
qed

interpretation tui: invariant_system "tui_step (log_send err) log_recv name deflate inflate" tui_inv
  for err name deflate inflate
  by unfold_locales (rule tui_step_inv)

lemma New_inv: "tui_inv (New termSize [] mid rid, b)"
proof -
  have "0 < sint (if sint w < 18 then 18 else w :: u64)" "0 < sint (if sint w < 8 then 8 else w :: u64)" for w by auto
  then show ?thesis
    by (auto simp add: New_def Let_def tui_inv_def half_in_window heartbeats_def split: option.split prod.split)
qed

section \<open>Properties\<close>

text \<open>C28: Whatever keys are pressed and whatever is received, the debug screen never leaves local
  mode, so that moving the remote cursor, clicking and sending the clipboard never happen: the
  packets it sends are its heartbeats, numbered from 101 on; and its cursor stays inside the
  window.\<close>

theorem tui_stays_local:
  assumes "(tui_step (log_send err) log_recv name deflate inflate)\<^sup>*\<^sup>* (New termSize [] mid rid, [], False) (s, b)"
  shows "\<not> scIsRemote s \<and>
    (\<forall>i<length (scClient s). gType (scClient s ! i) = Heartbeat \<and> hId (gHeader (scClient s ! i)) = 101 + of_nat i) \<and>
    0 \<le> sint (CursorX s) \<and> sint (CursorX s) < sint (Width s) \<and>
    0 \<le> sint (CursorY s) \<and> sint (CursorY s) < sint (Height s)"
  using tui.run_inv [OF assms New_inv] by (simp add: tui_inv_def in_window_def heartbeats_def)

theorem tui_stays_local_witness:
  "CursorX (handleArrowKey (log_send (\<lambda>_ _. None :: unit option)) 1 0 (New (Some (80, 24)) [] 1 2)) = 39 \<and>
   \<not> scIsRemote (handleArrowKey (log_send (\<lambda>_ _. None :: unit option)) 1 0 (New (Some (80, 24)) [] 1 2))"
proof -
  let ?send = "log_send (\<lambda>_ _. None :: unit option)"
  let ?s = "New (Some (80, 24)) [] 1 2"
  have "run_key ?send id [] (\<lambda>_. 0) 3 (27, 0x5B, 0x43) ?s = Some (handleArrowKey ?send 1 0 ?s)"
    by (simp add: run_key_def New_def handleArrowKey_def clampCursor_def)
  then have "tui_step ?send log_recv (\<lambda>_. []) id Some (?s, [], False) (handleArrowKey ?send 1 0 ?s, [], False)"
    by (rule tui_step.key)
  from tui_stays_local [OF r_into_rtranclp [of "tui_step _ _ _ _ _", OF this]]
  show ?thesis by (simp add: New_def handleArrowKey_def clampCursor_def clamp_axis_def godiv_def)
qed

end
