(* ===== verification/Render.thy ===== *)
theory Render
  imports Texts Tui
begin

text \<open>
  What the debug screen of \<open>src/tui/tui.go\<close> shows: the text of the status line and the frame that
  \<open>renderLocked\<close> writes, as bytes.  The texts of errors and Go's quoting \<open>%q\<close> are arguments.  The main
  lemma: in every state that the screen reaches the frame is drawn, and exactly one of its cells
  shows the cursor.
\<close>

section \<open>The status line\<close>

definition fmt_X :: "int \<Rightarrow> gostring" where
  "fmt_X i = (if i < 0 then [0x2D] else []) @ map digit_char (digits 16 (nat \<bar>i\<bar>))"

fun status_text ::
  "('e \<Rightarrow> gostring) \<Rightarrow> (recv_error \<Rightarrow> gostring) \<Rightarrow> (gostring \<Rightarrow> gostring) \<Rightarrow> 'e status \<Rightarrow> gostring" where
  "status_text serr rerr quote StInitial = gostr ''LOCAL - use F1/F2 to switch machines''"
| "status_text serr rerr quote StReturned = gostr ''LOCAL - returned via spacebar''"
| "status_text serr rerr quote StClicked = gostr ''REMOTE - left click sent''"
| "status_text serr rerr quote (StSendError e) = gostr ''Send error: '' @ serr e"
| "status_text serr rerr quote StClipboardSent = gostr ''REMOTE - sent clipboard timestamp''"
| "status_text serr rerr quote StClosed = gostr ''Connection closed by remote (EOF)''"
| "status_text serr rerr quote (StRecvError e) = gostr ''Recv error: '' @ rerr e"
| "status_text serr rerr quote (StMouse x y f) =
     gostr ''Recv mouse: ('' @ fmt_d (sint x) @ gostr '','' @ fmt_d (sint y) @ gostr '') flags=0x'' @ fmt_X (sint f)"
| "status_text serr rerr quote (StIncoming x y) =
     gostr ''INCOMING: Windows cursor at ('' @ fmt_d (sint x) @ gostr '','' @ fmt_d (sint y) @ gostr '')''"
| "status_text serr rerr quote (StKey vk up) =
     gostr ''Recv key: VK=0x'' @ fmt_X (sint vk) @ gostr '' '' @ gostr (if up then ''UP'' else ''DOWN'')"
| "status_text serr rerr quote (StChunk n m) =
     gostr ''Recv clipboard chunk: '' @ fmt_d (int n) @ gostr '' bytes (total: '' @ fmt_d (int m) @ gostr '')''"
| "status_text serr rerr quote (StClipboard txt) = gostr ''Recv clipboard: '' @ quote txt"
| "status_text serr rerr quote (StPacket t) = gostr ''Recv pkt type='' @ fmt_d (uint t)"

section \<open>The frame\<close>

text \<open>Escape sequences, and the characters of the frame in UTF-8.\<close>

definition escape :: "string \<Rightarrow> gostring" where
  "escape s = [0x1B, 0x5B] @ gostr s"

definition dot :: gostring where "dot = [0xE2, 0xAC, 0xA4]"
definition block :: gostring where "block = [0xE2, 0x96, 0x88]"
definition horizontal :: gostring where "horizontal = [0xE2, 0x94, 0x80]"
definition vertical :: gostring where "vertical = [0xE2, 0x94, 0x82]"
definition top_left :: gostring where "top_left = [0xE2, 0x94, 0x8C]"
definition top_right :: gostring where "top_right = [0xE2, 0x94, 0x90]"
definition bottom_left :: gostring where "bottom_left = [0xE2, 0x94, 0x94]"
definition bottom_right :: gostring where "bottom_right = [0xE2, 0x94, 0x98]"

lemma frame_characters:
  "dot = map word_of_nat (encode_rune 0x2B24)" "block = map word_of_nat (encode_rune 0x2588)"
  "horizontal = map word_of_nat (encode_rune 0x2500)" "vertical = map word_of_nat (encode_rune 0x2502)"
  "top_left = map word_of_nat (encode_rune 0x250C)" "top_right = map word_of_nat (encode_rune 0x2510)"
  "bottom_left = map word_of_nat (encode_rune 0x2514)" "bottom_right = map word_of_nat (encode_rune 0x2518)"
  by (simp_all add: dot_def block_def horizontal_def vertical_def top_left_def top_right_def bottom_left_def
      bottom_right_def encode_rune_def)

text \<open>\<open>strings.Repeat\<close> panics (\<open>None\<close>) on a negative count.\<close>

definition go_repeat :: "gostring \<Rightarrow> int \<Rightarrow> gostring option" where
  "go_repeat s n = (if n < 0 then None else Some (concat (replicate (nat n) s)))"

definition cell :: "('c, 'e) Screen \<Rightarrow> nat \<Rightarrow> nat \<Rightarrow> gostring" where
  "cell s x y =
    (if int x = sint (CursorX s) \<and> int y = sint (CursorY s) then
       (if scIsRemote s then escape ''31m'' @ block @ escape ''0m'' else escape ''32m'' @ block @ escape ''0m'')
     else [0x20])"

definition frame_row :: "('c, 'e) Screen \<Rightarrow> nat \<Rightarrow> gostring" where
  "frame_row s y =
     [0x20] @ vertical @ concat (map (\<lambda>x. cell s x y) [0..<nat (sint (Width s))]) @ vertical @ [0x0A]"

definition renderLocked :: "('e status \<Rightarrow> gostring) \<Rightarrow> ('c, 'e) Screen \<Rightarrow> gostring option" where
  "renderLocked txt s =
    (let modeColor = (if scIsRemote s then escape ''31m'' else escape ''32m'');
         modeLabel = (if scIsRemote s then gostr ''REMOTE'' else gostr ''LOCAL'')
     in case go_repeat horizontal (sint (Width s)) of
          None \<Rightarrow> None
        | Some line \<Rightarrow>
            Some (escape ''2J'' @ escape ''H'' @
              [0x20] @ modeColor @ dot @ [0x20] @ modeLabel @ escape ''0m'' @
              gostr ''  MWB Debug TUI  |  Cursor: ('' @ fmt_d (sint (CursorX s)) @ gostr '','' @
              fmt_d (sint (CursorY s)) @ gostr '')'' @ [0x0A] @
              [0x20] @ top_left @ line @ top_right @ [0x0A] @
              concat (map (frame_row s) [0..<nat (sint (Height s))]) @
              [0x20] @ bottom_left @ line @ bottom_right @ [0x0A] @
              [0x20] @ txt (Status s) @ escape ''K'' @ [0x0A] @
              gostr '' [arrows]=move  [space]=return to local  [x]=click  [c]=clipboard  [q]=quit'' @
              escape ''K'' @ [0x0A]))"

section \<open>One cursor\<close>

lemma filter_equal: "distinct xs \<Longrightarrow> x \<in> set xs \<Longrightarrow> filter (\<lambda>y. x = y) xs = [x]"
  by (induction xs) (auto simp add: filter_empty_conv)

lemma cursor_cell:
  assumes "0 \<le> sint (CursorX s)" and "sint (CursorX s) < sint (Width s)"
    and "0 \<le> sint (CursorY s)" and "sint (CursorY s) < sint (Height s)"
  shows "filter (\<lambda>(x, y). cell s x y \<noteq> [0x20]) (List.product [0..<nat (sint (Width s))] [0..<nat (sint (Height s))]) =
    [(nat (sint (CursorX s)), nat (sint (CursorY s)))]"
proof -
  let ?x = "nat (sint (CursorX s))" and ?y = "nat (sint (CursorY s))"
  let ?g = "List.product [0..<nat (sint (Width s))] [0..<nat (sint (Height s))]"
  have c: "cell s x y \<noteq> [0x20] \<longleftrightarrow> x = ?x \<and> y = ?y" for x y
    using assms by (auto simp add: cell_def escape_def)
  have g: "filter (\<lambda>(x, y). cell s x y \<noteq> [0x20]) ?g = filter (\<lambda>p. (?x, ?y) = p) ?g"
    by (rule filter_cong) (auto simp add: c)
  have "distinct ?g" by (simp add: distinct_product)
  moreover have "(?x, ?y) \<in> set ?g" using assms by simp
  ultimately show ?thesis using g filter_equal by metis
qed

lemma frame_drawn:
  assumes "(tui_step (log_send err) log_recv name deflate inflate)\<^sup>*\<^sup>* (New termSize [] mid rid, [], False) (s, b)"
  shows "\<exists>f. renderLocked txt s = Some f \<and>
    filter (\<lambda>(x, y). cell s x y \<noteq> [0x20]) (List.product [0..<nat (sint (Width s))] [0..<nat (sint (Height s))]) =
      [(nat (sint (CursorX s)), nat (sint (CursorY s)))] \<and>
    cell s (nat (sint (CursorX s))) (nat (sint (CursorY s))) = escape ''32m'' @ block @ escape ''0m''"
proof -
  have i: "tui_inv (s, b)" using tui.run_inv [OF assms New_inv] .
  then have w: "0 \<le> sint (CursorX s)" "sint (CursorX s) < sint (Width s)" "0 \<le> sint (CursorY s)"
    "sint (CursorY s) < sint (Height s)" "\<not> scIsRemote s"
    by (simp_all add: tui_inv_def in_window_def)
  have "\<not> sint (Width s) < 0" using w by linarith
  then have "\<exists>f. renderLocked txt s = Some f" by (simp add: renderLocked_def go_repeat_def Let_def)
  then show ?thesis using cursor_cell [OF w(1-4)] w by (simp add: cell_def)
qed

end
