(* ===== verification/Terminal.thy ===== *)
theory Terminal
  imports Render
begin

text \<open>
  \<open>Run\<close> of the debug screen (\<open>src/tui/tui.go\<close>) and the terminal: raw mode, the cursor that is hidden, and
  what its deferred calls put back.  \<open>makeRaw\<close> and \<open>restore\<close> are the two calls of the terminal
  package.
\<close>

section \<open>The terminal\<close>

record ('m, 'c, 'e) TuiRun =
  tmMode :: 'm
  tmHidden :: bool
  tmOrigState :: "'m option"
  tmReturned :: bool
  tmState :: "('c, 'e) Screen \<times> bytes \<times> bool"

text \<open>\<open>None\<close>: \<open>log.Fatalf\<close>.\<close>

definition enableRawMode :: "('m \<Rightarrow> ('m \<times> 'm) option) \<Rightarrow> ('m, 'c, 'e) TuiRun \<Rightarrow> ('m, 'c, 'e) TuiRun option" where
  "enableRawMode makeRaw r =
    (case makeRaw (tmMode r) of
       None \<Rightarrow> None
     | Some (state, raw) \<Rightarrow> Some (r\<lparr>tmMode := raw, tmOrigState := Some state\<rparr>))"

definition disableRawMode :: "('m \<Rightarrow> 'm \<Rightarrow> 'm) \<Rightarrow> ('m, 'c, 'e) TuiRun \<Rightarrow> ('m, 'c, 'e) TuiRun" where
  "disableRawMode restore r =
    (case tmOrigState r of None \<Rightarrow> r | Some state \<Rightarrow> r\<lparr>tmMode := restore state (tmMode r)\<rparr>)"

text \<open>\<open>Run\<close> before its loop, and its return with the deferred calls, the last one first.\<close>

definition Run_begin :: "('m \<Rightarrow> ('m \<times> 'm) option) \<Rightarrow> ('m, 'c, 'e) TuiRun \<Rightarrow> ('m, 'c, 'e) TuiRun option" where
  "Run_begin makeRaw r = map_option (\<lambda>r. r\<lparr>tmHidden := True\<rparr>) (enableRawMode makeRaw r)"

definition Run_return :: "('m \<Rightarrow> 'm \<Rightarrow> 'm) \<Rightarrow> ('m, 'c, 'e) TuiRun \<Rightarrow> ('m, 'c, 'e) TuiRun" where
  "Run_return restore r = disableRawMode restore (r\<lparr>tmHidden := False\<rparr>)\<lparr>tmReturned := True\<rparr>"

text \<open>
  The loops of \<open>Run\<close>, of \<open>receiveLoop\<close> and of \<open>heartbeatLoop\<close>; the last two go on when \<open>Run\<close> has returned,
  until the process ends.  A read without data is no step.
\<close>

inductive run_step ::
  "(GenericData \<Rightarrow> 'c \<Rightarrow> 'x option \<times> 'c) \<Rightarrow> ('c \<Rightarrow> recv_error + GenericData \<Rightarrow> 'c \<Rightarrow> bool) \<Rightarrow> ('c \<Rightarrow> gostring)
   \<Rightarrow> (bytes \<Rightarrow> bytes) \<Rightarrow> (bytes \<Rightarrow> bytes option) \<Rightarrow> ('m \<Rightarrow> 'm \<Rightarrow> 'm) \<Rightarrow> ('m, 'c, 'x) TuiRun \<Rightarrow> ('m, 'c, 'x) TuiRun \<Rightarrow> bool"
  for send recv name deflate inflate restore where
  loops: "\<not> tmReturned r \<Longrightarrow> tui_step send recv name deflate inflate (tmState r) st \<Longrightarrow>
     run_step send recv name deflate inflate restore r (r\<lparr>tmState := st\<rparr>)"
| quit: "\<not> tmReturned r \<Longrightarrow> run_key send deflate stamp time n buf (fst (tmState r)) = None \<Longrightarrow>
     run_step send recv name deflate inflate restore r (Run_return restore r)"
| packet: "tmReturned r \<Longrightarrow> tmState r = (s, b) \<Longrightarrow> recv (scClient s) x c \<Longrightarrow>
     tui_recv_round inflate x (s\<lparr>scClient := c\<rparr>, b) = (ended, st) \<Longrightarrow>
     run_step send recv name deflate inflate restore r (r\<lparr>tmState := st\<rparr>)"
| heartbeat: "tmReturned r \<Longrightarrow> tmState r = (s, b) \<Longrightarrow>
     run_step send recv name deflate inflate restore r (r\<lparr>tmState := (tui_heartbeat send name time s, b)\<rparr>)"

section \<open>What the terminal is left with\<close>

definition terminal_inv :: "('m \<Rightarrow> 'm \<Rightarrow> 'm) \<Rightarrow> 'm \<Rightarrow> 'm \<Rightarrow> ('m, 'c, 'e) TuiRun \<Rightarrow> bool" where
  "terminal_inv restore state raw r \<longleftrightarrow> tmOrigState r = Some state \<and> tmHidden r = (\<not> tmReturned r) \<and>
     tmMode r = (if tmReturned r then restore state raw else raw)"

lemma run_step_inv:
  "run_step send recv name deflate inflate restore r t \<Longrightarrow> terminal_inv restore state raw r \<Longrightarrow> terminal_inv restore state raw t"
  by (induction rule: run_step.induct) (auto simp add: terminal_inv_def Run_return_def disableRawMode_def)

interpretation terminal: invariant_system "run_step send recv name deflate inflate restore" "terminal_inv restore state raw"
  for send recv name deflate inflate restore state raw
  by unfold_locales (rule run_step_inv)

text \<open>
  While \<open>Run\<close> has not returned the terminal is raw with the cursor hidden; then it is back in its mode with
  the cursor shown, whatever the two other loops still do.
\<close>

lemma terminal_put_back:
  assumes "\<And>m. restore state m = state" and "makeRaw state = Some (state, raw)" and "Run_begin makeRaw r = Some r\<^sub>0"
    and "tmMode r = state" and "\<not> tmReturned r" and "(run_step send recv name deflate inflate restore)\<^sup>*\<^sup>* r\<^sub>0 t"
  shows "if tmReturned t then tmMode t = state \<and> \<not> tmHidden t else tmMode t = raw \<and> tmHidden t"
proof -
  have "terminal_inv restore state raw r\<^sub>0"
    using assms(2-5) by (auto simp add: Run_begin_def enableRawMode_def terminal_inv_def)
  from terminal.run_inv [OF assms(6) this] show ?thesis using assms(1) by (simp add: terminal_inv_def)
qed

text \<open>
  A frame has no carriage return: its lines end with a newline alone, which in raw mode moves down
  without going back to the first column.
\<close>

lemma digit_char_no_return: "d < 16 \<Longrightarrow> digit_char d \<noteq> 13"
proof -
  assume "d < 16"
  then have "d \<in> set [0..<16]" by simp
  moreover have "\<forall>d\<in>set [0..<16]. digit_char d \<noteq> 13" by code_simp
  ultimately show ?thesis by blast
qed

lemma fmt_d_no_return: "13 \<notin> set (fmt_d i)"
proof -
  have "d < 16" if "d \<in> set (digits 10 n)" for d n using digits_less [OF _ that] by simp
  then show ?thesis using digit_char_no_return by (fastforce simp add: fmt_d_def)
qed

lemma frame_without_return:
  assumes "renderLocked txt s = Some f" and "13 \<notin> set (txt (Status s))"
  shows "13 \<notin> set f"
proof -
  have c: "13 \<notin> set (cell s x y)" for x y
    by (simp add: cell_def escape_def block_def gostr_def)
  have "13 \<notin> set (frame_row s y)" for y
    using c by (auto simp add: frame_row_def vertical_def)
  with assms show ?thesis using fmt_d_no_return
    by (auto simp add: renderLocked_def go_repeat_def escape_def gostr_def dot_def horizontal_def top_left_def
        top_right_def bottom_left_def bottom_right_def Let_def split: option.splits if_splits)
qed

end
