(* ===== verification/Watchers.thy ===== *)
theory Watchers
  imports Forward
begin

text \<open>
  Two loops of \<open>src/main.go\<close> beside the session: the waits of the keep-awake loop
  \<open>runMouseJiggler\<close>, and \<open>emergencyKillSwitch\<close>, which the program does not call.
\<close>

section \<open>The keep-awake loop\<close>

text \<open>
  A round is the random number below 31 that is drawn for the wait and whether the context ends
  during it; the result has the waits (in nanoseconds) with the keys that were tapped.
\<close>

definition jiggler_wait :: "nat \<Rightarrow> int" where
  "jiggler_wait r = (30 + int r) * 1000000000"

fun runMouseJiggler ::
  "('s \<Rightarrow> gostring option \<times> 's) option \<Rightarrow> (nat \<times> bool) list \<Rightarrow> 's \<Rightarrow> (int \<times> gostring) list \<times> 's" where
  "runMouseJiggler tick [] s = ([], s)"
| "runMouseJiggler tick ((r, done) # rounds) s =
    (if done then ([], s)
     else
       (let (key, s) = (case tick of None \<Rightarrow> (None, s) | Some tick \<Rightarrow> tick s);
            (taps, s) = runMouseJiggler tick rounds s
        in (case key of None \<Rightarrow> taps | Some k \<Rightarrow> (jiggler_wait r, k) # taps, s)))"

text \<open>Every tap comes 30 to 60 seconds after the one before, and at most one in each round.\<close>

lemma jiggler_waits:
  "\<forall>(r, d)\<in>set rounds. r < 31 \<Longrightarrow>
   (\<forall>(w, k)\<in>set (fst (runMouseJiggler tick rounds s)). 30000000000 \<le> w \<and> w \<le> 60000000000) \<and>
   length (fst (runMouseJiggler tick rounds s)) \<le> length (takeWhile (\<lambda>(r, d). \<not> d) rounds)"
proof (induction rounds arbitrary: s)
  case (Cons x rounds)
  obtain r d where x: "x = (r, d)" by fastforce
  obtain key s1 where k: "(case tick of None \<Rightarrow> (None, s) | Some tick \<Rightarrow> tick s) = (key, s1)" by fastforce
  have "30000000000 \<le> jiggler_wait r \<and> jiggler_wait r \<le> 60000000000"
    using Cons.prems x by (simp add: jiggler_wait_def)
  then show ?case using Cons.IH [of s1] Cons.prems x k
    by (auto simp add: split_beta split: option.split)
qed simp

section \<open>The kill switch\<close>

definition pause_pressed :: "bytes \<Rightarrow> bool" where
  "pause_pressed buf =
    (let code = ucast (buf ! 18) OR push_bit 8 (ucast (buf ! 19)) :: u16;
         value = ucast (buf ! 20) OR push_bit 8 (ucast (buf ! 21)) OR push_bit 16 (ucast (buf ! 22)) OR
                 push_bit 24 (ucast (buf ! 23)) :: i32;
         evType = ucast (buf ! 16) OR push_bit 8 (ucast (buf ! 17)) :: u16
     in evType = 1 \<and> code = 119 \<and> value = 1)"

text \<open>The rounds of its loop: whether the context has ended, and what the read gives.\<close>

fun kill_loop :: "(bool \<times> bytes option) list \<Rightarrow> EvdevCapture \<Rightarrow> bool \<times> EvdevCapture" where
  "kill_loop [] e = (False, e)"
| "kill_loop ((done, got) # rounds) e =
    (if done then (False, e)
     else case got of
            None \<Rightarrow> (False, e)
          | Some buf \<Rightarrow> if pause_pressed buf then (True, Evdev_Close e) else kill_loop rounds e)"

text \<open>\<open>opens\<close> tells which paths \<open>os.Open\<close> opens, \<open>event7\<close> whether \<open>os.Stat\<close> finds the default one.\<close>

definition emergencyKillSwitch ::
  "bool \<Rightarrow> gostring list option \<Rightarrow> (gostring \<Rightarrow> Node option) \<Rightarrow> (gostring \<Rightarrow> bool) \<Rightarrow> (gostring \<Rightarrow> (bool \<times> bytes option) list)
   \<Rightarrow> EvdevCapture \<Rightarrow> bool \<times> EvdevCapture" where
  "emergencyKillSwitch event7 glob nodes opens reads e =
    (let kbdPath = gostr ''/dev/input/event7'';
         kbdPath = (if event7 then kbdPath else case FindKeyboardDevice glob nodes of Inr path \<Rightarrow> path | Inl _ \<Rightarrow> kbdPath)
     in if \<not> opens kbdPath then (False, e) else kill_loop (reads kbdPath) e)"

text \<open>Its test of the bytes is that of \<open>runSingleKeyboardLoop\<close> on the parsed event.\<close>

lemma pause_pressed_event:
  assumes "24 \<le> length buf"
  shows "pause_pressed buf \<longleftrightarrow>
    evType (parseEvent buf) = EV_KEY \<and> evCode (parseEvent buf) = 119 \<and> evValue (parseEvent buf) = 1"
proof -
  have g: "gosub 16 18 buf = [buf ! 16, buf ! 17]" "gosub 18 20 buf = [buf ! 18, buf ! 19]"
    "gosub 20 24 buf = [buf ! 20, buf ! 21, buf ! 22, buf ! 23]"
    using assms by (auto intro!: nth_equalityI simp add: length_gosub nth_gosub less_Suc_eq numeral_eq_Suc)
  show ?thesis
    by (simp add: pause_pressed_def parseEvent_def g Let_def push_bit_or push_bit_push_bit or.assoc)
qed

text \<open>It exits only on a press of the pause key that it has read, and then has released everything.\<close>

lemma kill_switch_exits:
  "kill_loop rounds e = (True, e') \<Longrightarrow>
   e' = Evdev_Close e \<and> (\<exists>buf. (False, Some buf) \<in> set rounds \<and> pause_pressed buf)"
  by (induction rounds e rule: kill_loop.induct) (auto split: if_splits option.splits)

end
