(* ===== verification/Races.thy ===== *)
theory Races
  imports Runs Evdev
begin

text \<open>
  The capture with its goroutines interleaved.  \<open>input/evdev.go\<close> has a goroutine for each mouse
  and each keyboard, and the receive loop calls \<open>Ungrab\<close>; they share the capture and take its
  mutex for each section separately.  Here every section under the mutex, and every callback made
  outside it, is one action, with the local variables of the goroutine in its program counter.
  The main lemmas: run without interruption the actions are the handlers of \<open>Evdev\<close>; under every
  interleaving the grabs stay what they should be; the active keyboard does not.
\<close>

section \<open>A keyboard goroutine\<close>

text \<open>
  The points of \<open>runSingleKeyboardLoop\<close> between two sections, with its variables \<open>ev\<close>, \<open>isRemote\<close>
  and \<open>activeKbd\<close>: waiting in \<open>Read\<close>; an event was read; the key was tracked; \<open>hasWin\<close> is read
  next; \<open>Ungrab\<close> and then \<open>OnReturn\<close>; \<open>Grab\<close> and then \<open>OnEdgeHit\<close>; the rest of the body;
  \<open>OnKeyEvent\<close>; \<open>OnButtonEvent\<close>.
\<close>

datatype kpc =
    KRead
  | KEvent InputEvent
  | KTracked InputEvent bool "nat option"
  | KWin InputEvent bool "nat option"
  | KUngrab
  | KReturn
  | KGrab
  | KEdge
  | KRest InputEvent bool "nat option"
  | KForward InputEvent
  | KButton InputEvent

definition button_section ::
  "(gostring \<Rightarrow> gostring) \<Rightarrow> (gostring \<Rightarrow> gostring) \<Rightarrow> (nat \<Rightarrow> bool) \<Rightarrow> int \<Rightarrow> nat \<Rightarrow> InputEvent \<Rightarrow> EvdevCapture
   \<Rightarrow> kpc \<times> EvdevCapture" where
  "button_section trim lower ok now dev ev e =
    (if \<not> IsRemote e then (KRead, e)
     else case mouseSourceForKeyboardButton trim lower dev e of
            None \<Rightarrow> (KRead, e)
          | Some sourceMouse \<Rightarrow>
              (let e = activate_mouse ok now sourceMouse ev e
               in (if activeMouseDev e = Some sourceMouse then KButton ev else KRead, e)))"

fun kbd_action ::
  "(gostring \<Rightarrow> gostring) \<Rightarrow> (gostring \<Rightarrow> gostring) \<Rightarrow> (nat \<Rightarrow> bool) \<Rightarrow> u16 list \<Rightarrow> int \<Rightarrow> nat
   \<Rightarrow> kpc \<Rightarrow> EvdevCapture \<Rightarrow> kpc \<times> EvdevCapture \<times> callback list" where
  "kbd_action trim lower ok order now dev KRead e = (KRead, e, [])"
| "kbd_action trim lower ok order now dev (KEvent ev) e =
    (if evType ev \<noteq> EV_KEY then (KRead, e, [])
     else if evValue ev = 2 then (KRead, e, [])
     else if isMouseButtonCode (evCode ev) then
       (let (pc, e) = button_section trim lower ok now dev ev e in (pc, e, []))
     else
       (let e = e\<lparr>ecPressedKeys := pressed_after ev e\<rparr>
        in (KTracked ev (IsRemote e) (activeKbdDev e), e, [])))"
| "kbd_action trim lower ok order now dev (KTracked ev isRemote activeKbd) e =
    ((if (evCode ev = 59 \<or> evCode ev = 60) \<and> evValue ev = 1 then KWin else KRest) ev isRemote activeKbd, e,
     if evCode ev = 119 \<and> evValue ev = 1 then call e OnEmergency Emergency else [])"
| "kbd_action trim lower ok order now dev (KWin ev isRemote activeKbd) e =
    (if hasWin e then (if isRemote then KUngrab else KGrab) else KRest ev isRemote activeKbd, e, [])"
| "kbd_action trim lower ok order now dev KUngrab e = (KReturn, Ungrab e, [])"
| "kbd_action trim lower ok order now dev KReturn e = (KRead, e, call e OnReturn ReturnToLocal)"
| "kbd_action trim lower ok order now dev KGrab e = (let (e, rel) = Grab ok order None e in (KEdge, e, rel))"
| "kbd_action trim lower ok order now dev KEdge e = (KRead, e, call e OnEdgeHit EdgeHit)"
| "kbd_action trim lower ok order now dev (KRest ev isRemote activeKbd) e =
    (if \<not> isRemote then (KRead, e, [])
     else if activeKbd = None \<and> evValue ev = 1 then (KForward ev, e\<lparr>activeKbdDev := Some dev\<rparr>, [])
     else if activeKbd \<noteq> Some dev then (KRead, e, [])
     else (KForward ev, e, []))"
| "kbd_action trim lower ok order now dev (KForward ev) e =
    (KRead, e, call e OnKeyEvent (KeyEvent (evCode ev) (evValue ev = 1)))"
| "kbd_action trim lower ok order now dev (KButton ev) e =
    (KRead, e, call e OnButtonEvent (ButtonEvent (evCode ev) (evValue ev = 1)))"

section \<open>A mouse goroutine\<close>

datatype mpc = MRead | MEvent InputEvent | MRemote InputEvent | MLocal InputEvent

fun mouse_action ::
  "(nat \<Rightarrow> bool) \<Rightarrow> int \<Rightarrow> nat \<Rightarrow> mpc \<Rightarrow> EvdevCapture \<Rightarrow> mpc \<times> EvdevCapture \<times> callback list" where
  "mouse_action ok now dev MRead e = (MRead, e, [])"
| "mouse_action ok now dev (MEvent ev) e =
    (if IsRemote e then
       (let e = activate_mouse ok now dev ev e
        in (if activeMouseDev e = Some dev then MRemote ev else MRead, e, []))
     else (MLocal ev, e, []))"
| "mouse_action ok now dev (MRemote ev) e = (MRead, e, handleRemoteMouseEvent ev e)"
| "mouse_action ok now dev (MLocal ev) e = (MRead, handleLocalMouseEvent ev e, [])"

section \<open>All goroutines\<close>

record Race =
  rCap :: EvdevCapture
  rKbd :: "nat \<Rightarrow> kpc"
  rMouse :: "nat \<Rightarrow> mpc"

definition idle :: "EvdevCapture \<Rightarrow> Race" where
  "idle e = \<lparr>rCap = e, rKbd = (\<lambda>_. KRead), rMouse = (\<lambda>_. MRead)\<rparr>"

text \<open>
  \<open>Read\<close> returns an event, a goroutine performs its next action, or the receive loop calls
  \<open>Ungrab\<close>.  \<open>Grab\<close> meets every pressed key once.
\<close>

inductive race_step ::
  "(gostring \<Rightarrow> gostring) \<Rightarrow> (gostring \<Rightarrow> gostring) \<Rightarrow> Race \<Rightarrow> callback list \<Rightarrow> Race \<Rightarrow> bool"
  for trim lower where
  kbd_read: "dev \<in> set (kbdDevs (rCap s)) \<Longrightarrow> rKbd s dev = KRead \<Longrightarrow>
     race_step trim lower s [] (s\<lparr>rKbd := (rKbd s)(dev := KEvent ev)\<rparr>)"
| kbd_act: "dev \<in> set (kbdDevs (rCap s)) \<Longrightarrow> distinct order \<Longrightarrow> set order = ecPressedKeys (rCap s) \<Longrightarrow>
     kbd_action trim lower ok order now dev (rKbd s dev) (rCap s) = (pc, e, cs) \<Longrightarrow>
     race_step trim lower s cs (s\<lparr>rCap := e, rKbd := (rKbd s)(dev := pc)\<rparr>)"
| mouse_read: "dev \<in> set (mouseDevs (rCap s)) \<Longrightarrow> rMouse s dev = MRead \<Longrightarrow>
     race_step trim lower s [] (s\<lparr>rMouse := (rMouse s)(dev := MEvent ev)\<rparr>)"
| mouse_act: "dev \<in> set (mouseDevs (rCap s)) \<Longrightarrow>
     mouse_action ok now dev (rMouse s dev) (rCap s) = (pc, e, cs) \<Longrightarrow>
     race_step trim lower s cs (s\<lparr>rCap := e, rMouse := (rMouse s)(dev := pc)\<rparr>)"
| release: "race_step trim lower s [] (s\<lparr>rCap := Ungrab (rCap s)\<rparr>)"

section \<open>Without interruption\<close>

primrec kbd_alone ::
  "(gostring \<Rightarrow> gostring) \<Rightarrow> (gostring \<Rightarrow> gostring) \<Rightarrow> (nat \<Rightarrow> bool) \<Rightarrow> u16 list \<Rightarrow> int \<Rightarrow> nat \<Rightarrow> nat
   \<Rightarrow> kpc \<Rightarrow> EvdevCapture \<Rightarrow> kpc \<times> EvdevCapture \<times> callback list" where
  "kbd_alone trim lower ok order now dev 0 pc e = (pc, e, [])"
| "kbd_alone trim lower ok order now dev (Suc n) pc e =
    (let (pc, e, cs) = kbd_action trim lower ok order now dev pc e;
         (pc, e, ds) = kbd_alone trim lower ok order now dev n pc e
     in (pc, e, cs @ ds))"

primrec mouse_alone ::
  "(nat \<Rightarrow> bool) \<Rightarrow> int \<Rightarrow> nat \<Rightarrow> nat \<Rightarrow> mpc \<Rightarrow> EvdevCapture \<Rightarrow> mpc \<times> EvdevCapture \<times> callback list" where
  "mouse_alone ok now dev 0 pc e = (pc, e, [])"
| "mouse_alone ok now dev (Suc n) pc e =
    (let (pc, e, cs) = mouse_action ok now dev pc e; (pc, e, ds) = mouse_alone ok now dev n pc e
     in (pc, e, cs @ ds))"

lemma kbd_alone_read [simp]: "kbd_alone trim lower ok order now dev n KRead e = (KRead, e, [])"
  by (induction n) simp_all

lemma kbd_alone_button:
  "kbd_alone trim lower ok order now dev (Suc (Suc n)) (KEvent ev) e =
     (KRead, keyboard_mouse_button trim lower ok now dev ev e)"
  if "evType ev = EV_KEY" and "evValue ev \<noteq> 2" and "isMouseButtonCode (evCode ev)"
  using that by (simp add: Let_def button_section_def keyboard_mouse_button_def call_def split: option.split)

text \<open>One action, then the others.\<close>

lemma kbd_alone_step:
  assumes "kbd_action trim lower ok order now dev pc e = (pc1, e1, cs)"
    and "kbd_alone trim lower ok order now dev n pc1 e1 = (pc2, e2, ds)"
  shows "kbd_alone trim lower ok order now dev (Suc n) pc e = (pc2, e2, cs @ ds)"
  using assms by simp

lemma kbd_alone_rest:
  "kbd_alone trim lower ok order now dev (Suc (Suc n)) (KRest ev r a) e =
    (KRead,
     if \<not> r then (e, [])
     else if a = None \<and> evValue ev = 1
       then (e\<lparr>activeKbdDev := Some dev\<rparr>, call e OnKeyEvent (KeyEvent (evCode ev) True))
     else (e, if a = Some dev then call e OnKeyEvent (KeyEvent (evCode ev) (evValue ev = 1)) else []))"
  by (simp add: call_def)

lemma kbd_alone_tracked:
  assumes "\<not> ((evCode ev = 59 \<or> evCode ev = 60) \<and> evValue ev = 1 \<and> hasWin e)"
    and "kbd_alone trim lower ok order now dev (Suc (Suc n)) (KRest ev r a) e = (KRead, e2, ds)"
    and "kbd_alone trim lower ok order now dev (Suc (Suc (Suc n))) (KRest ev r a) e = (KRead, e2, ds)"
  shows "kbd_alone trim lower ok order now dev (Suc (Suc (Suc (Suc n)))) (KTracked ev r a) e =
    (KRead, e2, pause_call ev e @ ds)"
proof (cases "(evCode ev = 59 \<or> evCode ev = 60) \<and> evValue ev = 1")
  case True
  have 1: "kbd_action trim lower ok order now dev (KTracked ev r a) e = (KWin ev r a, e, pause_call ev e)"
    using True by (auto simp add: pause_call_def)
  have 2: "kbd_action trim lower ok order now dev (KWin ev r a) e = (KRest ev r a, e, [])"
    using True assms(1) by auto
  show ?thesis using kbd_alone_step [OF 1 kbd_alone_step [OF 2 assms(2)]] by simp
next
  case False
  have 1: "kbd_action trim lower ok order now dev (KTracked ev r a) e = (KRest ev r a, e, pause_call ev e)"
    using False by (auto simp add: pause_call_def)
  show ?thesis by (rule kbd_alone_step [OF 1 assms(3)])
qed

lemma kbd_alone_key:
  assumes "evType ev = EV_KEY" and "evValue ev \<noteq> 2" and "\<not> isMouseButtonCode (evCode ev)"
  shows "kbd_alone trim lower ok order now dev (Suc (Suc (Suc (Suc (Suc n))))) (KEvent ev) e =
    (KRead, keyboard_loop_step trim lower ok order now dev ev e)"
proof -
  let ?e1 = "e\<lparr>ecPressedKeys := pressed_after ev e\<rparr>"
  let ?win = "(evCode ev = 59 \<or> evCode ev = 60) \<and> evValue ev = 1"
  let ?a = "kbd_alone trim lower ok order now dev"
  have w: "?win \<Longrightarrow> hasWin ?e1 \<longleftrightarrow> 125 \<in> ecPressedKeys e \<or> 126 \<in> ecPressedKeys e"
    by (auto simp add: hasWin_def pressed_after_def)
  have c: "call ?e1 f x = call e f x" "call (Ungrab ?e1) f x = call e f x"
    "call (fst (Grab ok order None ?e1)) f x = call e f x" "pause_call ev ?e1 = pause_call ev e" for f x
    by (simp_all add: call_def pause_call_def ecOn_Grab ecOn_Ungrab)
  note eq = keyboard_loop_step_eq [OF assms, of trim lower ok order now dev e]
  have 1: "kbd_action trim lower ok order now dev (KEvent ev) e = (KTracked ev (IsRemote e) (activeKbdDev e), ?e1, [])"
    using assms by simp
  show ?thesis
  proof (cases "?win \<and> hasWin ?e1")
    case True
    then have sc: "shortcut ev e" using w by (simp add: shortcut_def)
    have 2: "kbd_action trim lower ok order now dev (KTracked ev r a) ?e1 = (KWin ev r a, ?e1, [])" for r a
      using True by auto
    have 3: "kbd_action trim lower ok order now dev (KWin ev r a) ?e1 = (if r then KUngrab else KGrab, ?e1, [])" for r a
      using True by simp
    have "?a (Suc (Suc n)) (if IsRemote e then KUngrab else KGrab) ?e1 =
        (KRead, keyboard_loop_step trim lower ok order now dev ev e)"
      unfolding eq using sc by (simp add: Let_def c split_beta)
    then show ?thesis
      using kbd_alone_step [OF 1 kbd_alone_step [OF 2 kbd_alone_step [OF 3]]]
      by (metis append_Nil prod.collapse)
  next
    case False
    then have sc: "\<not> shortcut ev e" and nw: "\<not> (?win \<and> hasWin ?e1)" using w by (auto simp add: shortcut_def)
    obtain e2 ds where r: "?a (Suc (Suc m)) (KRest ev (IsRemote e) (activeKbdDev e)) ?e1 = (KRead, e2, ds)" for m
      unfolding kbd_alone_rest by (metis prod.collapse)
    have k: "keyboard_loop_step trim lower ok order now dev ev e = (e2, pause_call ev e @ ds)"
      using r [of 0] sc unfolding kbd_alone_rest eq by (auto simp add: Let_def c split: if_splits)
    have nw': "\<not> ((evCode ev = 59 \<or> evCode ev = 60) \<and> evValue ev = 1 \<and> hasWin ?e1)" using nw by blast
    show ?thesis using kbd_alone_step [OF 1 kbd_alone_tracked [OF nw' r r]] k c by simp
  qed
qed

lemma kbd_alone_event:
  "kbd_alone trim lower ok order now dev 5 (KEvent ev) e = (KRead, keyboard_loop_step trim lower ok order now dev ev e)"
proof -
  have s5: "5 = Suc (Suc (Suc (Suc (Suc 0))))" by simp
  show "kbd_alone trim lower ok order now dev 5 (KEvent ev) e = (KRead, keyboard_loop_step trim lower ok order now dev ev e)"
  proof (cases "evType ev = EV_KEY \<and> evValue ev \<noteq> 2")
    case True
    then have k: "evType ev = EV_KEY" "evValue ev \<noteq> 2" by simp_all
    show ?thesis
    proof (cases "isMouseButtonCode (evCode ev)")
      case True
      then have "keyboard_loop_step trim lower ok order now dev ev e = keyboard_mouse_button trim lower ok now dev ev e"
        using k by (simp add: keyboard_loop_step_def)
      then show ?thesis using kbd_alone_button [OF k True] s5 by metis
    next
      case False
      then show ?thesis using kbd_alone_key [OF k False] s5 by metis
    qed
  next
    case False
    then show ?thesis unfolding s5 by (auto simp add: keyboard_loop_step_def)
  qed
qed

lemma mouse_alone_event: "mouse_alone ok now m 2 (MEvent ev) e = (MRead, mouse_loop_step ok now m ev e)"
proof -
  have s2: "2 = Suc (Suc 0)" by simp
  show "mouse_alone ok now m 2 (MEvent ev) e = (MRead, mouse_loop_step ok now m ev e)"
    unfolding s2 mouse_loop_step_def by (simp add: Let_def split_beta)
qed


section \<open>What every interleaving keeps\<close>

text \<open>
  The invariant of the capture, with one exception: in local mode there may be an active keyboard.
\<close>

definition race_inv :: "EvdevCapture \<Rightarrow> bool" where
  "race_inv e \<longleftrightarrow> devices_ok e \<and> in_sync e \<and>
     (\<forall>i\<in>ecKernel e. activeMouseDev e = Some i \<or>
        i \<in> set (kbdDevs e) \<and> \<not> isMouseDevicePath (dPath (hInfo (handle e i))) e) \<and>
     (\<forall>m. activeMouseDev e = Some m \<longrightarrow> m \<in> set (mouseDevs e)) \<and>
     (\<forall>k. activeKbdDev e = Some k \<longrightarrow> k \<in> set (kbdDevs e)) \<and>
     (\<not> IsRemote e \<longrightarrow> ecKernel e = {} \<and> activeMouseDev e = None \<and> pendingMouse e = None)"

lemma capture_race_inv: "capture_inv e \<longleftrightarrow> race_inv e \<and> (\<not> IsRemote e \<longrightarrow> activeKbdDev e = None)"
  by (auto simp add: capture_inv_def race_inv_def)

lemma race_inv_remote: "IsRemote e \<Longrightarrow> race_inv e \<longleftrightarrow> capture_inv e"
  by (simp add: capture_race_inv)

lemma race_invD:
  assumes "race_inv e"
  shows "devices_ok e" and "in_sync e" and "ecKernel e \<subseteq> set (mouseDevs e) \<union> set (kbdDevs e)"
  using assms by (auto simp add: race_inv_def)

lemma race_inv_fields [simp]:
  "race_inv (e\<lparr>ecPressedKeys := p\<rparr>) = race_inv e"
  "race_inv (e\<lparr>ecCursorX := x\<rparr>) = race_inv e" "race_inv (e\<lparr>ecCursorY := x\<rparr>) = race_inv e"
  by (simp_all add: race_inv_def devices_ok_def in_sync_def isMouseDevicePath_def)

lemma race_inv_kbd:
  "race_inv e \<Longrightarrow> dev \<in> set (kbdDevs e) \<Longrightarrow> race_inv (e\<lparr>activeKbdDev := Some dev\<rparr>)"
  by (simp add: race_inv_def devices_ok_def in_sync_def isMouseDevicePath_def)

lemma Ungrab_race_inv: "race_inv e \<Longrightarrow> race_inv (Ungrab e)"
  using Ungrab_inv race_invD [of e] capture_race_inv by blast

text \<open>\<open>Grab\<close> from the keyboard, also when another goroutine entered remote mode first.\<close>

lemma Grab_race_inv:
  assumes "race_inv e"
  shows "race_inv (fst (Grab ok order None e))"
    and "activeKbdDev (fst (Grab ok order None e)) = activeKbdDev e"
    and "IsRemote (fst (Grab ok order None e))" and "kbdDevs (fst (Grab ok order None e)) = kbdDevs e"
    and "mouseDevs (fst (Grab ok order None e)) = mouseDevs e"
proof -
  let ?r = "resetPendingMouse e"
  let ?g = "fold (grab_keyboard ok) (kbdDevs ?r) ?r"
  have r: "race_inv ?r" using assms
    by (simp add: resetPendingMouse_def race_inv_def devices_ok_def in_sync_def isMouseDevicePath_def)
  have rs: "same_devices e ?r" by (simp add: resetPendingMouse_def same_devices_def)
  have k: "set (kbdDevs ?r) \<subseteq> {..<length (ecDevs ?r)}" using r by (simp add: race_inv_def devices_ok_def)
  note f = fold_grab_keyboard [OF race_invD(2) [OF r] k, of ok]
  have gs: "same_devices ?r ?g" using f by blast
  have path: "isMouseDevicePath p ?g = isMouseDevicePath p ?r" for p
    using isMouseDevicePath_same [OF gs] .
  have G: "fst (Grab ok order None e) = ?g\<lparr>IsRemote := True, ecPressedKeys := ecPressedKeys ?g - set order\<rparr>"
    by (simp add: Grab_def Let_def)
  have mp: "isMouseDevicePath p (?g\<lparr>IsRemote := True, ecPressedKeys := q\<rparr>) = isMouseDevicePath p ?r" for p q
    using path by (simp add: isMouseDevicePath_def)
  show "race_inv (fst (Grab ok order None e))"
    unfolding G race_inv_def mp
    using f gs devices_ok_same [OF gs] r
    by (auto simp add: race_inv_def same_devices_def devices_ok_def in_sync_def)
  show "activeKbdDev (fst (Grab ok order None e)) = activeKbdDev e" "IsRemote (fst (Grab ok order None e))"
    "kbdDevs (fst (Grab ok order None e)) = kbdDevs e" "mouseDevs (fst (Grab ok order None e)) = mouseDevs e"
    unfolding G using gs rs by (simp_all add: same_devices_def)
qed

lemma activate_mouse_race_inv:
  "race_inv e \<Longrightarrow> IsRemote e \<Longrightarrow> s \<in> set (mouseDevs e) \<Longrightarrow> race_inv (activate_mouse ok now s ev e)"
  using activate_mouse_inv race_inv_remote capture_race_inv by blast

lemma button_section_inv:
  "race_inv e \<Longrightarrow> button_section trim lower ok now dev ev e = (pc, e') \<Longrightarrow> race_inv e'"
  using activate_mouse_race_inv mouseSource_in
  by (auto simp add: button_section_def Let_def split: if_splits option.splits)

lemma kbd_action_inv:
  assumes "race_inv e" and "dev \<in> set (kbdDevs e)"
    and "kbd_action trim lower ok order now dev pc e = (pc', e', cs)"
  shows "race_inv e'"
proof (cases pc)
  case (KEvent ev)
  then show ?thesis using assms button_section_inv [OF assms(1)]
    by (auto simp add: Let_def split: if_splits prod.splits)
next
  case KGrab
  then show ?thesis using assms Grab_race_inv(1) [OF assms(1), of ok order] by (simp add: split_beta)
qed (use assms Ungrab_race_inv race_inv_kbd in \<open>auto split: if_splits\<close>)

lemma mouse_action_inv:
  assumes "race_inv e" and "dev \<in> set (mouseDevs e)" and "mouse_action ok now dev pc e = (pc', e', cs)"
  shows "race_inv e'"
proof (cases pc)
  case (MEvent ev)
  then show ?thesis using assms activate_mouse_race_inv [OF assms(1) _ assms(2), of ok now ev]
    by (auto simp add: Let_def split: if_splits)
qed (use assms in \<open>auto simp add: handleLocalMouseEvent_def split: if_splits\<close>)

lemma race_step_inv: "race_step trim lower s cs t \<Longrightarrow> race_inv (rCap s) \<Longrightarrow> race_inv (rCap t)"
proof (induction rule: race_step.induct)
  case (kbd_act dev s order ok now pc e cs)
  then show ?case using kbd_action_inv [of "rCap s" dev] by simp
next
  case (mouse_act dev s ok now pc e cs)
  then show ?case using mouse_action_inv [of "rCap s" dev] by simp
qed (simp_all add: Ungrab_race_inv)

interpretation race: labelled_invariant "race_step trim lower" "\<lambda>s. race_inv (rCap s)" for trim lower
  by unfold_locales (rule race_step_inv)

text \<open>However the goroutines of the capture and the releases by the receive loop interleave, what
  the kernel has grabbed is what the handles say; in local mode that is nothing and no mouse is
  active; in remote mode it is at most the active mouse and keyboards that are not also a mouse.\<close>

lemma race_safe:
  assumes "DiscoverAndOpen glob nodes opens (NewEvdevCapture w h) = (r, e0)"
    and "lrun (race_step trim lower) (idle (e0\<lparr>ecOn := cbs\<rparr>)) cs s"
  shows "(\<forall>i<length (ecDevs (rCap s)). hGrabbed (handle (rCap s) i) \<longleftrightarrow> i \<in> ecKernel (rCap s)) \<and>
    (\<not> IsRemote (rCap s) \<longrightarrow> ecKernel (rCap s) = {} \<and> activeMouseDev (rCap s) = None) \<and>
    (\<forall>i\<in>ecKernel (rCap s). activeMouseDev (rCap s) = Some i \<or>
       i \<in> set (kbdDevs (rCap s)) \<and> \<not> isMouseDevicePath (dPath (hInfo (handle (rCap s) i))) (rCap s))"
proof -
  have "capture_inv (e0\<lparr>ecOn := cbs\<rparr>)"
    using DiscoverAndOpen_inv [OF _ _ assms(1)] NewEvdevCapture_inv
    by (simp add: capture_inv_def devices_ok_def in_sync_def isMouseDevicePath_def)
  then have "race_inv (rCap (idle (e0\<lparr>ecOn := cbs\<rparr>)))" by (simp add: capture_race_inv idle_def)
  from race.run_keeps [OF assms(2) this] show ?thesis by (simp add: race_inv_def in_sync_def)
qed

section \<open>What an interleaving breaks\<close>

text \<open>
  The actions of one keyboard goroutine whose press is read in remote mode, with the release by
  the receive loop between the section that reads \<open>IsRemote\<close> and the one that sets the active
  keyboard.
\<close>

definition plain_key :: "u16 \<Rightarrow> bool" where
  "plain_key c \<longleftrightarrow> \<not> isMouseButtonCode c \<and> c \<noteq> 59 \<and> c \<noteq> 60 \<and> c \<noteq> 119"

lemma race_kbd_act:
  assumes "dev \<in> set (kbdDevs (rCap s))" and "finite (ecPressedKeys (rCap s))"
    and "\<And>order. kbd_action trim lower ok order now dev (rKbd s dev) (rCap s) = (pc, e, cs)"
  shows "race_step trim lower s cs (s\<lparr>rCap := e, rKbd := (rKbd s)(dev := pc)\<rparr>)"
proof -
  obtain order where "distinct order" "set order = ecPressedKeys (rCap s)"
    using finite_distinct_list [OF assms(2)] by blast
  then show ?thesis using race_step.kbd_act [OF assms(1) _ _ assms(3)] by blast
qed

lemma stale_run:
  fixes e :: EvdevCapture
  assumes "race_inv e" and "IsRemote e" and "activeKbdDev e = None" and "OnKeyEvent \<in> ecOn e"
    and "k \<in> set (kbdDevs e)" and "plain_key c"
  defines "e1 \<equiv> (Ungrab (e\<lparr>ecPressedKeys := insert c (ecPressedKeys e)\<rparr>))\<lparr>activeKbdDev := Some k\<rparr>"
  shows "lrun (race_step trim lower) (idle e) [[], [], [], [], [], [KeyEvent c True]] (idle e1)"
proof -
  let ?ev = "sample_event c 1"
  let ?step = "race_step trim lower"
  let ?e0 = "e\<lparr>ecPressedKeys := insert c (ecPressedKeys e)\<rparr>"
  let ?u = "Ungrab ?e0"
  let ?s = "\<lambda>e pc. (idle e)\<lparr>rKbd := (rKbd (idle e))(k := pc)\<rparr>"
  have i0: "race_inv ?e0" using assms(1) by simp
  note u = Ungrab_local [OF race_invD(2,1,3) [OF i0]]
  have f: "finite (x :: u16 set)" for x by simp
  have kb: "k \<in> set (kbdDevs ?e0)" "k \<in> set (kbdDevs ?u)" "k \<in> set (kbdDevs e1)"
    using assms(5) u(10) by (simp_all add: e1_def)
  have nk: "\<not> isMouseButtonCode c" "c \<noteq> 59" "c \<noteq> 60" "c \<noteq> 119" using assms(6) by (simp_all add: plain_key_def)
  have 1: "?step (idle e) [] (?s e (KEvent ?ev))"
    using race_step.kbd_read [of k "idle e" trim lower ?ev] assms(5) by (simp add: idle_def)
  have 2: "?step (?s e (KEvent ?ev)) [] (?s ?e0 (KTracked ?ev True None))"
    using race_kbd_act [of k "?s e (KEvent ?ev)" trim lower "\<lambda>_. True" 0 "KTracked ?ev True None" ?e0 "[]"] assms(2,3,5) nk f
    by (simp add: idle_def pressed_after_def)
  have 3: "?step (?s ?e0 (KTracked ?ev True None)) [] (?s ?e0 (KRest ?ev True None))"
    using race_kbd_act [of k "?s ?e0 (KTracked ?ev True None)" trim lower "\<lambda>_. True" 0 "KRest ?ev True None" ?e0 "[]"] kb nk f
    by (simp add: idle_def)
  have 4: "?step (?s ?e0 (KRest ?ev True None)) [] (?s ?u (KRest ?ev True None))"
    using race_step.release [of trim lower "?s ?e0 (KRest ?ev True None)"] by (simp add: idle_def)
  have 5: "?step (?s ?u (KRest ?ev True None)) [] (?s e1 (KForward ?ev))"
    using race_kbd_act [of k "?s ?u (KRest ?ev True None)" trim lower "\<lambda>_. True" 0 "KForward ?ev" e1 "[]"] kb f
    by (simp add: idle_def e1_def)
  have "call e1 OnKeyEvent (KeyEvent c True) = [KeyEvent c True]" using assms(4) by (simp add: call_def e1_def ecOn_Ungrab)
  then have 6: "?step (?s e1 (KForward ?ev)) [KeyEvent c True] (idle e1)"
    using race_kbd_act [of k "?s e1 (KForward ?ev)" trim lower "\<lambda>_. True" 0 KRead e1 "[KeyEvent c True]"] kb f
    by (simp add: idle_def fun_upd_idem)
  show ?thesis
    by (rule lrun_cons, rule 1, rule lrun_cons, rule 2, rule lrun_cons, rule 3, rule lrun_cons, rule 4,
        rule lrun_cons, rule 5, rule lrun_one, rule 6)
qed

text \<open>C17: The active keyboard is set without looking at the mode again: if the other machine ends
  remote mode between the sections of a goroutine that handles the press of a key, the press is
  forwarded in local mode and its release is not, the keyboard stays the active one, and
  after the next change to remote mode by the shortcut no other keyboard is forwarded.\<close>

theorem stale_keyboard:
  assumes "capture_inv e" and "IsRemote e" and "activeKbdDev e = None" and "OnKeyEvent \<in> ecOn e"
    and "k \<in> set (kbdDevs e)" and "plain_key c"
  shows "\<exists>e1. lrun (race_step trim lower) (idle e) [[], [], [], [], [], [KeyEvent c True]] (idle e1) \<and>
    \<not> IsRemote e1 \<and> activeKbdDev e1 = Some k \<and>
    (\<forall>ok order now. snd (keyboard_loop_step trim lower ok order now k (sample_event c 0) e1) = []) \<and>
    (\<forall>ok order now ev k2 d p. k2 \<noteq> k \<longrightarrow> IsRemote (fst (Grab ok order None e1)) \<and>
       KeyEvent d p \<notin> set (snd (keyboard_loop_step trim lower ok order now k2 ev (fst (Grab ok order None e1)))))"
proof -
  let ?e0 = "e\<lparr>ecPressedKeys := insert c (ecPressedKeys e)\<rparr>"
  let ?e1 = "(Ungrab ?e0)\<lparr>activeKbdDev := Some k\<rparr>"
  have i: "race_inv e" "race_inv ?e0" using assms(1) by (simp_all add: capture_race_inv)
  note u = Ungrab_local [OF race_invD(2,1,3) [OF i(2)]]
  have i1: "race_inv ?e1" using race_inv_kbd [OF Ungrab_race_inv [OF i(2)]] u(10) assms(5) by simp
  have nk: "\<not> isMouseButtonCode c" "c \<noteq> 59" "c \<noteq> 60" "c \<noteq> 119" using assms(6) by (simp_all add: plain_key_def)
  have "snd (keyboard_loop_step trim lower ok order now k (sample_event c 0) ?e1) = []" for ok order now
    using u(2) nk by (simp add: keyboard_loop_step_eq Let_def shortcut_def pause_call_def)
  moreover have "IsRemote (fst (Grab ok order None ?e1)) \<and>
      KeyEvent d p \<notin> set (snd (keyboard_loop_step trim lower ok order now k2 ev (fst (Grab ok order None ?e1))))"
    if "k2 \<noteq> k" for ok order now ev k2 d p
  proof -
    note g = Grab_race_inv [OF i1, of ok order]
    let ?g = "fst (Grab ok order None ?e1)"
    have a: "activeKbdDev ?g = Some k" "IsRemote ?g" using g by simp_all
    show ?thesis
    proof (cases "evType ev \<noteq> EV_KEY \<or> evValue ev = 2 \<or> isMouseButtonCode (evCode ev)")
      case True
      then show ?thesis using a
        by (auto simp add: keyboard_loop_step_def keyboard_mouse_button_def Let_def call_def split: option.split)
    next
      case False
      then have k: "evType ev = EV_KEY" "evValue ev \<noteq> 2" "\<not> isMouseButtonCode (evCode ev)" by simp_all
      show ?thesis using a that
        by (auto simp add: keyboard_loop_step_eq [OF k] Let_def pause_call_def call_def)
    qed
  qed
  ultimately show ?thesis
    using stale_run [OF i(1) assms(2-6), of trim lower] u(2) by (intro exI [of _ ?e1]) simp
qed

theorem stale_keyboard_witness:
  "\<exists>e1. lrun (race_step id id) (idle (sample_capture True)) [[], [], [], [], [], [KeyEvent 30 True]] (idle e1) \<and>
    \<not> IsRemote e1 \<and> activeKbdDev e1 = Some 1"
proof -
  have "IsRemote (sample_capture True)" "activeKbdDev (sample_capture True) = None" "OnKeyEvent \<in> ecOn (sample_capture True)"
    "1 \<in> set (kbdDevs (sample_capture True))"
    by (simp_all add: sample_capture_def add_kbd_def add_mouse_def NewEvdevCapture_def)
  moreover have "plain_key 30" by (simp add: plain_key_def isMouseButtonCode_def)
  ultimately show ?thesis using stale_keyboard [OF sample_capture_inv, of True 1 30 id id] by blast
qed

section \<open>While a goroutine is inside \<open>Grab\<close>\<close>

text \<open>
  \<open>Grab\<close> sends the releases of the held keys while it has the mutex.  Which actions wait for the
  mutex, and the steps that the others can make until the one inside \<open>Grab\<close> returns.
\<close>

fun kbd_needs_mutex :: "kpc \<Rightarrow> bool" where
  "kbd_needs_mutex (KEvent ev) = (evType ev = EV_KEY \<and> evValue ev \<noteq> 2)"
| "kbd_needs_mutex (KWin ev isRemote activeKbd) = True"
| "kbd_needs_mutex KUngrab = True"
| "kbd_needs_mutex KGrab = True"
| "kbd_needs_mutex (KRest ev isRemote activeKbd) = (isRemote \<and> activeKbd = None \<and> evValue ev = 1)"
| "kbd_needs_mutex _ = False"

fun mouse_needs_mutex :: "mpc \<Rightarrow> bool" where
  "mouse_needs_mutex (MEvent ev) = True"
| "mouse_needs_mutex (MLocal ev) = (evType ev = EV_REL)"
| "mouse_needs_mutex _ = False"

inductive blocked_step ::
  "(gostring \<Rightarrow> gostring) \<Rightarrow> (gostring \<Rightarrow> gostring) \<Rightarrow> nat \<Rightarrow> Race \<Rightarrow> callback list \<Rightarrow> Race \<Rightarrow> bool"
  for trim lower holder where
  kbd_read: "dev \<noteq> holder \<Longrightarrow> dev \<in> set (kbdDevs (rCap s)) \<Longrightarrow> rKbd s dev = KRead \<Longrightarrow>
     blocked_step trim lower holder s [] (s\<lparr>rKbd := (rKbd s)(dev := KEvent ev)\<rparr>)"
| kbd_act: "dev \<noteq> holder \<Longrightarrow> dev \<in> set (kbdDevs (rCap s)) \<Longrightarrow> \<not> kbd_needs_mutex (rKbd s dev) \<Longrightarrow>
     kbd_action trim lower ok order now dev (rKbd s dev) (rCap s) = (pc, e, cs) \<Longrightarrow>
     blocked_step trim lower holder s cs (s\<lparr>rCap := e, rKbd := (rKbd s)(dev := pc)\<rparr>)"
| mouse_read: "dev \<in> set (mouseDevs (rCap s)) \<Longrightarrow> rMouse s dev = MRead \<Longrightarrow>
     blocked_step trim lower holder s [] (s\<lparr>rMouse := (rMouse s)(dev := MEvent ev)\<rparr>)"
| mouse_act: "dev \<in> set (mouseDevs (rCap s)) \<Longrightarrow> \<not> mouse_needs_mutex (rMouse s dev) \<Longrightarrow>
     mouse_action ok now dev (rMouse s dev) (rCap s) = (pc, e, cs) \<Longrightarrow>
     blocked_step trim lower holder s cs (s\<lparr>rCap := e, rMouse := (rMouse s)(dev := pc)\<rparr>)"

text \<open>No other goroutine has already passed its section with a press of the pause key.\<close>

definition no_pause_tracked :: "nat \<Rightarrow> Race \<Rightarrow> bool" where
  "no_pause_tracked holder s \<longleftrightarrow> (\<forall>dev ev r a. dev \<noteq> holder \<longrightarrow> rKbd s dev = KTracked ev r a \<longrightarrow>
     \<not> (evCode ev = 119 \<and> evValue ev = 1))"

lemma kbd_action_quiet:
  assumes "kbd_action trim lower ok order now dev pc e = (pc', e', cs)" and "\<not> kbd_needs_mutex pc"
    and "\<And>ev r a. pc = KTracked ev r a \<Longrightarrow> \<not> (evCode ev = 119 \<and> evValue ev = 1)"
  shows "Emergency \<notin> set cs" and "e' = e" and "pc' \<noteq> KTracked ev r a"
  using assms by (cases pc; auto simp add: call_def split: if_splits)+

lemma mouse_action_quiet:
  "mouse_action ok now dev pc e = (pc', e', cs) \<Longrightarrow> Emergency \<notin> set cs"
  by (cases pc) (auto simp add: handleRemoteMouseEvent_def call_def Let_def split: if_splits)

lemma blocked_quiet:
  "blocked_step trim lower holder s cs t \<Longrightarrow> no_pause_tracked holder s \<Longrightarrow>
   Emergency \<notin> set cs \<and> no_pause_tracked holder t"
proof (induction rule: blocked_step.induct)
  case (kbd_act dev s ok order now pc e cs)
  have t: "\<not> (evCode ev = 119 \<and> evValue ev = 1)" if "rKbd s dev = KTracked ev r a" for ev r a
    using kbd_act.prems kbd_act.hyps(1) that by (auto simp add: no_pause_tracked_def)
  note q = kbd_action_quiet [OF kbd_act.hyps(4,3) t]
  then show ?case using kbd_act.prems by (auto simp add: no_pause_tracked_def)
next
  case (mouse_act dev s ok now pc e cs)
  then show ?case using mouse_action_quiet by (auto simp add: no_pause_tracked_def)
qed (auto simp add: no_pause_tracked_def)

text \<open>C18: While one keyboard goroutine is inside \<open>Grab\<close>, waiting for the network to take a release, no
  press of the pause key that any other goroutine reads makes the emergency call: every
  goroutine takes the mutex before it looks for the key.\<close>

theorem emergency_blocked:
  assumes "lrun (blocked_step trim lower holder) s cs t" and "no_pause_tracked holder s"
  shows "Emergency \<notin> set (concat cs)"
proof -
  have "no_pause_tracked holder t \<and> Emergency \<notin> set (concat cs)"
    using assms
  proof (induction rule: lrun.induct)
    case (snoc s ls t l u)
    then show ?case using blocked_quiet [OF snoc.hyps(2)] by simp
  qed simp
  then show ?thesis by simp
qed

theorem emergency_blocked_witness:
  "\<exists>s t. rKbd s 1 = KGrab \<and> lrun (blocked_step id id 1) s [[]] t \<and> rKbd t 2 = KEvent (sample_event 119 1) \<and>
     Emergency \<notin> set (concat [[] :: callback list])"
proof -
  let ?e = "add_kbd (sample_info [3]) (sample_capture False)"
  let ?s = "(idle ?e)\<lparr>rKbd := (\<lambda>_. KRead)(1 := KGrab)\<rparr>"
  let ?t = "?s\<lparr>rKbd := (rKbd ?s)(2 := KEvent (sample_event 119 1))\<rparr>"
  have "2 \<in> set (kbdDevs (rCap ?s))"
    by (simp add: idle_def sample_capture_def add_kbd_def add_mouse_def NewEvdevCapture_def)
  then have "blocked_step id id 1 ?s [] ?t" by (intro blocked_step.kbd_read) simp_all
  then have r: "lrun (blocked_step id id 1) ?s [[]] ?t" by (rule lrun_one)
  have "no_pause_tracked 1 ?s" by (simp add: no_pause_tracked_def)
  from emergency_blocked [OF r this] r show ?thesis by (intro exI [of _ ?s] exI [of _ ?t]) simp
qed

end
