(* ===== verification/Teardown.thy ===== *)
theory Teardown
  imports Races Lifecycle
begin

text \<open>
  A session at the grain of its goroutines: the sections of the capture are those of \<open>Races\<close>, and
  the cleanup of \<open>runSession\<close> is a goroutine of its own, interleaved with the ones that still read
  devices and packets.  \<open>Close\<close> of a file does not end a \<open>Read\<close> that is in progress (\<open>Fd\<close> has made
  the files blocking): the file stays open in the kernel until that \<open>Read\<close> returns, with an event or
  with an error, and a device that was grabbed through it stays grabbed until then.
\<close>

section \<open>The state\<close>

text \<open>
  Where the cleanup goroutine is: it waits; it was woken; \<open>Close\<close> of the capture has released the
  devices and closes the files; the capture is closed; the clipboard is stopped; the keys of
  the virtual keyboard are released; everything is closed.
\<close>

datatype teardown = Serving | Woken | Closing | ClipStopping | VirtualClosing | Destroying | Finished

fun teardown_rank :: "teardown \<Rightarrow> nat" where
  "teardown_rank Serving = 0"
| "teardown_rank Woken = 1"
| "teardown_rank Closing = 2"
| "teardown_rank ClipStopping = 3"
| "teardown_rank VirtualClosing = 4"
| "teardown_rank Destroying = 5"
| "teardown_rank Finished = 6"

lemma teardown_rank_inj: "teardown_rank p = teardown_rank q \<longleftrightarrow> p = q"
  by (cases p; cases q) simp_all

text \<open>The points are passed in this order.\<close>

instantiation teardown :: linorder
begin

definition less_eq_teardown :: "teardown \<Rightarrow> teardown \<Rightarrow> bool" where
  "p \<le> q \<longleftrightarrow> teardown_rank p \<le> teardown_rank q"

definition less_teardown :: "teardown \<Rightarrow> teardown \<Rightarrow> bool" where
  "p < q \<longleftrightarrow> teardown_rank p < teardown_rank q"

instance
  by standard (auto simp add: less_eq_teardown_def less_teardown_def teardown_rank_inj)

end

lemmas teardown_order = less_eq_teardown_def less_teardown_def

text \<open>
  \<open>fnLate\<close> are the closed files that a goroutine is still reading, \<open>fnLeft\<close> the files that \<open>Close\<close>
  has not closed yet.  Every file of the capture has one goroutine.
\<close>

record Fine =
  fnSession :: Session
  fnKbd :: "nat \<Rightarrow> kpc"
  fnMouse :: "nat \<Rightarrow> mpc"
  fnLate :: "nat set"
  fnLeft :: "nat list"
  fnPhase :: teardown

abbreviation fnCap :: "Fine \<Rightarrow> EvdevCapture" where "fnCap s \<equiv> mEvdev (snMachine (fnSession s))"
abbreviation fnVi :: "Fine \<Rightarrow> VirtualInput" where "fnVi s \<equiv> mVi (snMachine (fnSession s))"
abbreviation fnClip :: "Fine \<Rightarrow> ClipState" where "fnClip s \<equiv> mClip (snMachine (fnSession s))"

definition set_cap :: "EvdevCapture \<Rightarrow> Session \<Rightarrow> Session" where
  "set_cap e s = s\<lparr>snMachine := (snMachine s)\<lparr>mEvdev := e\<rparr>\<rparr>"

definition fresh :: "Session \<Rightarrow> Fine" where
  "fresh s = \<lparr>fnSession = s, fnKbd = (\<lambda>_. KRead), fnMouse = (\<lambda>_. MRead), fnLate = {}, fnLeft = [], fnPhase = Serving\<rparr>"

definition devices :: "EvdevCapture \<Rightarrow> nat set" where
  "devices e = set (mouseDevs e) \<union> set (kbdDevs e)"

text \<open>A closed file is gone for the kernel once no \<open>Read\<close> uses it any more, and with it its grab.\<close>

definition gone :: "Fine \<Rightarrow> nat \<Rightarrow> bool" where
  "gone s i \<longleftrightarrow> i \<in> devices (fnCap s) \<and> \<not> hOpen (handle (fnCap s) i) \<and> i \<notin> fnLate s"

definition held :: "Fine \<Rightarrow> nat set" where
  "held s = {i \<in> ecKernel (fnCap s). \<not> gone s i}"

text \<open>A \<open>Read\<close> of this file may return an event.\<close>

definition can_read :: "Fine \<Rightarrow> nat \<Rightarrow> bool" where
  "can_read s i \<longleftrightarrow> hOpen (handle (fnCap s) i) \<or> i \<in> fnLate s"

definition reading :: "Fine \<Rightarrow> nat \<Rightarrow> bool" where
  "reading s i \<longleftrightarrow>
     (if i \<in> set (kbdDevs (fnCap s)) then fnKbd s i = KRead else fnMouse s i = MRead)"

section \<open>The steps\<close>

text \<open>
  Packets are handled until the connection is closed; what they write to a closed virtual device
  is lost.
\<close>

definition lose_writes :: "VirtualInput \<Rightarrow> VirtualInput \<Rightarrow> VirtualInput" where
  "lose_writes old new =
    new\<lparr>mouseFile := (if ufOpen (mouseFile old) then mouseFile new else mouseFile old),
        kbdFile := (if ufOpen (kbdFile old) then kbdFile new else kbdFile old)\<rparr>"

text \<open>The second half of \<open>Close\<close> of the virtual devices, after \<open>ReleaseAllKeys\<close>.\<close>

definition destroy_virtual :: "(ioctl_req \<Rightarrow> bool) \<Rightarrow> (ioctl_req \<Rightarrow> bool) \<Rightarrow> VirtualInput \<Rightarrow> VirtualInput" where
  "destroy_virtual kern1 kern2 vi =
    (let destroy = (\<lambda>kern f. (snd (ioctls kern [UI_DEV_DESTROY] f))\<lparr>ufOpen := False\<rparr>)
     in vi\<lparr>mouseFile := destroy kern1 (mouseFile vi), kbdFile := destroy kern2 (kbdFile vi)\<rparr>)"

lemma VirtualInput_Close_halves:
  "VirtualInput_Close kern1 kern2 order vi = destroy_virtual kern1 kern2 (ReleaseAllKeys order vi)"
  by (simp add: VirtualInput_Close_def destroy_virtual_def Let_def)

text \<open>\<open>main\<close> closes the connection: nothing is read any more, and the next write fails.\<close>

definition hang_up :: "Client \<Rightarrow> Client" where
  "hang_up c = c\<lparr>clConn := (clConn c)\<lparr>rx := [], rxEnd := ErrConn, wr := [(0, True)]\<rparr>\<rparr>"

text \<open>
  The grab of a file that is gone fails.  The second group of rules are the goroutines of
  \<open>session_step\<close>, the third the cleanup.
\<close>

inductive fine_step ::
  "(rat \<Rightarrow> rat) \<Rightarrow> (u16 \<Rightarrow> i32 option) \<Rightarrow> (gostring \<Rightarrow> gostring) \<Rightarrow> (gostring \<Rightarrow> gostring) \<Rightarrow> (bytes \<Rightarrow> bytes)
   \<Rightarrow> (bytes \<Rightarrow> bytes option) \<Rightarrow> Fine \<Rightarrow> Fine \<Rightarrow> bool"
  for rnd table trim lower deflate inflate where
  kbd_read: "snEnding (fnSession s) \<noteq> Exited \<Longrightarrow> dev \<in> set (kbdDevs (fnCap s)) \<Longrightarrow> fnKbd s dev = KRead \<Longrightarrow>
     can_read s dev \<Longrightarrow>
     fine_step rnd table trim lower deflate inflate s
       (s\<lparr>fnKbd := (fnKbd s)(dev := KEvent ev), fnLate := fnLate s - {dev}\<rparr>)"
| kbd_act: "snEnding (fnSession s) \<noteq> Exited \<Longrightarrow> dev \<in> set (kbdDevs (fnCap s)) \<Longrightarrow>
     distinct order \<Longrightarrow> set order = ecPressedKeys (fnCap s) \<Longrightarrow> \<forall>i. gone s i \<longrightarrow> \<not> ok i \<Longrightarrow>
     kbd_action trim lower ok order now dev (fnKbd s dev) (fnCap s) = (pc, e, cs) \<Longrightarrow>
     fine_step rnd table trim lower deflate inflate s
       (s\<lparr>fnSession := run_callbacks rnd table clock cs (set_cap e (fnSession s)), fnKbd := (fnKbd s)(dev := pc)\<rparr>)"
| mouse_read: "snEnding (fnSession s) \<noteq> Exited \<Longrightarrow> dev \<in> set (mouseDevs (fnCap s)) \<Longrightarrow> fnMouse s dev = MRead \<Longrightarrow>
     can_read s dev \<Longrightarrow>
     fine_step rnd table trim lower deflate inflate s
       (s\<lparr>fnMouse := (fnMouse s)(dev := MEvent ev), fnLate := fnLate s - {dev}\<rparr>)"
| mouse_act: "snEnding (fnSession s) \<noteq> Exited \<Longrightarrow> dev \<in> set (mouseDevs (fnCap s)) \<Longrightarrow>
     \<forall>i. gone s i \<longrightarrow> \<not> ok i \<Longrightarrow>
     mouse_action ok now dev (fnMouse s dev) (fnCap s) = (pc, e, cs) \<Longrightarrow>
     fine_step rnd table trim lower deflate inflate s
       (s\<lparr>fnSession := run_callbacks rnd table clock cs (set_cap e (fnSession s)), fnMouse := (fnMouse s)(dev := pc)\<rparr>)"
| read_fails: "snEnding (fnSession s) \<noteq> Exited \<Longrightarrow> dev \<in> fnLate s \<Longrightarrow>
     fine_step rnd table trim lower deflate inflate s (s\<lparr>fnLate := fnLate s - {dev}\<rparr>)"
| packet: "snEnding (fnSession s) \<noteq> Exited \<Longrightarrow> Client_Receive (ssClient (snSender (fnSession s))) = (Inr pkt, c) \<Longrightarrow>
     receive_packet inflate (SetText run os) pkt (snReceiver (fnSession s), snMachine (fnSession s)) = (r, m) \<Longrightarrow>
     fine_step rnd table trim lower deflate inflate s
       (s\<lparr>fnSession := (fnSession s)\<lparr>snSender := (snSender (fnSession s))\<lparr>ssClient := c\<rparr>, snReceiver := r,
          snMachine := m\<lparr>mVi := lose_writes (fnVi s) (mVi m)\<rparr>\<rparr>\<rparr>)"
| bad_packet: "snEnding (fnSession s) \<noteq> Exited \<Longrightarrow> Client_Receive (ssClient (snSender (fnSession s))) = (Inl err, c) \<Longrightarrow>
     fine_step rnd table trim lower deflate inflate s
       (s\<lparr>fnSession := (fnSession s)\<lparr>snSender := (snSender (fnSession s))\<lparr>ssClient := c\<rparr>\<rparr>\<rparr>)"
| jiggle: "snEnding (fnSession s) \<noteq> Exited \<Longrightarrow> i < length jigglerKeys \<Longrightarrow>
     fine_step rnd table trim lower deflate inflate s
       (s\<lparr>fnSession := (fnSession s)\<lparr>snSender :=
          send_list Client_Send IsConnected (stamped clock (fst (jigglerTick i (fnCap s)))) (snSender (fnSession s))\<rparr>\<rparr>)"
| heartbeat: "snEnding (fnSession s) \<noteq> Exited \<Longrightarrow>
     fine_step rnd table trim lower deflate inflate s
       (s\<lparr>fnSession := (fnSession s)\<lparr>snSender :=
          Sender_Send Client_Send IsConnected now Heartbeat PNil (snSender (fnSession s))\<rparr>\<rparr>)"
| clipboard: "snEnding (fnSession s) \<noteq> Exited \<Longrightarrow> watch_tick trim (GetText lower run os) (fnClip s) = (r, cl) \<Longrightarrow>
     sends = (case r of None \<Rightarrow> [] | Some content \<Rightarrow> clipboard_sends deflate content) \<Longrightarrow>
     fine_step rnd table trim lower deflate inflate s
       (s\<lparr>fnSession := (fnSession s)\<lparr>
          snSender := send_list Client_Send IsConnected (stamped clock sends) (snSender (fnSession s)),
          snMachine := (snMachine (fnSession s))\<lparr>mClip := cl\<rparr>\<rparr>\<rparr>)"
| wake: "snEnding (fnSession s) \<noteq> Exited \<Longrightarrow> fnPhase s = Serving \<Longrightarrow>
     fine_step rnd table trim lower deflate inflate s (s\<lparr>fnPhase := Woken\<rparr>)"
| hangup: "snEnding (fnSession s) \<noteq> Exited \<Longrightarrow> Woken \<le> fnPhase s \<Longrightarrow>
     fine_step rnd table trim lower deflate inflate s
       (s\<lparr>fnSession := (fnSession s)\<lparr>snSender := (snSender (fnSession s))\<lparr>ssClient := hang_up (ssClient (snSender (fnSession s)))\<rparr>\<rparr>\<rparr>)"
| close_capture: "snEnding (fnSession s) \<noteq> Exited \<Longrightarrow> fnPhase s = Woken \<Longrightarrow>
     fine_step rnd table trim lower deflate inflate s
       (s\<lparr>fnSession := set_cap (Ungrab (fnCap s)) (fnSession s), fnLeft := mouseDevs (fnCap s) @ kbdDevs (fnCap s),
          fnPhase := Closing\<rparr>)"
| close_file: "snEnding (fnSession s) \<noteq> Exited \<Longrightarrow> fnPhase s = Closing \<Longrightarrow> fnLeft s = i # is \<Longrightarrow>
     fine_step rnd table trim lower deflate inflate s
       (s\<lparr>fnSession := set_cap (close_device i (fnCap s)) (fnSession s), fnLeft := is,
          fnLate := (if reading s i then insert i (fnLate s) else fnLate s)\<rparr>)"
| closed_capture: "snEnding (fnSession s) \<noteq> Exited \<Longrightarrow> fnPhase s = Closing \<Longrightarrow> fnLeft s = [] \<Longrightarrow>
     fine_step rnd table trim lower deflate inflate s (s\<lparr>fnPhase := ClipStopping\<rparr>)"
| stop_clipboard: "snEnding (fnSession s) \<noteq> Exited \<Longrightarrow> fnPhase s = ClipStopping \<Longrightarrow> Clip_Stop (fnClip s) = Some cl \<Longrightarrow>
     fine_step rnd table trim lower deflate inflate s
       (s\<lparr>fnSession := (fnSession s)\<lparr>snMachine := (snMachine (fnSession s))\<lparr>mClip := cl\<rparr>\<rparr>, fnPhase := VirtualClosing\<rparr>)"
| release_keys: "snEnding (fnSession s) \<noteq> Exited \<Longrightarrow> fnPhase s = VirtualClosing \<Longrightarrow>
     distinct order \<Longrightarrow> set order = pressedKeys (fnVi s) \<Longrightarrow>
     fine_step rnd table trim lower deflate inflate s
       (s\<lparr>fnSession := (fnSession s)\<lparr>snMachine := (snMachine (fnSession s))\<lparr>mVi := ReleaseAllKeys order (fnVi s)\<rparr>\<rparr>,
          fnPhase := Destroying\<rparr>)"
| destroy: "snEnding (fnSession s) \<noteq> Exited \<Longrightarrow> fnPhase s = Destroying \<Longrightarrow>
     fine_step rnd table trim lower deflate inflate s
       (s\<lparr>fnSession := (fnSession s)\<lparr>snMachine := (snMachine (fnSession s))\<lparr>mVi := destroy_virtual kern1 kern2 (fnVi s)\<rparr>,
            snEnding := CleanedUp\<rparr>,
          fnPhase := Finished\<rparr>)"

section \<open>What the capture's steps leave alone\<close>

text \<open>A keyboard whose grab succeeds is grabbed unless it is also a mouse.\<close>

lemma Grab_takes:
  assumes "race_inv e" and "Grab ok order None e = (e2, cs)" and "i \<in> set (kbdDevs e)" and "ok i"
    and "\<not> isMouseDevicePath (dPath (hInfo (handle e i))) e"
  shows "i \<in> ecKernel e2"
proof -
  let ?r = "resetPendingMouse e"
  have "in_sync ?r" "set (kbdDevs ?r) \<subseteq> {..<length (ecDevs ?r)}"
    using race_invD(1,2) [OF assms(1)] by (simp_all add: resetPendingMouse_def in_sync_def devices_ok_def)
  note f = fold_grab_keyboard [OF this, of ok]
  have "i \<in> ecKernel (fold (grab_keyboard ok) (kbdDevs ?r) ?r)"
    using f assms(3-5) by (simp add: resetPendingMouse_def isMouseDevicePath_def)
  then show ?thesis using assms(2) by (auto simp add: Grab_def Let_def)
qed


text \<open>The devices, which of their files are open, and the callbacks.\<close>

definition same_files :: "EvdevCapture \<Rightarrow> EvdevCapture \<Rightarrow> bool" where
  "same_files e e' \<longleftrightarrow> mouseDevs e' = mouseDevs e \<and> kbdDevs e' = kbdDevs e \<and>
     length (ecDevs e') = length (ecDevs e) \<and> (\<forall>i. hOpen (handle e' i) = hOpen (handle e i)) \<and> ecOn e' = ecOn e"

named_theorems same_files_intros

lemma same_files_refl [simp, same_files_intros]: "same_files e e"
  by (simp add: same_files_def)

lemma same_files_trans: "same_files a b \<Longrightarrow> same_files b c \<Longrightarrow> same_files a c"
  by (simp add: same_files_def)

lemma same_files_upd [simp]:
  "same_files a (e\<lparr>activeMouseDev := m\<rparr>) = same_files a e" "same_files a (e\<lparr>activeKbdDev := k\<rparr>) = same_files a e"
  "same_files a (e\<lparr>ecCursorX := x\<rparr>) = same_files a e" "same_files a (e\<lparr>ecCursorY := x\<rparr>) = same_files a e"
  "same_files a (e\<lparr>IsRemote := r\<rparr>) = same_files a e" "same_files a (e\<lparr>ecPressedKeys := p\<rparr>) = same_files a e"
  "same_files a (e\<lparr>pendingMouse := pm, pendingHits := h, pendingMotion := pn, pendingUntil := u\<rparr>) = same_files a e"
  by (simp_all add: same_files_def)

lemma set_grabbed_files [same_files_intros]: "same_files a e \<Longrightarrow> same_files a (set_grabbed i g e)"
proof -
  have "hOpen (handle (set_grabbed i g e) j) = hOpen (handle e j)" for j
    by (cases "i < length (ecDevs e)") (auto simp add: set_grabbed_def nth_list_update list_update_beyond not_less)
  then show "same_files a e \<Longrightarrow> same_files a (set_grabbed i g e)" by (simp add: same_files_def set_grabbed_def)
qed

lemma fold_keeps: "(\<And>i e. P e \<Longrightarrow> P (f i e)) \<Longrightarrow> P e \<Longrightarrow> P (fold f is e)"
  by (induction "is" arbitrary: e) simp_all

lemma Ungrab_files [same_files_intros]: "same_files a e \<Longrightarrow> same_files a (Ungrab e)"
  by (simp add: Ungrab_def Let_def resetPendingMouse_def fold_keeps [where P = "same_files a"] ungrab_device_def set_grabbed_files)

lemma Ungrab_info:
  assumes "in_sync e" and "devices_ok e"
  shows "hInfo (handle (Ungrab e) i) = hInfo (handle e i)"
proof -
  let ?a = "fold ungrab_device (mouseDevs e) e"
  have m: "set (mouseDevs e) \<subseteq> {..<length (ecDevs e)}" using assms(2) by (simp add: devices_ok_def)
  note a = fold_ungrab [OF assms(1) m]
  have "set (kbdDevs ?a) \<subseteq> {..<length (ecDevs ?a)}" using assms(2) a by (simp add: devices_ok_def same_devices_def)
  from fold_ungrab [OF conjunct1 [OF a] this] a show ?thesis
    by (simp add: Ungrab_def Let_def resetPendingMouse_def same_devices_def)
qed

lemma Grab_files [same_files_intros]: "same_files a e \<Longrightarrow> same_files a (fst (Grab ok order m e))"
  by (auto simp add: Grab_def Let_def resetPendingMouse_def set_grabbed_files grab_keyboard_def
      intro!: fold_keeps [where P = "same_files a"] split: option.split)

lemma activate_files [same_files_intros]:
  assumes "same_files a e"
  shows "same_files a (activate_mouse ok now s ev e)"
proof -
  have "same_files a (snd (decideMouseActivation now s ev e))" using assms decide_frame [of now s ev e] by auto
  then show ?thesis
    by (auto simp add: activate_mouse_def grabMouse_def ungrabMouse_def Let_def split_beta set_grabbed_files
        split: mouseActivationAction.split option.split)
qed

lemma kbd_action_files:
  "kbd_action trim lower ok order now dev pc e = (pc', e', cs) \<Longrightarrow> same_files e e'"
proof (cases pc)
  case KGrab
  assume "kbd_action trim lower ok order now dev pc e = (pc', e', cs)"
  with KGrab have "e' = fst (Grab ok order None e)" by (auto simp add: split_beta)
  then show ?thesis by (simp add: Grab_files)
qed (auto simp add: button_section_def Let_def intro!: same_files_intros split: if_splits option.splits)

lemma mouse_action_files:
  "mouse_action ok now dev pc e = (pc', e', cs) \<Longrightarrow> same_files e e'"
  by (cases pc) (auto simp add: handleLocalMouseEvent_def Let_def intro!: same_files_intros split: if_splits)

section \<open>The invariant\<close>

text \<open>Which files are open at which point of the cleanup.\<close>

definition files_inv :: "Fine \<Rightarrow> bool" where
  "files_inv s \<longleftrightarrow>
     (let is_open = (\<lambda>i. hOpen (handle (fnCap s) i)) in
     (fnPhase s < Closing \<longrightarrow> (\<forall>i\<in>devices (fnCap s). is_open i)) \<and>
     (fnPhase s = Closing \<longrightarrow> distinct (fnLeft s) \<and> set (fnLeft s) \<subseteq> devices (fnCap s) \<and>
        (\<forall>i\<in>devices (fnCap s). is_open i \<longleftrightarrow> i \<in> set (fnLeft s))) \<and>
     (Closing < fnPhase s \<longrightarrow> (\<forall>i\<in>devices (fnCap s). \<not> is_open i)) \<and>
     (\<forall>i\<in>fnLate s. i \<in> devices (fnCap s) \<and> \<not> is_open i))"

definition machine_inv :: "Fine \<Rightarrow> bool" where
  "machine_inv s \<longleftrightarrow>
     OnEmergency \<in> ecOn (fnCap s) \<and>
     (clipStopped (fnClip s) \<longleftrightarrow> VirtualClosing \<le> fnPhase s) \<and>
     (fnPhase s \<le> Destroying \<longrightarrow> vi_inv (fnVi s) \<and> ufOpen (mouseFile (fnVi s)) \<and> ufOpen (kbdFile (fnVi s))) \<and>
     (fnPhase s = Finished \<longleftrightarrow> snEnding (fnSession s) = CleanedUp) \<and>
     (fnPhase s = Finished \<longrightarrow> \<not> ufOpen (mouseFile (fnVi s)) \<and> \<not> ufOpen (kbdFile (fnVi s)))"

definition fine_inv :: "(rat \<Rightarrow> rat) \<Rightarrow> Fine \<Rightarrow> bool" where
  "fine_inv rnd s \<longleftrightarrow>
     race_inv (fnCap s) \<and>
     tracked (snReceiver (fnSession s)) = buttons (fnVi s) \<and>
     (rounding rnd \<longrightarrow> cursor_inv (snCursor (fnSession s))) \<and>
     (snEnding (fnSession s) = Exited \<longrightarrow> ecKernel (fnCap s) = {}) \<and>
     (snEnding (fnSession s) \<noteq> Exited \<longrightarrow> files_inv s \<and> machine_inv s)"

lemma set_cap_sel [simp]:
  "snMachine (set_cap e t) = (snMachine t)\<lparr>mEvdev := e\<rparr>" "snEnding (set_cap e t) = snEnding t"
  "snCursor (set_cap e t) = snCursor t" "snReceiver (set_cap e t) = snReceiver t" "snSender (set_cap e t) = snSender t"
  by (simp_all add: set_cap_def)

lemma run_callbacks_sel [simp]:
  "snMachine (run_callbacks rnd table clock cs t) =
     (if Emergency \<in> set cs then (snMachine t)\<lparr>mEvdev := Evdev_Close (mEvdev (snMachine t))\<rparr> else snMachine t)"
  "snEnding (run_callbacks rnd table clock cs t) = (if Emergency \<in> set cs then Exited else snEnding t)"
  "snReceiver (run_callbacks rnd table clock cs t) = snReceiver t"
  by (simp_all add: run_callbacks_def Let_def split_beta emergency_def)

lemma run_callbacks_cursor:
  assumes "rounding rnd" and "cursor_inv (snCursor t)"
  shows "cursor_inv (snCursor (run_callbacks rnd table clock cs t))"
proof -
  obtain sends cu where f: "forward_all rnd table (takeWhile (\<lambda>c. c \<noteq> Emergency) cs) (snCursor t) = (sends, cu)" by fastforce
  with forward_all_inv [OF assms f] show ?thesis by (simp add: run_callbacks_def Let_def emergency_def)
qed

lemma devices_files: "same_files e e' \<Longrightarrow> devices e' = devices e"
  by (simp add: same_files_def devices_def)

text \<open>A section of the capture with its callbacks.\<close>

lemma section_inv:
  assumes "fine_inv rnd s" and "snEnding (fnSession s) \<noteq> Exited" and "race_inv e" and "same_files (fnCap s) e"
    and "t = s\<lparr>fnSession := run_callbacks rnd table clock cs (set_cap e (fnSession s)), fnKbd := kp, fnMouse := mp\<rparr>"
  shows "fine_inv rnd t"
proof -
  have "ecOn e = ecOn (fnCap s)" "\<And>i. hOpen (handle e i) = hOpen (handle (fnCap s) i)" "devices e = devices (fnCap s)"
    using assms(4) devices_files [OF assms(4)] by (simp_all add: same_files_def)
  then show ?thesis
    using assms(1-3) Evdev_Close_local [OF race_invD(2,1,3) [OF assms(3)]] run_callbacks_cursor
    unfolding assms(5)
    by (simp add: fine_inv_def files_inv_def machine_inv_def capture_race_inv Let_def)
qed

text \<open>What a packet leaves alone.\<close>

lemma writeEvent_open [simp]: "ufOpen (writeEvent f ty code value) = ufOpen f"
  by (simp add: writeEvent_def)

lemma event_open [simp]:
  "ufOpen (mouseFile (mouse_event ty code value vi)) = ufOpen (mouseFile vi)" "kbdFile (mouse_event ty code value vi) = kbdFile vi"
  "ufOpen (kbdFile (kbd_event ty code value vi)) = ufOpen (kbdFile vi)" "mouseFile (kbd_event ty code value vi) = mouseFile vi"
  by (simp_all add: mouse_event_def kbd_event_def)

lemma inject_open [simp]:
  "ufOpen (mouseFile (InjectMouse x y wd fl vi)) = ufOpen (mouseFile vi)"
  "ufOpen (kbdFile (InjectMouse x y wd fl vi)) = ufOpen (kbdFile vi)"
  "ufOpen (mouseFile (InjectKeyboard vk fl vi)) = ufOpen (mouseFile vi)"
  "ufOpen (kbdFile (InjectKeyboard vk fl vi)) = ufOpen (kbdFile vi)"
  by (simp_all add: InjectMouse_def move_mouse_def updateButtons_def InjectKeyboard_def Let_def split: option.split)

lemma release_open [simp]:
  "ufOpen (mouseFile (ReleaseAllKeys order vi)) = ufOpen (mouseFile vi)"
  "ufOpen (kbdFile (ReleaseAllKeys order vi)) = ufOpen (kbdFile vi)"
proof -
  have "ufOpen (mouseFile (fold release_one order v)) = ufOpen (mouseFile v) \<and>
      ufOpen (kbdFile (fold release_one order v)) = ufOpen (kbdFile v)" for v
    by (induction order arbitrary: v) (simp_all add: release_one_def)
  then show "ufOpen (mouseFile (ReleaseAllKeys order vi)) = ufOpen (mouseFile vi)"
    "ufOpen (kbdFile (ReleaseAllKeys order vi)) = ufOpen (kbdFile vi)"
    by (simp_all add: ReleaseAllKeys_eq)
qed

lemma lose_writes_open [simp]:
  "buttons (lose_writes old new) = buttons new" "pressedKeys (lose_writes old new) = pressedKeys new"
  "ufOpen (mouseFile old) \<Longrightarrow> ufOpen (kbdFile old) \<Longrightarrow> lose_writes old new = new"
  "\<not> ufOpen (mouseFile old) \<Longrightarrow> mouseFile (lose_writes old new) = mouseFile old"
  "\<not> ufOpen (kbdFile old) \<Longrightarrow> kbdFile (lose_writes old new) = kbdFile old"
  by (simp_all add: lose_writes_def buttons_def)

lemma receive_packet_frame:
  assumes "receive_packet inflate (SetText run os) pkt (r, m) = (r', m')"
  shows "race_inv (mEvdev m) \<Longrightarrow> race_inv (mEvdev m')" and "same_files (mEvdev m) (mEvdev m')"
    and "ufOpen (mouseFile (mVi m')) = ufOpen (mouseFile (mVi m))" and "ufOpen (kbdFile (mVi m')) = ufOpen (kbdFile (mVi m))"
    and "ecKernel (mEvdev m') = ecKernel (mEvdev m) \<or> mEvdev m' = Ungrab (mEvdev m)"
proof -
  have m': "m' = snd (receive_packet inflate (SetText run os) pkt (r, m))" using assms by simp
  show "race_inv (mEvdev m) \<Longrightarrow> race_inv (mEvdev m')" "same_files (mEvdev m) (mEvdev m')"
    "ufOpen (mouseFile (mVi m')) = ufOpen (mouseFile (mVi m))" "ufOpen (kbdFile (mVi m')) = ufOpen (kbdFile (mVi m))"
    "ecKernel (mEvdev m') = ecKernel (mEvdev m) \<or> mEvdev m' = Ungrab (mEvdev m)"
    unfolding m' by (simp_all add: receive_packet_def Let_def Ungrab_race_inv Ungrab_files split: option.split)
qed

lemma race_inv_close:
  assumes "i < length (ecDevs e)"
  shows "race_inv (close_device i e) = race_inv e"
proof -
  have "hInfo (handle (close_device i e) j) = hInfo (handle e j)"
    "hGrabbed (handle (close_device i e) j) = hGrabbed (handle e j)" for j
    using assms by (simp_all add: close_device_handle)
  moreover have "activeMouseDev (close_device i e) = activeMouseDev e" "activeKbdDev (close_device i e) = activeKbdDev e"
    "pendingMouse (close_device i e) = pendingMouse e"
    by (simp_all add: close_device_def)
  ultimately show ?thesis by (simp add: race_inv_def devices_ok_def in_sync_def isMouseDevicePath_def)
qed

lemma devices_in_range: "race_inv e \<Longrightarrow> i \<in> devices e \<Longrightarrow> i < length (ecDevs e)"
  by (auto simp add: race_inv_def devices_ok_def devices_def)

lemma close_file_inv:
  assumes "fine_inv rnd s" and "snEnding (fnSession s) \<noteq> Exited" and "fnPhase s = Closing" and "fnLeft s = i # is"
    and "late = fnLate s \<or> late = insert i (fnLate s)"
  shows "fine_inv rnd (s\<lparr>fnSession := set_cap (close_device i (fnCap s)) (fnSession s), fnLeft := is, fnLate := late\<rparr>)"
proof -
  have inv: "race_inv (fnCap s)" "files_inv s" "machine_inv s" using assms(1,2) by (simp_all add: fine_inv_def)
  have i: "i \<in> devices (fnCap s)" using inv(2) assms(3,4) by (simp add: files_inv_def Let_def)
  note len = devices_in_range [OF inv(1) i]
  have d: "devices (close_device i e) = devices e" "ecOn (close_device i e) = ecOn e" for e
    by (simp_all add: devices_def) (simp add: close_device_def)
  have h: "hOpen (handle (close_device i (fnCap s)) j) \<longleftrightarrow> j \<noteq> i \<and> hOpen (handle (fnCap s) j)" for j
    using close_device_handle [OF len] by simp
  show ?thesis
    using assms inv i d h race_inv_close [OF len]
    by (auto simp add: fine_inv_def files_inv_def machine_inv_def Let_def)
qed

lemma destroy_open [simp]:
  "\<not> ufOpen (mouseFile (destroy_virtual kern1 kern2 vi))" "\<not> ufOpen (kbdFile (destroy_virtual kern1 kern2 vi))"
  "buttons (destroy_virtual kern1 kern2 vi) = buttons vi"
  by (simp_all add: destroy_virtual_def Let_def buttons_def del: ioctls.simps)

lemma fine_step_inv:
  "fine_step rnd table trim lower deflate inflate s t \<Longrightarrow> fine_inv rnd s \<Longrightarrow> fine_inv rnd t"
proof (induction rule: fine_step.induct)
  case (kbd_read s dev ev)
  then show ?case by (simp add: fine_inv_def files_inv_def machine_inv_def Let_def)
next
  case (kbd_act s dev order ok now pc e cs clock)
  have r: "race_inv (fnCap s)" using kbd_act.prems by (simp add: fine_inv_def)
  show ?case
    by (rule section_inv [OF kbd_act.prems kbd_act.hyps(1) kbd_action_inv [OF r kbd_act.hyps(2,6)] kbd_action_files [OF kbd_act.hyps(6)],
          where mp = "fnMouse s"]) simp
next
  case (mouse_read s dev ev)
  then show ?case by (simp add: fine_inv_def files_inv_def machine_inv_def Let_def)
next
  case (mouse_act s dev ok now pc e cs clock)
  have r: "race_inv (fnCap s)" using mouse_act.prems by (simp add: fine_inv_def)
  show ?case
    by (rule section_inv [OF mouse_act.prems mouse_act.hyps(1) mouse_action_inv [OF r mouse_act.hyps(2,4)] mouse_action_files [OF mouse_act.hyps(4)],
          where kp = "fnKbd s"]) simp
next
  case (packet s pkt c run os r m)
  note f = receive_packet_frame [OF packet.hyps(3)]
  have d: "devices (mEvdev m) = devices (fnCap s)" "ecOn (mEvdev m) = ecOn (fnCap s)"
    "\<And>i. hOpen (handle (mEvdev m) i) = hOpen (handle (fnCap s) i)"
    using f(2) devices_files [OF f(2)] by (simp_all add: same_files_def)
  have t: "tracked r = buttons (mVi m)"
    using receive_packet_tracks [of "snReceiver (fnSession s)" "snMachine (fnSession s)" inflate "SetText run os" pkt]
      packet by (simp add: fine_inv_def)
  show ?case
    using packet.prems packet.hyps(1) f d t receive_packet_keeps(1,3) [OF packet.hyps(3)]
    by (simp add: fine_inv_def files_inv_def machine_inv_def Let_def)
next
  case (clipboard s run os r cl sends clock)
  have "clipStopped cl = clipStopped (fnClip s)"
    using clipboard.hyps(2) by (auto simp add: watch_tick_def Let_def split: sum.splits if_splits)
  with clipboard show ?case by (simp add: fine_inv_def files_inv_def machine_inv_def Let_def)
next
  case (close_capture s)
  have r: "race_inv (fnCap s)" using close_capture.prems by (simp add: fine_inv_def)
  note u = Ungrab_local [OF race_invD(2,1,3) [OF r]]
  have "\<And>i. hOpen (handle (Ungrab (fnCap s)) i) = hOpen (handle (fnCap s) i)"
    using Ungrab_files [of "fnCap s" "fnCap s"] by (simp add: same_files_def)
  moreover have "distinct (mouseDevs (fnCap s) @ kbdDevs (fnCap s))" using race_invD(1) [OF r] by (simp add: devices_ok_def)
  moreover have "fnLate s = {}" using close_capture by (auto simp add: fine_inv_def files_inv_def Let_def teardown_order)
  ultimately show ?case
    using close_capture u Ungrab_race_inv [OF r]
    by (simp add: fine_inv_def files_inv_def machine_inv_def Let_def devices_def teardown_order)
next
  case (close_file s i "is")
  then show ?case by (intro close_file_inv) auto
next
  case (release_keys s order)
  have v: "vi_inv (fnVi s)" using release_keys by (simp add: fine_inv_def machine_inv_def teardown_order)
  have "vi_inv (ReleaseAllKeys order (fnVi s))"
    by (rule vi_step_inv [OF vi_step.release [OF release_keys.hyps(4,3)] v])
  moreover have "buttons (ReleaseAllKeys order (fnVi s)) = buttons (fnVi s)"
    using ReleaseAllKeys_inv(7) v by (simp add: vi_inv_def)
  ultimately show ?case using release_keys
    by (simp add: fine_inv_def files_inv_def machine_inv_def Let_def teardown_order)
next
  case (wake s)
  then have "fnLate s = {}" by (auto simp add: fine_inv_def files_inv_def Let_def teardown_order)
  with wake show ?case by (simp add: fine_inv_def files_inv_def machine_inv_def Let_def teardown_order)
next
  case (stop_clipboard s cl)
  then have "clipStopped cl" by (auto simp add: Clip_Stop_def split: if_splits)
  with stop_clipboard show ?case by (simp add: fine_inv_def files_inv_def machine_inv_def Let_def teardown_order)
qed (simp_all add: fine_inv_def files_inv_def machine_inv_def Let_def teardown_order)

interpretation fine: invariant_system "fine_step rnd table trim lower deflate inflate" "fine_inv rnd"
  for rnd table trim lower deflate inflate
  by unfold_locales (rule fine_step_inv)

text \<open>A session starts with all files open.\<close>

definition all_open :: "EvdevCapture \<Rightarrow> bool" where
  "all_open e \<longleftrightarrow> (\<forall>h\<in>set (ecDevs e). hOpen h)"

lemma all_open_add:
  "all_open e \<Longrightarrow> all_open (fold add_mouse is e)" "all_open e \<Longrightarrow> all_open (fold add_kbd is e)"
  by (erule fold_keeps [where P = all_open, rotated], simp add: add_mouse_def add_kbd_def new_handle_def all_open_def)+

lemma setupInputCapture_open:
  assumes "setupInputCapture base glob nodes opens cfg = Inr e"
  shows "all_open e"
proof -
  have n: "all_open (NewEvdevCapture w h)" for w h by (simp add: NewEvdevCapture_def all_open_def)
  have o: "all_open (x\<lparr>ecOn := c\<rparr>) = all_open x" for x c by (simp add: all_open_def)
  have d: "DiscoverAndOpen glob nodes opens x = (r, y) \<Longrightarrow> all_open x \<Longrightarrow> all_open y" for x r y
    using all_open_add by (fastforce simp add: DiscoverAndOpen_def Let_def split: option.splits if_splits)
  have p: "Open base nodes m k x = (r, y) \<Longrightarrow> all_open x \<Longrightarrow> all_open y" for m k x r y
    by (auto simp add: Open_def add_mouse_def add_kbd_def new_handle_def all_open_def split: option.splits)
  show ?thesis using assms d [OF _ n] p [OF _ n]
    by (auto simp add: setupInputCapture_def Let_def o split: if_splits prod.splits option.splits sum.splits)
qed

lemma ioctls_open: "ufOpen (snd (ioctls kern rs f)) = ufOpen f"
  by (induction rs arbitrary: f) auto

lemma NewVirtualInput_open:
  assumes "NewVirtualInput o1 o2 k1 k2 w h = Inr vi"
  shows "ufOpen (mouseFile vi) \<and> ufOpen (kbdFile vi)"
proof -
  have i: "ioctls k rs f = (r, f') \<Longrightarrow> ufOpen f' = ufOpen f" for k rs f r f'
    using ioctls_open [of k rs f] by simp
  obtain f g where f: "setupMouse k1 w h new_file = (None, absAvailable vi, f)" "mouseFile vi = f"
    and g: "setupKeyboard k2 new_file = (None, g)" "kbdFile vi = g"
    using assms by (auto simp add: NewVirtualInput_def split: if_splits prod.splits option.splits)
  have "ufOpen f" using f(1)
    by (auto simp add: setupMouse_def setupAbsoluteAxes_def new_file_def dest!: i split: prod.splits option.splits
        simp del: ioctls.simps)
  moreover have "ufOpen g" using g(1)
    by (auto simp add: setupKeyboard_def new_file_def Let_def dest!: i split: prod.splits option.splits simp del: ioctls.simps)
  ultimately show ?thesis using f g by simp
qed

lemma fresh_inv:
  assumes "runSession rnd o1 o2 k1 k2 base glob nodes opens got cfg client = Inr s" and "\<forall>x. rnd (rnd x) = rnd x"
  shows "fine_inv rnd (fresh s)"
proof -
  note i = runSession_inv [OF assms]
  obtain vi where v: "NewVirtualInput o1 o2 k1 k2 (ScreenWidth cfg) (ScreenHeight cfg) = Inr vi"
    using assms(1) by (auto simp add: runSession_def Let_def split: sum.splits)
  obtain e where e: "setupInputCapture base glob nodes opens cfg = Inr e"
    using assms(1) v by (auto simp add: runSession_def Let_def split: sum.splits)
  have m: "fnCap (fresh s) = e" "fnVi (fresh s) = vi"
    using assms(1) v e by (auto simp add: runSession_def Let_def fresh_def)
  have r: "race_inv e" using setupInputCapture_inv [OF e] by (simp add: capture_race_inv)
  have "\<forall>i\<in>devices e. hOpen (handle e i)"
    using setupInputCapture_open [OF e] devices_in_range [OF r] by (auto simp add: all_open_def)
  then show ?thesis
    using i m r NewVirtualInput_open [OF v]
    by (simp add: fine_inv_def session_inv_def files_inv_def machine_inv_def fresh_def Let_def teardown_order)
qed

end
