(* ===== verification/Cleanup.thy ===== *)
theory Cleanup
  imports Teardown
begin

text \<open>
  What follows for the end of a session from the fine-grained model of \<open>Teardown\<close>: its invariant in
  terms of what the kernel holds, that the cleanup always reaches its end, and what a switch
  that comes too late does.
\<close>

section \<open>The cleanup by itself\<close>

text \<open>What the steps of the cleanup leave alone for the other goroutines.\<close>

definition quiet :: "Fine \<Rightarrow> Fine \<Rightarrow> bool" where
  "quiet s t \<longleftrightarrow> fnKbd t = fnKbd s \<and> fnMouse t = fnMouse s \<and>
     mouseDevs (fnCap t) = mouseDevs (fnCap s) \<and> kbdDevs (fnCap t) = kbdDevs (fnCap s) \<and>
     ecPressedKeys (fnCap t) = ecPressedKeys (fnCap s) \<and>
     (\<forall>i\<in>devices (fnCap s). hInfo (handle (fnCap t) i) = hInfo (handle (fnCap s) i)) \<and>
     (\<forall>i. reading s i \<longrightarrow> can_read s i \<longrightarrow> can_read t i) \<and>
     (IsRemote (fnCap t) \<longrightarrow> IsRemote (fnCap s) \<and> Closing \<le> fnPhase s)"

lemma quiet_trans:
  assumes "quiet s t" and "quiet t u" and "fnPhase t \<ge> Closing"
  shows "quiet s u"
proof -
  have "reading t i = reading s i" "devices (fnCap t) = devices (fnCap s)" for i
    using assms(1) by (simp_all add: quiet_def reading_def devices_def)
  then show ?thesis using assms by (simp add: quiet_def)
qed

text \<open>How far the cleanup still has to go.\<close>

definition work_left :: "Fine \<Rightarrow> nat" where
  "work_left s = (6 - teardown_rank (fnPhase s)) + (if fnPhase s = Closing then length (fnLeft s)
     else if fnPhase s = Woken then length (mouseDevs (fnCap s) @ kbdDevs (fnCap s)) else 0)"

text \<open>Its next step is always possible: the clipboard has not been stopped before.\<close>

lemma cleanup_advances:
  assumes "fine_inv rnd s" and "snEnding (fnSession s) \<noteq> Exited" and "Woken \<le> fnPhase s" and "fnPhase s < Finished"
  shows "\<exists>t. fine_step rnd table trim lower deflate inflate s t \<and> snEnding (fnSession t) \<noteq> Exited \<and>
    Closing \<le> fnPhase t \<and> work_left t < work_left s \<and> quiet s t"
proof -
  let ?step = "fine_step rnd table trim lower deflate inflate"
  have r: "race_inv (fnCap s)" and m: "machine_inv s" and f: "files_inv s" using assms(1,2) by (simp_all add: fine_inv_def)
  note d = quiet_def reading_def can_read_def work_left_def teardown_order
  note p = assms(2)
  show ?thesis
  proof (cases "fnPhase s")
    case Woken
    note u = Ungrab_local [OF race_invD(2,1,3) [OF r]]
    have h: "hOpen (handle (Ungrab (fnCap s)) i) = hOpen (handle (fnCap s) i)" for i
      using Ungrab_files [of "fnCap s" "fnCap s"] by (simp add: same_files_def)
    have "hInfo (handle (Ungrab (fnCap s)) i) = hInfo (handle (fnCap s) i)" for i
      by (rule Ungrab_info [OF race_invD(2,1) [OF r]])
    with fine_step.close_capture [OF p Woken] Woken p u h show ?thesis
      by (intro exI conjI) (assumption, simp_all add: d)
  next
    case Closing
    show ?thesis
    proof (cases "fnLeft s")
      case Nil
      from fine_step.closed_capture [OF p Closing Nil] Closing Nil p show ?thesis
        by (intro exI conjI) (assumption, simp_all add: d)
    next
      case (Cons i js)
      have i: "i < length (ecDevs (fnCap s))"
        using f Closing Cons devices_in_range [OF r] by (simp add: files_inv_def Let_def)
      note h = close_device_handle [OF i]
      have "ecPressedKeys (close_device i (fnCap s)) = ecPressedKeys (fnCap s)" by (simp add: close_device_def)
      with fine_step.close_file [OF p Closing Cons] Closing Cons p h show ?thesis
        by (intro exI conjI) (assumption, simp_all add: d)
    qed
  next
    case ClipStopping
    then obtain cl where "Clip_Stop (fnClip s) = Some cl" using m by (auto simp add: machine_inv_def Clip_Stop_def teardown_order)
    from fine_step.stop_clipboard [OF p ClipStopping this] ClipStopping p show ?thesis
      by (intro exI conjI) (assumption, simp_all add: d)
  next
    case VirtualClosing
    obtain order where "distinct order" "set order = pressedKeys (fnVi s)"
      using finite_distinct_list [of "pressedKeys (fnVi s)"] by auto
    from fine_step.release_keys [OF p VirtualClosing this] VirtualClosing p show ?thesis
      by (intro exI conjI) (assumption, simp_all add: d)
  next
    case Destroying
    from fine_step.destroy [OF p Destroying] Destroying show ?thesis
      by (intro exI conjI) (assumption, simp_all add: d)
  qed (use assms(3,4) in \<open>simp_all add: teardown_order\<close>)
qed

lemma cleanup_finishes:
  assumes "fine_inv rnd s" and "snEnding (fnSession s) \<noteq> Exited" and "Woken \<le> fnPhase s"
  shows "\<exists>t. (fine_step rnd table trim lower deflate inflate)\<^sup>*\<^sup>* s t \<and> snEnding (fnSession t) \<noteq> Exited \<and>
    fnPhase t = Finished \<and> (fnPhase s < Finished \<longrightarrow> quiet s t) \<and> (fnPhase s = Finished \<longrightarrow> t = s)"
  using assms
proof (induction "work_left s" arbitrary: s rule: less_induct)
  case less
  show ?case
  proof (cases "fnPhase s = Finished")
    case True
    then show ?thesis using less.prems(2) by (intro exI [of _ s]) simp
  next
    case False
    then have "fnPhase s < Finished" by (cases "fnPhase s") (simp_all add: teardown_order)
    from cleanup_advances [OF less.prems this]
    obtain t where t: "fine_step rnd table trim lower deflate inflate s t" "snEnding (fnSession t) \<noteq> Exited"
      "Closing \<le> fnPhase t" "work_left t < work_left s" "quiet s t" by blast
    have "Woken \<le> fnPhase t" using t(3) by (simp add: teardown_order)
    from less.hyps [OF t(4) fine_step_inv [OF t(1) less.prems(1)] t(2) this]
    obtain u where u: "(fine_step rnd table trim lower deflate inflate)\<^sup>*\<^sup>* t u" "snEnding (fnSession u) \<noteq> Exited"
      "fnPhase u = Finished" "fnPhase t < Finished \<longrightarrow> quiet t u" "fnPhase t = Finished \<longrightarrow> u = t" by blast
    have "quiet s u"
    proof (cases "fnPhase t = Finished")
      case True
      with u(5) t(5) show ?thesis by simp
    next
      case False
      then have "fnPhase t < Finished" by (cases "fnPhase t") (simp_all add: teardown_order)
      with u(4) show ?thesis using quiet_trans [OF t(5) _ t(3)] by simp
    qed
    with t(1) u False show ?thesis by (intro exI [of _ u]) (simp add: converse_rtranclp_into_rtranclp)
  qed
qed

text \<open>The reads that were still in progress return one after the other.\<close>

lemma reads_return:
  assumes "finite A" and "snEnding (fnSession s) \<noteq> Exited" and "A \<subseteq> fnLate s"
  shows "(fine_step rnd table trim lower deflate inflate)\<^sup>*\<^sup>* s (s\<lparr>fnLate := fnLate s - A\<rparr>)"
  using assms(1,3)
proof (induction rule: finite_induct)
  case (insert i A)
  let ?t = "s\<lparr>fnLate := fnLate s - A\<rparr>"
  have "fine_step rnd table trim lower deflate inflate ?t (?t\<lparr>fnLate := fnLate ?t - {i}\<rparr>)"
    by (rule fine_step.read_fails) (use assms(2) insert in auto)
  moreover have "fnLate s - A - {i} = fnLate s - insert i A" by blast
  then have "?t\<lparr>fnLate := fnLate ?t - {i}\<rparr> = s\<lparr>fnLate := fnLate s - insert i A\<rparr>" by simp
  ultimately show ?case using insert by (metis insert_subset rtranclp.rtrancl_into_rtrancl)
qed simp

lemma late_finite: "fine_inv rnd s \<Longrightarrow> snEnding (fnSession s) \<noteq> Exited \<Longrightarrow> finite (fnLate s)"
  by (rule finite_subset [of _ "devices (fnCap s)"]) (auto simp add: fine_inv_def files_inv_def Let_def devices_def)

lemma cleanup_completes:
  assumes "fine_inv rnd s" and "snEnding (fnSession s) \<noteq> Exited" and "Woken \<le> fnPhase s"
  shows "\<exists>t. (fine_step rnd table trim lower deflate inflate)\<^sup>*\<^sup>* s t \<and> snEnding (fnSession t) \<noteq> Exited \<and>
    fnPhase t = Finished \<and> fnLate t = {} \<and> held t = {} \<and> (\<forall>i\<in>devices (fnCap t). \<not> hOpen (handle (fnCap t) i)) \<and>
    clipStopped (fnClip t) \<and> \<not> ufOpen (mouseFile (fnVi t)) \<and> \<not> ufOpen (kbdFile (fnVi t))"
proof -
  from cleanup_finishes [OF assms]
  obtain u where u: "(fine_step rnd table trim lower deflate inflate)\<^sup>*\<^sup>* s u" "snEnding (fnSession u) \<noteq> Exited"
    "fnPhase u = Finished" by blast
  have iu: "fine_inv rnd u" by (rule fine.run_inv [OF u(1) assms(1)])
  let ?t = "u\<lparr>fnLate := {}\<rparr>"
  have "(fine_step rnd table trim lower deflate inflate)\<^sup>*\<^sup>* u ?t"
    using reads_return [OF late_finite [OF iu u(2)] u(2) order_refl] by simp
  with u(1) have st: "(fine_step rnd table trim lower deflate inflate)\<^sup>*\<^sup>* s ?t" by simp
  have it: "fine_inv rnd ?t" by (rule fine.run_inv [OF st assms(1)])
  have "ecKernel (fnCap ?t) \<subseteq> devices (fnCap ?t)" using it race_invD(3) [of "fnCap ?t"] by (simp add: fine_inv_def devices_def)
  with st it u(2,3) show ?thesis
    by (intro exI [of _ ?t])
      (auto simp add: fine_inv_def files_inv_def machine_inv_def held_def gone_def Let_def teardown_order)
qed

section \<open>A switch that comes too late\<close>

lemma run_callbacks_nil [simp]: "run_callbacks rnd table clock [] t = t"
  by (simp add: run_callbacks_def stamped_def)

lemma set_cap_twice [simp]: "set_cap e (set_cap f t) = set_cap e t"
  by (simp add: set_cap_def)

text \<open>A section without callbacks that does not meet the pressed keys.\<close>

lemma silent_act:
  assumes "snEnding (fnSession s) \<noteq> Exited" and "dev \<in> set (kbdDevs (fnCap s))"
    and "\<And>order. kbd_action trim lower (\<lambda>i. \<not> gone s i) order 0 dev (fnKbd s dev) (fnCap s) = (pc, e, [])"
  shows "fine_step rnd table trim lower deflate inflate s
    (s\<lparr>fnSession := set_cap e (fnSession s), fnKbd := (fnKbd s)(dev := pc)\<rparr>)"
proof -
  obtain order where "distinct order" "set order = ecPressedKeys (fnCap s)"
    using finite_distinct_list [of "ecPressedKeys (fnCap s)"] by auto
  from fine_step.kbd_act [OF assms(1,2) this _ assms(3)] show ?thesis by simp
qed

text \<open>The press of a key that is read in local mode, up to the place where the shortcut is looked for.\<close>

definition tracked_press :: "u16 \<Rightarrow> Fine \<Rightarrow> nat \<Rightarrow> Fine" where
  "tracked_press c s dev =
    (let e = (fnCap s)\<lparr>ecPressedKeys := insert c (ecPressedKeys (fnCap s))\<rparr>
     in s\<lparr>fnLate := fnLate s - {dev}, fnSession := set_cap e (fnSession s),
          fnKbd := (fnKbd s)(dev := KTracked (sample_event c 1) False (activeKbdDev (fnCap s)))\<rparr>)"

lemma press_tracked:
  assumes "snEnding (fnSession s) \<noteq> Exited" and "dev \<in> set (kbdDevs (fnCap s))" and "fnKbd s dev = KRead" and "can_read s dev"
    and "\<not> IsRemote (fnCap s)" and "\<not> isMouseButtonCode c"
  shows "(fine_step rnd table trim lower deflate inflate)\<^sup>*\<^sup>* s (tracked_press c s dev)"
proof -
  let ?s = "s\<lparr>fnKbd := (fnKbd s)(dev := KEvent (sample_event c 1)), fnLate := fnLate s - {dev}\<rparr>"
  have 1: "fine_step rnd table trim lower deflate inflate s ?s" by (rule fine_step.kbd_read [OF assms(1-4)])
  have 2: "fine_step rnd table trim lower deflate inflate ?s (tracked_press c s dev)"
    using silent_act [of ?s dev trim lower "KTracked (sample_event c 1) False (activeKbdDev (fnCap s))"
        "(fnCap s)\<lparr>ecPressedKeys := insert c (ecPressedKeys (fnCap s))\<rparr>"] assms
    by (simp add: tracked_press_def Let_def pressed_after_def set_cap_def)
  from 1 2 show ?thesis by simp
qed

lemma late_grab:
  assumes "fine_inv rnd s" and "snEnding (fnSession s) \<noteq> Exited" and "\<not> IsRemote (fnCap s)" and "hasWin (fnCap s)"
    and "k \<in> set (kbdDevs (fnCap s))" and "fnKbd s k = KRead" and "can_read s k"
    and "k2 \<in> set (kbdDevs (fnCap s))" and "k2 \<noteq> k" and "can_read s k2"
    and "\<not> isMouseDevicePath (dPath (hInfo (handle (fnCap s) k2))) (fnCap s)"
  shows "\<exists>t. (fine_step rnd table trim lower deflate inflate)\<^sup>*\<^sup>* s t \<and> fnPhase t = fnPhase s \<and>
    IsRemote (fnCap t) \<and> k2 \<in> held t \<and> devices (fnCap t) = devices (fnCap s) \<and>
    (\<forall>i. hOpen (handle (fnCap t) i) = hOpen (handle (fnCap s) i))"
proof -
  let ?step = "fine_step rnd table trim lower deflate inflate"
  let ?ev = "sample_event 59 1"
  let ?a = "activeKbdDev (fnCap s)"
  let ?e = "(fnCap s)\<lparr>ecPressedKeys := insert 59 (ecPressedKeys (fnCap s))\<rparr>"
  let ?t = "tracked_press 59 s k"
  let ?u = "?t\<lparr>fnKbd := (fnKbd ?t)(k := KWin ?ev False ?a)\<rparr>"
  let ?v = "?u\<lparr>fnKbd := (fnKbd ?u)(k := KGrab)\<rparr>"
  have f: "fnCap ?t = ?e" "fnKbd ?t k = KTracked ?ev False ?a" "snEnding (fnSession ?t) = snEnding (fnSession s)"
    "fnPhase ?t = fnPhase s" "fnLate ?t = fnLate s - {k}" "set_cap ?e (fnSession ?t) = fnSession ?t"
    by (simp_all add: tracked_press_def Let_def set_cap_def)
  have 1: "?step\<^sup>*\<^sup>* s ?t" by (rule press_tracked [OF assms(2,5,6,7,3)]) (simp add: isMouseButtonCode_def)
  have 2: "?step ?t ?u"
    using silent_act [of ?t k trim lower "KWin ?ev False ?a" ?e] assms(2,5) f by simp
  have 3: "?step ?u ?v"
    using silent_act [of ?u k trim lower KGrab ?e] assms(2,4,5) f by (simp add: hasWin_def)
  have "?step\<^sup>*\<^sup>* s ?v" using 1 2 3 by simp
  then have iv: "fine_inv rnd ?v" by (rule fine.run_inv [OF _ assms(1)])
  have r: "race_inv ?e" using iv f by (simp add: fine_inv_def)
  obtain order where o: "distinct order" "set order = ecPressedKeys ?e"
    using finite_distinct_list [of "ecPressedKeys ?e"] by auto
  let ?ok = "\<lambda>i. \<not> gone ?v i"
  obtain e2 cs where g: "Grab ?ok order None ?e = (e2, cs)" by fastforce
  let ?w = "?v\<lparr>fnSession := run_callbacks rnd table (\<lambda>_. 0) cs (set_cap e2 (fnSession ?v)), fnKbd := (fnKbd ?v)(k := KEdge)\<rparr>"
  have 4: "?step ?v ?w"
    using fine_step.kbd_act [of ?v k order ?ok trim lower 0 KEdge e2 cs rnd table deflate inflate "\<lambda>_. 0"] assms(2,5) f o g
    by simp
  have em: "Emergency \<notin> set cs" using g by (auto simp add: Grab_def Let_def call_def)
  have e2: "IsRemote e2" "same_files ?e e2"
    using g Grab_race_inv(3) [OF r, of ?ok order] Grab_files [of ?e ?e ?ok order None] by simp_all
  have k2: "k2 \<in> ecKernel e2"
  proof -
    have ok: "?ok k2" using assms(9,10) f by (auto simp add: gone_def can_read_def)
    show ?thesis by (rule Grab_takes [OF r g, of k2]) (use ok assms(8,11) in \<open>simp_all add: isMouseDevicePath_def\<close>)
  qed
  have w: "fnCap ?w = e2" using em by simp
  have op: "hOpen (handle e2 i) = hOpen (handle (fnCap s) i)" for i using e2(2) by (simp add: same_files_def)
  have "k2 \<in> held ?w" using k2 w f op assms(9,10) by (simp add: held_def gone_def can_read_def)
  moreover have "?step\<^sup>*\<^sup>* s ?w" using 1 2 3 4 by simp
  moreover have "devices e2 = devices (fnCap s)" using devices_files [OF e2(2)] by (simp add: devices_def)
  ultimately show ?thesis using e2(1) w f op by (intro exI [of _ ?w]) simp
qed

text \<open>A session with a mouse and two keyboards, and the press of a Win key in it.\<close>

definition two_keyboards :: "gostring \<Rightarrow> Node option" where
  "two_keyboards p = (if p = [1] then Some mouse_node else if p = [2] \<or> p = [3] then Some kbd_node else None)"

definition sample_config :: Config where
  "sample_config = default_config\<lparr>SecurityKey := gostr ''key'', RemoteAddress := gostr ''10.0.0.2''\<rparr>"

lemma two_keyboards_session:
  "\<exists>s. runSession (\<lambda>x. x) True True (\<lambda>_. True) (\<lambda>_. True) (\<lambda>p. p) (Some [[1], [2], [3]]) two_keyboards (\<lambda>_. True) (Inr [])
      sample_config sample_client = Inr s \<and> snEnding s = Ongoing \<and> \<not> IsRemote (mEvdev (snMachine s)) \<and>
     kbdDevs (mEvdev (snMachine s)) = [1, 2] \<and> \<not> isMouseDevicePath (dPath (hInfo (handle (mEvdev (snMachine s)) 2))) (mEvdev (snMachine s)) \<and>
     (\<forall>i\<in>{1, 2}. hOpen (handle (mEvdev (snMachine s)) i))"
proof -
  obtain vi where v: "NewVirtualInput True True (\<lambda>_. True) (\<lambda>_. True) 1920 1080 = Inr vi"
    using NewVirtualInput_ok by blast
  obtain r e where e: "DiscoverAndOpen (Some [[1], [2], [3]]) two_keyboards (\<lambda>_. True) (NewEvdevCapture 1920 1080) = (r, e)" by fastforce
  have "(\<lambda>(r, e). r = None \<and> \<not> IsRemote e \<and> kbdDevs e = [1, 2] \<and> \<not> isMouseDevicePath (dPath (hInfo (handle e 2))) e \<and>
      hOpen (handle e 1) \<and> hOpen (handle e 2))
      (DiscoverAndOpen (Some [[1], [2], [3]]) two_keyboards (\<lambda>_. True) (NewEvdevCapture 1920 1080))" by code_simp
  with e v show ?thesis
    by (simp add: runSession_def sample_config_def default_config_def Let_def setupInputCapture_def isMouseDevicePath_def)
qed

lemma local_press:
  assumes "snEnding (fnSession s) \<noteq> Exited" and "dev \<in> set (kbdDevs (fnCap s))" and "fnKbd s dev = KRead" and "can_read s dev"
    and "\<not> IsRemote (fnCap s)" and "plain_key c"
  shows "(fine_step rnd table trim lower deflate inflate)\<^sup>*\<^sup>* s ((tracked_press c s dev)\<lparr>fnKbd := fnKbd s\<rparr>)"
proof -
  let ?step = "fine_step rnd table trim lower deflate inflate"
  let ?a = "activeKbdDev (fnCap s)"
  let ?e = "(fnCap s)\<lparr>ecPressedKeys := insert c (ecPressedKeys (fnCap s))\<rparr>"
  let ?t = "tracked_press c s dev"
  let ?u = "?t\<lparr>fnKbd := (fnKbd ?t)(dev := KRest (sample_event c 1) False ?a)\<rparr>"
  have nk: "\<not> isMouseButtonCode c" "c \<noteq> 59" "c \<noteq> 60" "c \<noteq> 119" using assms(6) by (simp_all add: plain_key_def)
  have f: "fnCap ?t = ?e" "fnKbd ?t = (fnKbd s)(dev := KTracked (sample_event c 1) False ?a)"
    "snEnding (fnSession ?t) = snEnding (fnSession s)" "set_cap ?e (fnSession ?t) = fnSession ?t"
    by (simp_all add: tracked_press_def Let_def set_cap_def)
  have 1: "?step\<^sup>*\<^sup>* s ?t" by (rule press_tracked [OF assms(1-5) nk(1)])
  have 2: "?step ?t ?u"
    using silent_act [of ?t dev trim lower "KRest (sample_event c 1) False ?a" ?e] assms(1,2) f nk by simp
  have 3: "?step ?u (?t\<lparr>fnKbd := fnKbd s\<rparr>)"
    using silent_act [of ?u dev trim lower KRead ?e] assms(1,2,3) f by (simp add: fun_upd_idem)
  from 1 2 3 show ?thesis by simp
qed

text \<open>The same session, woken while the Win key is down.\<close>

lemma woken_session:
  "\<exists>s0 s. runSession (\<lambda>x. x) True True (\<lambda>_. True) (\<lambda>_. True) (\<lambda>p. p) (Some [[1], [2], [3]]) two_keyboards (\<lambda>_. True) (Inr [])
      sample_config sample_client = Inr s0 \<and>
     (fine_step (\<lambda>x. x) (LinuxToVK VKToLinux_table) id id toy_deflate toy_inflate)\<^sup>*\<^sup>* (fresh s0) s \<and>
     fnPhase s = Woken \<and> snEnding (fnSession s) = Ongoing \<and> \<not> IsRemote (fnCap s) \<and> hasWin (fnCap s) \<and>
     kbdDevs (fnCap s) = [1, 2] \<and> fnKbd s = (\<lambda>_. KRead) \<and>
     \<not> isMouseDevicePath (dPath (hInfo (handle (fnCap s) 2))) (fnCap s)"
proof -
  let ?step = "fine_step (\<lambda>x. x) (LinuxToVK VKToLinux_table) id id toy_deflate toy_inflate"
  obtain s0 where s0: "runSession (\<lambda>x. x) True True (\<lambda>_. True) (\<lambda>_. True) (\<lambda>p. p) (Some [[1], [2], [3]]) two_keyboards (\<lambda>_. True) (Inr [])
      sample_config sample_client = Inr s0" and f: "snEnding s0 = Ongoing" "\<not> IsRemote (mEvdev (snMachine s0))"
    "kbdDevs (mEvdev (snMachine s0)) = [1, 2]" "\<forall>i\<in>{1, 2}. hOpen (handle (mEvdev (snMachine s0)) i)"
    "\<not> isMouseDevicePath (dPath (hInfo (handle (mEvdev (snMachine s0)) 2))) (mEvdev (snMachine s0))"
    using two_keyboards_session by blast
  let ?p = "(tracked_press 125 (fresh s0) 1)\<lparr>fnKbd := fnKbd (fresh s0)\<rparr>"
  let ?s = "?p\<lparr>fnPhase := Woken\<rparr>"
  have c: "fnCap ?s = (mEvdev (snMachine s0))\<lparr>ecPressedKeys := insert 125 (ecPressedKeys (mEvdev (snMachine s0)))\<rparr>"
    "fnKbd ?s = (\<lambda>_. KRead)" "snEnding (fnSession ?s) = Ongoing" "fnPhase ?p = Serving" "fnPhase ?s = Woken"
    using f(1) by (simp_all add: tracked_press_def Let_def fresh_def)
  have 1: "?step\<^sup>*\<^sup>* (fresh s0) ?p"
    by (rule local_press) (use f in \<open>simp_all add: fresh_def can_read_def plain_key_def isMouseButtonCode_def\<close>)
  have 2: "?step ?p ?s" by (rule fine_step.wake) (use c in simp_all)
  have r: "?step\<^sup>*\<^sup>* (fresh s0) ?s" using 1 2 by simp
  have "hasWin (fnCap ?s) \<and> kbdDevs (fnCap ?s) = [1, 2] \<and> \<not> IsRemote (fnCap ?s) \<and>
      \<not> isMouseDevicePath (dPath (hInfo (handle (fnCap ?s) 2))) (fnCap ?s)"
    using f(2,3,5) unfolding c(1) by (simp add: hasWin_def isMouseDevicePath_def)
  with r s0 c show ?thesis by blast
qed

text \<open>What the kernel holds for a session.\<close>

lemma held_inv:
  assumes "fine_inv rnd s"
  shows "\<not> IsRemote (fnCap s) \<or> snEnding (fnSession s) = Exited \<or> Closing < fnPhase s \<and> fnLate s = {} \<Longrightarrow> held s = {}"
    and "i \<in> held s \<Longrightarrow> activeMouseDev (fnCap s) = Some i \<or>
       i \<in> set (kbdDevs (fnCap s)) \<and> \<not> isMouseDevicePath (dPath (hInfo (handle (fnCap s) i))) (fnCap s)"
proof -
  have r: "race_inv (fnCap s)" using assms by (simp add: fine_inv_def)
  have k: "ecKernel (fnCap s) \<subseteq> devices (fnCap s)" using race_invD(3) [OF r] by (simp add: devices_def)
  have "held s = {}" if "Closing < fnPhase s" "fnLate s = {}" "snEnding (fnSession s) \<noteq> Exited"
    using assms that k by (auto simp add: fine_inv_def files_inv_def held_def gone_def Let_def)
  moreover have h: "held s \<subseteq> ecKernel (fnCap s)" by (auto simp add: held_def)
  ultimately show "\<not> IsRemote (fnCap s) \<or> snEnding (fnSession s) = Exited \<or> Closing < fnPhase s \<and> fnLate s = {} \<Longrightarrow> held s = {}"
    using assms by (auto simp add: fine_inv_def race_inv_def)
  show "i \<in> held s \<Longrightarrow> activeMouseDev (fnCap s) = Some i \<or>
       i \<in> set (kbdDevs (fnCap s)) \<and> \<not> isMouseDevicePath (dPath (hInfo (handle (fnCap s) i))) (fnCap s)"
    using h r by (auto simp add: race_inv_def)
qed

section \<open>Properties\<close>







end
