(* ===== verification/Program.thy ===== *)
theory Program
  imports Cleanup
begin

text \<open>
  The whole process: the loop of \<open>main\<close> with the sessions it starts.  A session that has ended
  stays in the process, with the goroutines that its cleanup has not stopped yet, while the
  next connection is made.
\<close>

section \<open>The process\<close>

text \<open>The sessions are the newest first.\<close>

record Process =
  pgPhase :: phase
  pgSessions :: "Fine list"

definition launch :: "Config \<Rightarrow> Process" where
  "launch cfg = \<lparr>pgPhase = main_start cfg, pgSessions = []\<rparr>"

fun over :: "phase \<Rightarrow> bool" where
  "over (Exit n) = True"
| "over Returned = True"
| "over _ = False"

fun serving :: "phase \<Rightarrow> bool" where
  "serving (Running c) = True"
| "serving _ = False"

text \<open>What \<open>runSession\<close> may give for a client, whatever devices there are.\<close>

definition may_start :: "(rat \<Rightarrow> rat) \<Rightarrow> Config \<Rightarrow> Client \<Rightarrow> fatal + Session \<Rightarrow> bool" where
  "may_start rnd cfg c r \<longleftrightarrow> (\<exists>openA openB kernA kernB base glob nodes opens got.
     r = runSession rnd openA openB kernA kernB base glob nodes opens got cfg c)"

text \<open>
  \<open>main\<close> takes its steps; it leaves the session, by a signal or because the connection was lost,
  when it has cancelled the context and so woken the cleanup.  The emergency call of any
  session exits, and so does a session that cannot be set up.
\<close>

inductive process_step ::
  "(rat \<Rightarrow> rat) \<Rightarrow> (u16 \<Rightarrow> i32 option) \<Rightarrow> (gostring \<Rightarrow> gostring) \<Rightarrow> (gostring \<Rightarrow> gostring) \<Rightarrow> (bytes \<Rightarrow> bytes)
   \<Rightarrow> (bytes \<Rightarrow> bytes option) \<Rightarrow> (run_error + Client \<Rightarrow> bool) \<Rightarrow> Config \<Rightarrow> Process \<Rightarrow> Process \<Rightarrow> bool"
  for rnd table trim lower deflate inflate attempt cfg where
  main: "main_step attempt cfg (pgPhase p) q \<Longrightarrow> \<not> serving (pgPhase p) \<Longrightarrow> \<not> serving q \<Longrightarrow>
     process_step rnd table trim lower deflate inflate attempt cfg p (p\<lparr>pgPhase := q\<rparr>)"
| start: "main_step attempt cfg (pgPhase p) (Running c) \<Longrightarrow> may_start rnd cfg c (Inr s) \<Longrightarrow>
     process_step rnd table trim lower deflate inflate attempt cfg p
       (p\<lparr>pgPhase := Running c, pgSessions := fresh s # pgSessions p\<rparr>)"
| no_devices: "main_step attempt cfg (pgPhase p) (Running c) \<Longrightarrow> may_start rnd cfg c (Inl e) \<Longrightarrow>
     process_step rnd table trim lower deflate inflate attempt cfg p (p\<lparr>pgPhase := Exit 1\<rparr>)"
| leave: "pgPhase p = Running c \<Longrightarrow> main_step attempt cfg (Running c) q \<Longrightarrow> pgSessions p = s # old \<Longrightarrow>
     Woken \<le> fnPhase s \<Longrightarrow>
     process_step rnd table trim lower deflate inflate attempt cfg p (p\<lparr>pgPhase := q\<rparr>)"
| goroutine: "\<not> over (pgPhase p) \<Longrightarrow> i < length (pgSessions p) \<Longrightarrow>
     fine_step rnd table trim lower deflate inflate (pgSessions p ! i) t \<Longrightarrow>
     process_step rnd table trim lower deflate inflate attempt cfg p
       (p\<lparr>pgPhase := (if snEnding (fnSession t) = Exited then Exit 1 else pgPhase p), pgSessions := (pgSessions p)[i := t]\<rparr>)"

section \<open>The invariant\<close>

text \<open>
  Every session is as \<open>Teardown\<close> says; only the newest can still be serving, and only while \<open>main\<close>
  waits for its end; a session in which the emergency call was made ends the process.
\<close>

definition process_inv :: "(rat \<Rightarrow> rat) \<Rightarrow> Process \<Rightarrow> bool" where
  "process_inv rnd p \<longleftrightarrow>
     (\<forall>s\<in>set (pgSessions p). fine_inv rnd s) \<and>
     (\<not> over (pgPhase p) \<longrightarrow> (\<forall>s\<in>set (pgSessions p). snEnding (fnSession s) \<noteq> Exited)) \<and>
     (\<forall>s\<in>set (tl (pgSessions p)). Woken \<le> fnPhase s) \<and>
     (serving (pgPhase p) \<longrightarrow> pgSessions p \<noteq> []) \<and>
     (\<not> serving (pgPhase p) \<and> \<not> over (pgPhase p) \<longrightarrow> (\<forall>s\<in>set (pgSessions p). Woken \<le> fnPhase s))"

lemma fine_step_phase: "fine_step rnd table trim lower deflate inflate s t \<Longrightarrow> fnPhase s \<le> fnPhase t"
  by (induction rule: fine_step.induct) (simp_all add: teardown_order)

lemma may_start_fresh:
  assumes "may_start rnd cfg c (Inr s)" and "\<forall>x. rnd (rnd x) = rnd x"
  shows "fine_inv rnd (fresh s)" and "snEnding s = Ongoing" and "fnPhase (fresh s) = Serving"
  using assms fresh_inv runSession_inv by (auto simp add: may_start_def fresh_def)

lemma set_tl_update: "set (tl (xs[i := x])) \<subseteq> (if i = 0 then set (tl xs) else insert x (set (tl xs)))"
  by (cases xs; cases i) (auto dest: set_update_subset_insert [THEN subsetD])

lemma main_step_over: "main_step attempt cfg p q \<Longrightarrow> \<not> over p"
  by (auto elim: main_stepE)

lemma process_step_inv:
  assumes "process_step rnd table trim lower deflate inflate attempt cfg p q" and "process_inv rnd p"
    and "\<forall>x. rnd (rnd x) = rnd x"
  shows "process_inv rnd q"
  using assms(1,2)
proof (induction rule: process_step.induct)
  case (main p q)
  then show ?case using main_step_over by (fastforce simp add: process_inv_def)
next
  case (start p c s)
  have "\<not> serving (pgPhase p)" "\<not> over (pgPhase p)" using start.hyps(1) by (auto elim: main_stepE)
  then show ?case using start may_start_fresh [OF start.hyps(2) assms(3)] by (simp add: process_inv_def fresh_def)
next
  case (leave p c q s old)
  then show ?case by (auto simp add: process_inv_def elim: main_stepE)
next
  case (goroutine p i t)
  have s: "pgSessions p ! i \<in> set (pgSessions p)" using goroutine.hyps(2) by simp
  have ph: "fnPhase (pgSessions p ! i) \<le> fnPhase t" by (rule fine_step_phase [OF goroutine.hyps(3)])
  have "fine_inv rnd t" using fine_step_inv [OF goroutine.hyps(3)] s goroutine.prems by (simp add: process_inv_def)
  moreover have "set ((pgSessions p)[i := t]) \<subseteq> insert t (set (pgSessions p))" by (rule set_update_subset_insert)
  moreover have "Woken \<le> fnPhase t" if "i \<noteq> 0"
  proof -
    have "pgSessions p ! i \<in> set (tl (pgSessions p))"
      using that goroutine.hyps(2) by (cases "pgSessions p"; cases i) simp_all
    with goroutine.prems ph show ?thesis by (fastforce simp add: process_inv_def)
  qed
  moreover have "Woken \<le> fnPhase t" if "\<not> serving (pgPhase p)"
    using that goroutine.hyps(1) goroutine.prems s ph by (fastforce simp add: process_inv_def)
  ultimately show ?case
    using goroutine.prems set_tl_update [of "pgSessions p" i t] goroutine.hyps(1)
    by (auto simp add: process_inv_def split: if_splits)
qed (simp add: process_inv_def)

interpretation process: invariant_system "process_step rnd table trim lower deflate inflate attempt cfg"
    "\<lambda>p. process_inv rnd p \<and> (\<forall>x. rnd (rnd x) = rnd x)" for rnd table trim lower deflate inflate attempt cfg
  by unfold_locales (use process_step_inv in blast)

lemma launch_inv: "process_inv rnd (launch cfg)"
  by (simp add: launch_def process_inv_def main_start_def)

lemma reachable_inv:
  assumes "(process_step rnd table trim lower deflate inflate attempt cfg)\<^sup>*\<^sup>* (launch cfg) p" and "\<forall>x. rnd (rnd x) = rnd x"
  shows "process_inv rnd p"
  using process.run_inv [OF assms(1)] launch_inv assms(2) by blast

section \<open>Runs of one session in the process\<close>

lemma exited_stuck: "fine_step rnd table trim lower deflate inflate s t \<Longrightarrow> snEnding (fnSession s) \<noteq> Exited"
  by (induction rule: fine_step.induct) simp_all

lemma session_run:
  assumes "(fine_step rnd table trim lower deflate inflate)\<^sup>*\<^sup>* (pgSessions p ! i) t" and "snEnding (fnSession t) \<noteq> Exited"
    and "\<not> over (pgPhase p)" and "i < length (pgSessions p)"
  shows "(process_step rnd table trim lower deflate inflate attempt cfg)\<^sup>*\<^sup>* p (p\<lparr>pgSessions := (pgSessions p)[i := t]\<rparr>)"
  using assms(1,2)
proof (induction rule: rtranclp_induct)
  case base
  then show ?case by simp
next
  case (step u v)
  let ?p = "p\<lparr>pgSessions := (pgSessions p)[i := u]\<rparr>"
  have "process_step rnd table trim lower deflate inflate attempt cfg ?p
      (?p\<lparr>pgPhase := (if snEnding (fnSession v) = Exited then Exit 1 else pgPhase ?p), pgSessions := (pgSessions ?p)[i := v]\<rparr>)"
    by (rule process_step.goroutine) (use assms(3,4) step.hyps(2) in simp_all)
  with step.IH exited_stuck [OF step.hyps(2)] step.prems show ?case by simp
qed

text \<open>All sessions that have been left are cleaned up, one after the other.\<close>

definition clean :: "Fine \<Rightarrow> bool" where
  "clean s \<longleftrightarrow> fnPhase s = Finished \<and> fnLate s = {} \<and> held s = {} \<and> (\<forall>i\<in>devices (fnCap s). \<not> hOpen (handle (fnCap s) i)) \<and>
     \<not> ufOpen (mouseFile (fnVi s)) \<and> \<not> ufOpen (kbdFile (fnVi s))"

lemma all_clean:
  assumes "process_inv rnd p" and "\<not> over (pgPhase p)" and "\<not> serving (pgPhase p)" and "k \<le> length (pgSessions p)"
    and "\<forall>x. rnd (rnd x) = rnd x"
  shows "\<exists>ss. (process_step rnd table trim lower deflate inflate attempt cfg)\<^sup>*\<^sup>* p (p\<lparr>pgSessions := ss\<rparr>) \<and>
    length ss = length (pgSessions p) \<and> (\<forall>i<k. clean (ss ! i))"
  using assms(4)
proof (induction k)
  case 0
  show ?case by (intro exI [of _ "pgSessions p"]) simp
next
  case (Suc k)
  let ?step = "process_step rnd table trim lower deflate inflate attempt cfg"
  obtain ss where ss: "?step\<^sup>*\<^sup>* p (p\<lparr>pgSessions := ss\<rparr>)" "length ss = length (pgSessions p)" "\<forall>i<k. clean (ss ! i)"
    using Suc by auto
  let ?p = "p\<lparr>pgSessions := ss\<rparr>"
  have i: "process_inv rnd ?p" using process.run_inv [OF ss(1)] assms(1,5) by blast
  have k: "k < length (pgSessions ?p)" using Suc.prems ss(2) by simp
  then have "ss ! k \<in> set (pgSessions ?p)" by simp
  with i assms(2,3) have s: "fine_inv rnd (ss ! k)" "snEnding (fnSession (ss ! k)) \<noteq> Exited" "Woken \<le> fnPhase (ss ! k)"
    unfolding process_inv_def by auto
  obtain t where t: "(fine_step rnd table trim lower deflate inflate)\<^sup>*\<^sup>* (ss ! k) t" "snEnding (fnSession t) \<noteq> Exited" "clean t"
    using cleanup_completes [OF s, of table trim lower deflate inflate] unfolding clean_def by blast
  have "?step\<^sup>*\<^sup>* ?p (?p\<lparr>pgSessions := (pgSessions ?p)[k := t]\<rparr>)"
    by (rule session_run) (use t assms(2) k in simp_all)
  with ss(1) have "?step\<^sup>*\<^sup>* p (p\<lparr>pgSessions := ss[k := t]\<rparr>)" by simp
  moreover have "\<forall>i<Suc k. clean (ss[k := t] ! i)" using ss(3) t(3) k by (simp add: less_Suc_eq nth_list_update)
  ultimately show ?case using ss(2) by (intro exI [of _ "ss[k := t]"]) simp
qed

text \<open>How a session starts.\<close>

lemma started:
  assumes "may_start rnd cfg c (Inr s)" and "\<forall>x. rnd (rnd x) = rnd x"
  shows "ssClient (snSender s) = c \<and> ssNextID (snSender s) = 0 \<and> held (fresh s) = {} \<and> pressedKeys (fnVi (fresh s)) = {}"
proof -
  obtain o1 o2 k1 k2 base glob nodes opens got where r:
    "runSession rnd o1 o2 k1 k2 base glob nodes opens got cfg c = Inr s" using assms(1) by (auto simp add: may_start_def)
  obtain vi where v: "NewVirtualInput o1 o2 k1 k2 (ScreenWidth cfg) (ScreenHeight cfg) = Inr vi"
    using r by (auto simp add: runSession_def Let_def split: sum.splits)
  obtain e where e: "setupInputCapture base glob nodes opens cfg = Inr e"
    using r v by (auto simp add: runSession_def Let_def split: sum.splits)
  have "pressedKeys vi = {}" using v by (auto simp add: NewVirtualInput_def split: if_splits prod.splits option.splits)
  moreover have "\<not> IsRemote e" using setupInputCapture_inv [OF e] by simp
  moreover have "snSender s = newSessionSender c (MachineID cfg) (clRemoteMachineID c)" "fnVi (fresh s) = vi" "fnCap (fresh s) = e"
    using r v e by (auto simp add: runSession_def Let_def fresh_def)
  ultimately show ?thesis using held_inv(1) [OF may_start_fresh(1) [OF assms]] by (simp add: newSessionSender_def)
qed

section \<open>Properties\<close>

text \<open>C3: At every moment of the process, through any number of lost connections and new sessions, and
  however the goroutines of all of them interleave: only the newest session can still be
  serving, and only while \<open>main\<close> waits for it; no session, old or new, holds a device in local
  mode, and in remote mode it holds at most its active mouse and keyboards that are not also a
  mouse; and one whose cleanup is over and whose reads have returned holds nothing.\<close>

theorem process_safe:
  assumes "(process_step rnd table trim lower deflate inflate attempt cfg)\<^sup>*\<^sup>* (launch cfg) p" and "\<forall>x. rnd (rnd x) = rnd x"
  shows "(\<forall>i<length (pgSessions p). fnPhase (pgSessions p ! i) = Serving \<longrightarrow> i = 0 \<and> (serving (pgPhase p) \<or> over (pgPhase p))) \<and>
    (\<forall>s\<in>set (pgSessions p).
       (\<not> IsRemote (fnCap s) \<or> Closing < fnPhase s \<and> fnLate s = {} \<longrightarrow> held s = {}) \<and>
       (\<forall>i\<in>held s. activeMouseDev (fnCap s) = Some i \<or>
          i \<in> set (kbdDevs (fnCap s)) \<and> \<not> isMouseDevicePath (dPath (hInfo (handle (fnCap s) i))) (fnCap s)))"
proof -
  have i: "process_inv rnd p" by (rule reachable_inv [OF assms])
  have w: "fnPhase s \<noteq> Serving" if "Woken \<le> fnPhase s" for s using that by (auto simp add: teardown_order)
  have "i = 0 \<and> (serving (pgPhase p) \<or> over (pgPhase p))"
    if "i < length (pgSessions p)" "fnPhase (pgSessions p ! i) = Serving" for i
  proof
    show "i = 0"
    proof (rule ccontr)
      assume "i \<noteq> 0"
      then have "pgSessions p ! i \<in> set (tl (pgSessions p))" using that(1) by (cases "pgSessions p"; cases i) simp_all
      with i w that(2) show False by (auto simp add: process_inv_def)
    qed
    have "pgSessions p ! i \<in> set (pgSessions p)" using that(1) by simp
    with i w that(2) show "serving (pgPhase p) \<or> over (pgPhase p)" unfolding process_inv_def by blast
  qed
  moreover have f: "fine_inv rnd s" if "s \<in> set (pgSessions p)" for s using i that by (simp add: process_inv_def)
  ultimately show ?thesis using held_inv [OF f] by blast
qed

text \<open>The process whose first session was just started.\<close>

lemma first_session:
  "\<exists>s. (process_step (\<lambda>x. x) table trim lower deflate inflate (\<lambda>_. True) sample_config)\<^sup>*\<^sup>* (launch sample_config)
      \<lparr>pgPhase = Running sample_client, pgSessions = [fresh s]\<rparr> \<and> may_start (\<lambda>x. x) sample_config sample_client (Inr s)"
proof -
  let ?step = "process_step (\<lambda>x. x) table trim lower deflate inflate (\<lambda>_. True) sample_config"
  obtain s where "runSession (\<lambda>x. x) True True (\<lambda>_. True) (\<lambda>_. True) (\<lambda>p. p) (Some [[1], [2], [3]]) two_keyboards (\<lambda>_. True) (Inr [])
      sample_config sample_client = Inr s" using two_keyboards_session by blast
  then have m: "may_start (\<lambda>x. x) sample_config sample_client (Inr s)" unfolding may_start_def by metis
  have "main_start sample_config = Connecting" by code_simp
  then have l: "launch sample_config = \<lparr>pgPhase = Connecting, pgSessions = []\<rparr>" "Mode sample_config \<noteq> gostr ''tui''"
    by (simp_all add: launch_def sample_config_def default_config_def gostr_def)
  have "?step \<lparr>pgPhase = Connecting, pgSessions = []\<rparr> \<lparr>pgPhase = Running sample_client, pgSessions = [fresh s]\<rparr>"
    using process_step.start [of "\<lambda>_. True" sample_config "\<lparr>pgPhase = Connecting, pgSessions = []\<rparr>" sample_client "\<lambda>x. x" s]
      main_step.connected [of sample_config "\<lambda>_. True" sample_client] l(2) m by simp
  with l m show ?thesis by auto
qed

theorem process_safe_witness:
  "\<exists>s. (process_step (\<lambda>x. x) (LinuxToVK VKToLinux_table) id id toy_deflate toy_inflate (\<lambda>_. True) sample_config)\<^sup>*\<^sup>*
      (launch sample_config) \<lparr>pgPhase = Running sample_client, pgSessions = [fresh s]\<rparr> \<and>
     (\<not> IsRemote (fnCap (fresh s)) \<longrightarrow> held (fresh s) = {})"
proof -
  obtain s where s: "(process_step (\<lambda>x. x) (LinuxToVK VKToLinux_table) id id toy_deflate toy_inflate (\<lambda>_. True) sample_config)\<^sup>*\<^sup>*
      (launch sample_config) \<lparr>pgPhase = Running sample_client, pgSessions = [fresh s]\<rparr>" using first_session by blast
  from process_safe [OF s] s show ?thesis by auto
qed

text \<open>C7: The program recovers from a lost connection: whatever happened before, when \<open>main\<close> has left a
  session, all sessions so far can be cleaned up completely, without a device held, and if then
  a connection is made and the devices are there, a new session starts, with packets numbered
  from 1, nothing pressed and nothing grabbed.\<close>

theorem process_recovers:
  assumes "(process_step rnd table trim lower deflate inflate attempt cfg)\<^sup>*\<^sup>* (launch cfg) p" and "\<forall>x. rnd (rnd x) = rnd x"
    and "pgPhase p = Waiting" and "Mode cfg \<noteq> gostr ''tui''" and "attempt (Inr c)" and "may_start rnd cfg c (Inr s)"
  shows "\<exists>q old. (process_step rnd table trim lower deflate inflate attempt cfg)\<^sup>*\<^sup>* p q \<and> pgPhase q = Running c \<and>
    pgSessions q = fresh s # old \<and> length old = length (pgSessions p) \<and> list_all clean old \<and>
    ssClient (snSender s) = c \<and> ssNextID (snSender s) = 0 \<and> held (fresh s) = {} \<and> pressedKeys (fnVi (fresh s)) = {}"
proof -
  let ?step = "process_step rnd table trim lower deflate inflate attempt cfg"
  have i: "process_inv rnd p" by (rule reachable_inv [OF assms(1,2)])
  obtain ss where ss: "?step\<^sup>*\<^sup>* p (p\<lparr>pgSessions := ss\<rparr>)" "length ss = length (pgSessions p)" "\<forall>i<length (pgSessions p). clean (ss ! i)"
    using all_clean [OF i _ _ order_refl assms(2), of table trim lower deflate inflate attempt cfg] assms(3) by auto
  let ?p = "p\<lparr>pgSessions := ss\<rparr>"
  let ?q = "?p\<lparr>pgPhase := Connecting\<rparr>"
  let ?r = "?q\<lparr>pgPhase := Running c, pgSessions := fresh s # pgSessions ?q\<rparr>"
  have 1: "?step ?p ?q" by (rule process_step.main) (use assms(3) main_step.again in simp_all)
  have 2: "?step ?q ?r" by (rule process_step.start) (use main_step.connected [of cfg attempt c] assms(4-6) in simp_all)
  have st: "?step\<^sup>*\<^sup>* p ?r" using ss(1) 1 2 by simp
  have "list_all clean ss" using ss(2,3) by (simp add: list_all_length)
  moreover have "ssClient (snSender s) = c \<and> ssNextID (snSender s) = 0 \<and> held (fresh s) = {} \<and> pressedKeys (fnVi (fresh s)) = {}"
    by (rule started [OF assms(6,2)])
  ultimately show ?thesis using st ss(2) by (intro exI [of _ ?r] exI [of _ ss]) simp
qed

theorem process_recovers_witness:
  "\<exists>s q. (process_step (\<lambda>x. x) (LinuxToVK VKToLinux_table) id id toy_deflate toy_inflate (\<lambda>_. True) sample_config)\<^sup>*\<^sup>*
      (launch sample_config) q \<and> pgPhase q = Running sample_client \<and>
     (\<exists>t. pgSessions q = [fresh s, t] \<and> clean t)"
proof -
  let ?step = "process_step (\<lambda>x. x) (LinuxToVK VKToLinux_table) id id toy_deflate toy_inflate (\<lambda>_. True) sample_config"
  let ?w = "\<lambda>s. (fresh s)\<lparr>fnPhase := Woken\<rparr>"
  obtain s where s: "?step\<^sup>*\<^sup>* (launch sample_config) \<lparr>pgPhase = Running sample_client, pgSessions = [fresh s]\<rparr>"
    "may_start (\<lambda>x. x) sample_config sample_client (Inr s)" using first_session by blast
  have e: "snEnding s = Ongoing" using may_start_fresh(2) [OF s(2)] by simp
  have "fine_step (\<lambda>x. x) (LinuxToVK VKToLinux_table) id id toy_deflate toy_inflate (fresh s) (?w s)"
    by (rule fine_step.wake) (use e in \<open>simp_all add: fresh_def\<close>)
  then have 1: "?step \<lparr>pgPhase = Running sample_client, pgSessions = [fresh s]\<rparr> \<lparr>pgPhase = Running sample_client, pgSessions = [?w s]\<rparr>"
    using process_step.goroutine [of "\<lparr>pgPhase = Running sample_client, pgSessions = [fresh s]\<rparr>" 0 "\<lambda>x. x"
        "LinuxToVK VKToLinux_table" id id toy_deflate toy_inflate "?w s" "\<lambda>_. True" sample_config] e by (simp add: fresh_def)
  have 2: "?step \<lparr>pgPhase = Running sample_client, pgSessions = [?w s]\<rparr> \<lparr>pgPhase = Waiting, pgSessions = [?w s]\<rparr>"
    using process_step.leave [of "\<lparr>pgPhase = Running sample_client, pgSessions = [?w s]\<rparr>" sample_client "\<lambda>_. True" sample_config
        Waiting "?w s" "[]"] main_step.lost by simp
  have r: "?step\<^sup>*\<^sup>* (launch sample_config) \<lparr>pgPhase = Waiting, pgSessions = [?w s]\<rparr>" using s(1) 1 2 by simp
  have m: "Mode sample_config \<noteq> gostr ''tui''" by (simp add: sample_config_def default_config_def gostr_def)
  obtain q old where q: "?step\<^sup>*\<^sup>* \<lparr>pgPhase = Waiting, pgSessions = [?w s]\<rparr> q" "pgPhase q = Running sample_client"
    "pgSessions q = fresh s # old" "length old = 1" "list_all clean old"
    using process_recovers [OF r _ _ m _ s(2)] by auto
  then obtain t where "old = [t]" "clean t" by (auto simp add: length_Suc_conv)
  with q r show ?thesis by (meson rtranclp_trans)
qed

end
