(* ===== verification/Atomic.thy ===== *)
theory Atomic
  imports Cleanup
begin

text \<open>
  How the two models of a session are related: every step of \<open>session_step\<close>, in which an event or a
  packet is handled at once and the cleanup is one step, is a run of \<open>fine_step\<close> in which no other
  goroutine comes in between.
\<close>

section \<open>Calls one after another\<close>

lemma send_list_append: "send_list f g (xs @ ys) s = send_list f g ys (send_list f g xs s)"
  by (induction xs arbitrary: s) auto

lemma stamped_append:
  "stamped clock (xs @ ys) = stamped clock xs @ stamped (\<lambda>i. clock (length xs + i)) ys"
proof -
  have "map clock [0..<length xs + length ys] = map clock [0..<length xs] @ map (\<lambda>i. clock (length xs + i)) [0..<length ys]"
    by (rule nth_equalityI) (auto simp add: nth_append less_diff_conv2 not_less)
  then show ?thesis by (simp add: stamped_def)
qed

lemma forward_all_append:
  "forward_all rnd table (cs @ ds) cu =
    (let (s1, cu) = forward_all rnd table cs cu; (s2, cu) = forward_all rnd table ds cu in (s1 @ s2, cu))"
  by (induction cs arbitrary: cu) (simp_all add: Let_def split_beta)

text \<open>The time of a call is that of its place in the whole sequence.\<close>

lemma run_callbacks_append:
  assumes "Emergency \<notin> set cs"
  shows "\<exists>clock1. run_callbacks rnd table clock (cs @ ds) t =
    run_callbacks rnd table clock1 ds (run_callbacks rnd table clock cs t)"
proof -
  obtain s1 c1 where 1: "forward_all rnd table cs (snCursor t) = (s1, c1)" by fastforce
  obtain s2 c2 where 2: "forward_all rnd table (takeWhile (\<lambda>c. c \<noteq> Emergency) ds) c1 = (s2, c2)" by fastforce
  have t1: "takeWhile (\<lambda>c. c \<noteq> Emergency) (cs @ ds) = cs @ takeWhile (\<lambda>c. c \<noteq> Emergency) ds"
    by (rule takeWhile_append2) (use assms in auto)
  have t2: "takeWhile (\<lambda>c. c \<noteq> Emergency) cs = cs" using assms by (auto simp add: takeWhile_eq_all_conv)
  note t = t1 t2
  show ?thesis
    using assms 1 2 by (intro exI [of _ "\<lambda>i. clock (length s1 + i)"])
      (simp add: run_callbacks_def t Let_def forward_all_append stamped_append send_list_append emergency_def)
qed

lemma run_callbacks_set_cap:
  "Emergency \<notin> set cs \<Longrightarrow> run_callbacks rnd table clock cs (set_cap e t) = set_cap e (run_callbacks rnd table clock cs t)"
  by (simp add: run_callbacks_def set_cap_def Let_def split_beta)

lemma set_cap_same: "mEvdev (snMachine t) = e \<Longrightarrow> set_cap e t = t"
  by (auto simp add: set_cap_def)

section \<open>A goroutine by itself\<close>

text \<open>\<open>order\<close> is only used in \<open>Grab\<close>, and lists the keys that are held there.\<close>

fun order_fits :: "u16 list \<Rightarrow> kpc \<Rightarrow> EvdevCapture \<Rightarrow> bool" where
  "order_fits order (KEvent ev) e \<longleftrightarrow> set order = pressed_after ev e"
| "order_fits order (KTracked ev r a) e \<longleftrightarrow> set order = ecPressedKeys e"
| "order_fits order (KWin ev r a) e \<longleftrightarrow> set order = ecPressedKeys e"
| "order_fits order KGrab e \<longleftrightarrow> set order = ecPressedKeys e"
| "order_fits order pc e \<longleftrightarrow> True"

lemma kbd_action_order:
  "pc \<noteq> KGrab \<Longrightarrow> kbd_action trim lower ok order now dev pc e = kbd_action trim lower ok order2 now dev pc e"
  by (cases pc) simp_all

lemma order_fits_next:
  assumes "kbd_action trim lower ok order now dev pc e = (pc2, e2, cs)" and "order_fits order pc e"
  shows "order_fits order pc2 e2"
  using assms by (cases pc) (auto simp add: button_section_def Let_def split: if_splits option.splits)

text \<open>A state in which only the goroutine of \<open>dev\<close> has moved.\<close>

definition kbd_at :: "Fine \<Rightarrow> nat \<Rightarrow> Session \<Rightarrow> kpc \<Rightarrow> Fine" where
  "kbd_at s dev t pc = s\<lparr>fnSession := t, fnKbd := (fnKbd s)(dev := pc)\<rparr>"

definition mouse_at :: "Fine \<Rightarrow> nat \<Rightarrow> Session \<Rightarrow> mpc \<Rightarrow> Fine" where
  "mouse_at s dev t pc = s\<lparr>fnSession := t, fnMouse := (fnMouse s)(dev := pc)\<rparr>"

lemma kbd_alone_fine:
  assumes "kbd_alone trim lower ok order now dev n pc e = (pc2, e2, cs)" and "Emergency \<notin> set cs"
    and "distinct order" and "order_fits order pc e" and "snEnding t \<noteq> Exited" and "mEvdev (snMachine t) = e"
    and "dev \<in> set (kbdDevs e)" and "\<forall>i\<in>devices e. hOpen (handle e i)"
  shows "(fine_step rnd table trim lower deflate inflate)\<^sup>*\<^sup>* (kbd_at s dev t pc)
    (kbd_at s dev (run_callbacks rnd table clock cs (set_cap e2 t)) pc2)"
  using assms(1,2,4-8)
proof (induction n arbitrary: pc e cs t clock)
  case 0
  then show ?case by (simp add: set_cap_same)
next
  case (Suc n)
  obtain pc1 e1 cs1 where a: "kbd_action trim lower ok order now dev pc e = (pc1, e1, cs1)" by (metis prod_cases3)
  obtain ds where d: "kbd_alone trim lower ok order now dev n pc1 e1 = (pc2, e2, ds)" and cs: "cs = cs1 @ ds"
    using Suc.prems(1) a by (cases "kbd_alone trim lower ok order now dev n pc1 e1") auto
  have em: "Emergency \<notin> set cs1" "Emergency \<notin> set ds" using Suc.prems(2) cs by auto
  obtain clock1 where c: "run_callbacks rnd table clock (cs1 @ ds) (set_cap e2 t) =
      run_callbacks rnd table clock1 ds (run_callbacks rnd table clock cs1 (set_cap e2 t))"
    using run_callbacks_append [OF em(1)] by blast
  let ?t = "run_callbacks rnd table clock cs1 (set_cap e1 t)"
  have f: "same_files e e1" by (rule kbd_action_files [OF a])
  have step: "fine_step rnd table trim lower deflate inflate (kbd_at s dev t pc) (kbd_at s dev ?t pc1)"
  proof -
    obtain order2 where o: "distinct order2" "set order2 = ecPressedKeys e" "kbd_action trim lower ok order2 now dev pc e = (pc1, e1, cs1)"
    proof (cases "pc = KGrab")
      case True
      then show ?thesis using that [of order] a assms(3) Suc.prems(3) by simp
    next
      case False
      obtain order2 where "distinct order2" "set order2 = ecPressedKeys e"
        using finite_distinct_list [of "ecPressedKeys e"] by auto
      then show ?thesis using that [of order2] a kbd_action_order [OF False, of trim lower ok order2 now dev e order] by simp
    qed
    show ?thesis
      using fine_step.kbd_act [of "kbd_at s dev t pc" dev order2 ok trim lower now pc1 e1 cs1 rnd table deflate inflate clock]
        Suc.prems(4-7) o by (auto simp add: kbd_at_def gone_def)
  qed
  have "(fine_step rnd table trim lower deflate inflate)\<^sup>*\<^sup>* (kbd_at s dev ?t pc1)
      (kbd_at s dev (run_callbacks rnd table clock1 ds (set_cap e2 ?t)) pc2)"
    using Suc.IH [OF d em(2) order_fits_next [OF a Suc.prems(3)], of ?t clock1] em(1) Suc.prems(4-7) f
      devices_files [OF f] by (simp add: same_files_def)
  moreover have "run_callbacks rnd table clock cs (set_cap e2 t) = run_callbacks rnd table clock1 ds (set_cap e2 ?t)"
    using c em(1) by (simp add: cs run_callbacks_set_cap)
  ultimately show ?case using step by (simp add: converse_rtranclp_into_rtranclp)
qed

lemma mouse_alone_fine:
  assumes "mouse_alone ok now dev n pc e = (pc2, e2, cs)" and "Emergency \<notin> set cs"
    and "snEnding t \<noteq> Exited" and "mEvdev (snMachine t) = e"
    and "dev \<in> set (mouseDevs e)" and "\<forall>i\<in>devices e. hOpen (handle e i)"
  shows "(fine_step rnd table trim lower deflate inflate)\<^sup>*\<^sup>* (mouse_at s dev t pc)
    (mouse_at s dev (run_callbacks rnd table clock cs (set_cap e2 t)) pc2)"
  using assms
proof (induction n arbitrary: pc e cs t clock)
  case 0
  then show ?case by (simp add: set_cap_same)
next
  case (Suc n)
  obtain pc1 e1 cs1 where a: "mouse_action ok now dev pc e = (pc1, e1, cs1)" by (metis prod_cases3)
  obtain ds where d: "mouse_alone ok now dev n pc1 e1 = (pc2, e2, ds)" and cs: "cs = cs1 @ ds"
    using Suc.prems(1) a by (cases "mouse_alone ok now dev n pc1 e1") auto
  have em: "Emergency \<notin> set cs1" "Emergency \<notin> set ds" using Suc.prems(2) cs by auto
  obtain clock1 where c: "run_callbacks rnd table clock (cs1 @ ds) (set_cap e2 t) =
      run_callbacks rnd table clock1 ds (run_callbacks rnd table clock cs1 (set_cap e2 t))"
    using run_callbacks_append [OF em(1)] by blast
  let ?t = "run_callbacks rnd table clock cs1 (set_cap e1 t)"
  have f: "same_files e e1" by (rule mouse_action_files [OF a])
  have "fine_step rnd table trim lower deflate inflate (mouse_at s dev t pc) (mouse_at s dev ?t pc1)"
    using fine_step.mouse_act [of "mouse_at s dev t pc" dev ok now pc1 e1 cs1 rnd table trim lower deflate inflate clock]
      Suc.prems(3-6) a by (auto simp add: mouse_at_def gone_def)
  moreover have "(fine_step rnd table trim lower deflate inflate)\<^sup>*\<^sup>* (mouse_at s dev ?t pc1)
      (mouse_at s dev (run_callbacks rnd table clock1 ds (set_cap e2 ?t)) pc2)"
    using Suc.IH [OF d em(2), of ?t clock1] em(1) Suc.prems(3-6) f devices_files [OF f] by (simp add: same_files_def)
  moreover have "run_callbacks rnd table clock cs (set_cap e2 t) = run_callbacks rnd table clock1 ds (set_cap e2 ?t)"
    using c em(1) by (simp add: cs run_callbacks_set_cap)
  ultimately show ?case by (simp add: converse_rtranclp_into_rtranclp)
qed

section \<open>Events\<close>

lemma fresh_at: "kbd_at (fresh t) dev u KRead = fresh u" "mouse_at (fresh t) dev u MRead = fresh u"
  by (simp_all add: kbd_at_def mouse_at_def fresh_def fun_upd_idem)

text \<open>What the invariant says of a session in which every goroutine waits.\<close>

lemma fresh_invD:
  assumes "fine_inv rnd (fresh t)" and "snEnding t = Ongoing"
  shows "race_inv (mEvdev (snMachine t))" and "\<forall>i\<in>devices (mEvdev (snMachine t)). hOpen (handle (mEvdev (snMachine t)) i)"
    and "ufOpen (mouseFile (mVi (snMachine t)))" and "ufOpen (kbdFile (mVi (snMachine t)))"
  using assms by (simp_all add: fine_inv_def files_inv_def machine_inv_def fresh_def Let_def teardown_order)

lemma read_fresh:
  assumes "fine_inv rnd (fresh t)" and "snEnding t = Ongoing"
  shows "dev \<in> set (kbdDevs (mEvdev (snMachine t))) \<Longrightarrow>
      fine_step rnd table trim lower deflate inflate (fresh t) (kbd_at (fresh t) dev t (KEvent ev))"
    and "dev \<in> set (mouseDevs (mEvdev (snMachine t))) \<Longrightarrow>
      fine_step rnd table trim lower deflate inflate (fresh t) (mouse_at (fresh t) dev t (MEvent ev))"
proof -
  have o: "dev \<in> devices (mEvdev (snMachine t)) \<Longrightarrow> can_read (fresh t) dev"
    using fresh_invD(2) [OF assms] by (simp add: can_read_def fresh_def)
  show "dev \<in> set (kbdDevs (mEvdev (snMachine t))) \<Longrightarrow>
      fine_step rnd table trim lower deflate inflate (fresh t) (kbd_at (fresh t) dev t (KEvent ev))"
    using fine_step.kbd_read [of "fresh t" dev] o assms(2) by (simp add: devices_def fresh_def kbd_at_def)
  show "dev \<in> set (mouseDevs (mEvdev (snMachine t))) \<Longrightarrow>
      fine_step rnd table trim lower deflate inflate (fresh t) (mouse_at (fresh t) dev t (MEvent ev))"
    using fine_step.mouse_read [of "fresh t" dev] o assms(2) by (simp add: devices_def fresh_def mouse_at_def)
qed

lemma keyboard_atomic:
  assumes "fine_inv rnd (fresh t)" and "snEnding t = Ongoing" and "dev \<in> set (kbdDevs (mEvdev (snMachine t)))"
    and "set order = pressed_after ev (mEvdev (snMachine t))" and "distinct order"
    and "keyboard_loop_step trim lower ok order now dev ev (mEvdev (snMachine t)) = (e, cs)" and "Emergency \<notin> set cs"
  shows "(fine_step rnd table trim lower deflate inflate)\<^sup>*\<^sup>* (fresh t) (fresh (run_callbacks rnd table clock cs (set_cap e t)))"
proof -
  have a: "kbd_alone trim lower ok order now dev 5 (KEvent ev) (mEvdev (snMachine t)) = (KRead, e, cs)"
    using kbd_alone_event [of trim lower ok order now dev ev "mEvdev (snMachine t)"] assms(6) by simp
  have o: "order_fits order (KEvent ev) (mEvdev (snMachine t))" using assms(4) by simp
  have "snEnding t \<noteq> Exited" using assms(2) by simp
  from kbd_alone_fine [OF a assms(7,5) o this refl assms(3) fresh_invD(2) [OF assms(1,2)], of rnd table deflate inflate "fresh t" clock]
  show ?thesis
    unfolding fresh_at by (rule converse_rtranclp_into_rtranclp [rotated]) (rule read_fresh(1) [OF assms(1-3)])
qed

lemma mouse_atomic:
  assumes "fine_inv rnd (fresh t)" and "snEnding t = Ongoing" and "dev \<in> set (mouseDevs (mEvdev (snMachine t)))"
    and "mouse_loop_step ok now dev ev (mEvdev (snMachine t)) = (e, cs)"
  shows "(fine_step rnd table trim lower deflate inflate)\<^sup>*\<^sup>* (fresh t) (fresh (run_callbacks rnd table clock cs (set_cap e t)))"
    and "Emergency \<notin> set cs"
proof -
  show em: "Emergency \<notin> set cs" using assms(4)
    by (auto simp add: mouse_loop_step_def handleRemoteMouseEvent_def call_def Let_def split: if_splits)
  have a: "mouse_alone ok now dev 2 (MEvent ev) (mEvdev (snMachine t)) = (MRead, e, cs)"
    using mouse_alone_event [of ok now dev ev "mEvdev (snMachine t)"] assms(4) by simp
  have "snEnding t \<noteq> Exited" using assms(2) by simp
  from mouse_alone_fine [OF a em this refl assms(3) fresh_invD(2) [OF assms(1,2)], of rnd table trim lower deflate inflate "fresh t" clock]
  show "(fine_step rnd table trim lower deflate inflate)\<^sup>*\<^sup>* (fresh t) (fresh (run_callbacks rnd table clock cs (set_cap e t)))"
    unfolding fresh_at by (rule converse_rtranclp_into_rtranclp [rotated]) (rule read_fresh(2) [OF assms(1-3)])
qed

text \<open>The emergency call ends the process in the middle of the handler; what the handler would still
  do makes no difference.\<close>

lemma Ungrab_active: "Ungrab (e\<lparr>activeKbdDev := k\<rparr>) = Ungrab e"
proof -
  have u: "ungrab_device i (x\<lparr>activeKbdDev := k\<rparr>) = (ungrab_device i x)\<lparr>activeKbdDev := k\<rparr>" for i x
    by (simp add: ungrab_device_def set_grabbed_def)
  have "fold ungrab_device is (x\<lparr>activeKbdDev := k\<rparr>) = (fold ungrab_device is x)\<lparr>activeKbdDev := k\<rparr>" for "is" x
    by (induction "is" arbitrary: x) (simp_all add: u)
  then show ?thesis by (simp add: Ungrab_def Let_def resetPendingMouse_def)
qed

lemma emergency_step:
  assumes "keyboard_loop_step trim lower ok order now dev ev e = (e2, cs)" and "Emergency \<in> set cs"
  shows "evType ev = EV_KEY" and "evCode ev = 119" and "evValue ev = 1" and "OnEmergency \<in> ecOn e"
    and "\<exists>rest. cs = Emergency # rest" and "Evdev_Close e2 = Evdev_Close (e\<lparr>ecPressedKeys := pressed_after ev e\<rparr>)"
proof -
  have k: "evType ev = EV_KEY" "evValue ev \<noteq> 2" "\<not> isMouseButtonCode (evCode ev)"
    using assms by (auto simp add: keyboard_loop_step_def keyboard_mouse_button_def Let_def call_def
        split: if_splits option.splits)
  have s: "\<not> shortcut ev e" using assms by (auto simp add: keyboard_loop_step_eq [OF k] Let_def call_def Grab_def split: if_splits)
  with assms have p: "Emergency \<in> set (pause_call ev e)"
    by (auto simp add: keyboard_loop_step_eq [OF k] Let_def call_def split: if_splits)
  then show "evType ev = EV_KEY" "evCode ev = 119" "evValue ev = 1" "OnEmergency \<in> ecOn e"
    using k by (auto simp add: pause_call_def call_def split: if_splits)
  have q: "pause_call ev e = [Emergency]" using p by (auto simp add: pause_call_def call_def split: if_splits)
  have "\<exists>rest. cs = pause_call ev e @ rest" using assms s
    by (auto simp add: keyboard_loop_step_eq [OF k] Let_def split: if_splits)
  then show "\<exists>rest. cs = Emergency # rest" using q by simp
  have "e2 = e\<lparr>ecPressedKeys := pressed_after ev e\<rparr> \<or> e2 = e\<lparr>ecPressedKeys := pressed_after ev e, activeKbdDev := Some dev\<rparr>"
    using assms s by (auto simp add: keyboard_loop_step_eq [OF k] Let_def split: if_splits)
  then show "Evdev_Close e2 = Evdev_Close (e\<lparr>ecPressedKeys := pressed_after ev e\<rparr>)"
    using Ungrab_active [of "Some dev" "e\<lparr>ecPressedKeys := pressed_after ev e\<rparr>"] by (auto simp add: Evdev_Close_def)
qed

lemma emergency_atomic:
  assumes "fine_inv rnd (fresh t)" and "snEnding t = Ongoing" and "dev \<in> set (kbdDevs (mEvdev (snMachine t)))"
    and "keyboard_loop_step trim lower ok order now dev ev (mEvdev (snMachine t)) = (e, cs)" and "Emergency \<in> set cs"
  shows "\<exists>u. (fine_step rnd table trim lower deflate inflate)\<^sup>*\<^sup>* (fresh t) u \<and>
    fnSession u = run_callbacks rnd table clock cs (set_cap e t)"
proof -
  note s = emergency_step [OF assms(4,5)]
  let ?e = "mEvdev (snMachine t)"
  let ?e1 = "?e\<lparr>ecPressedKeys := pressed_after ev ?e\<rparr>"
  let ?a = "kbd_at (fresh t) dev (set_cap ?e1 t) (KTracked ev (IsRemote ?e) (activeKbdDev ?e))"
  let ?b = "kbd_at (fresh t) dev (run_callbacks rnd table (\<lambda>_. 0) [Emergency] (set_cap ?e1 t)) (KRest ev (IsRemote ?e) (activeKbdDev ?e))"
  obtain rest where cs: "cs = Emergency # rest" using s(5) by blast
  have k: "\<not> isMouseButtonCode (evCode ev)" using s(2) by (simp add: isMouseButtonCode_def)
  have 1: "fine_step rnd table trim lower deflate inflate (fresh t) (kbd_at (fresh t) dev t (KEvent ev))"
    by (rule read_fresh(1) [OF assms(1-3)])
  have 2: "fine_step rnd table trim lower deflate inflate (kbd_at (fresh t) dev t (KEvent ev)) ?a"
    using silent_act [of "kbd_at (fresh t) dev t (KEvent ev)" dev trim lower] assms(2,3) s(1-3) k
    by (simp add: kbd_at_def fresh_def)
  obtain order where o: "distinct order" "set order = pressed_after ev ?e"
    using finite_distinct_list [of "pressed_after ev ?e"] by auto
  have 3: "fine_step rnd table trim lower deflate inflate ?a ?b"
    using fine_step.kbd_act [of ?a dev order "\<lambda>_. False" trim lower now "KRest ev (IsRemote ?e) (activeKbdDev ?e)" ?e1 "[Emergency]"]
      assms(2,3) s(2-4) o by (simp add: kbd_at_def fresh_def call_def)
  have "run_callbacks rnd table clock cs (set_cap e t) = run_callbacks rnd table (\<lambda>_. 0) [Emergency] (set_cap ?e1 t)"
    unfolding cs using s(6) by (simp add: run_callbacks_def emergency_def stamped_def set_cap_def)
  with 1 2 3 show ?thesis by (intro exI [of _ ?b]) (simp add: kbd_at_def)
qed

section \<open>The cleanup\<close>

lemma close_all:
  assumes "fnPhase s = Closing" and "snEnding (fnSession s) \<noteq> Exited" and "fnLeft s = is"
  shows "\<exists>late. (fine_step rnd table trim lower deflate inflate)\<^sup>*\<^sup>* s
    (s\<lparr>fnSession := set_cap (fold close_device is (fnCap s)) (fnSession s), fnLeft := [], fnLate := late\<rparr>)"
  using assms
proof (induction "is" arbitrary: s)
  case Nil
  then have "s\<lparr>fnSession := set_cap (fold close_device [] (fnCap s)) (fnSession s), fnLeft := [], fnLate := fnLate s\<rparr> = s"
    by (simp add: set_cap_same)
  then show ?case by (metis rtranclp.rtrancl_refl)
next
  case (Cons i "is")
  let ?t = "s\<lparr>fnSession := set_cap (close_device i (fnCap s)) (fnSession s), fnLeft := is,
      fnLate := (if reading s i then insert i (fnLate s) else fnLate s)\<rparr>"
  have 1: "fine_step rnd table trim lower deflate inflate s ?t"
    by (rule fine_step.close_file [OF Cons.prems(2,1,3)])
  have "fnPhase ?t = Closing" "snEnding (fnSession ?t) \<noteq> Exited" "fnLeft ?t = is" using Cons.prems by simp_all
  from Cons.IH [OF this] 1 show ?case by (auto intro: converse_rtranclp_into_rtranclp)
qed

lemma cleanup_atomic:
  assumes "fine_inv rnd (fresh t)" and "snEnding t = Ongoing" and "distinct order" and "set order = pressedKeys (mVi (snMachine t))"
    and "cleanup kern1 kern2 order t = Some t2"
  shows "\<exists>u. (fine_step rnd table trim lower deflate inflate)\<^sup>*\<^sup>* (fresh t) u \<and> fnSession u = t2"
proof -
  let ?step = "fine_step rnd table trim lower deflate inflate"
  let ?e = "mEvdev (snMachine t)"
  let ?left = "mouseDevs ?e @ kbdDevs ?e"
  obtain cl where cl: "Clip_Stop (mClip (snMachine t)) = Some cl"
    and t2: "t2 = t\<lparr>snMachine := \<lparr>mVi = VirtualInput_Close kern1 kern2 order (mVi (snMachine t)), mEvdev = Evdev_Close ?e, mClip = cl\<rparr>,
      snEnding := CleanedUp\<rparr>"
    using assms(5) by (auto simp add: cleanup_def Let_def split: option.splits)
  let ?a = "(fresh t)\<lparr>fnPhase := Woken\<rparr>"
  let ?b = "?a\<lparr>fnSession := set_cap (Ungrab ?e) t, fnLeft := ?left, fnPhase := Closing\<rparr>"
  have 1: "?step (fresh t) ?a" by (rule fine_step.wake) (use assms(2) in \<open>simp_all add: fresh_def\<close>)
  have 2: "?step ?a ?b" using fine_step.close_capture [of ?a] assms(2) by (simp add: fresh_def)
  have ev: "fold close_device ?left (Ungrab ?e) = Evdev_Close ?e"
  proof -
    have "kbdDevs (fold close_device is x) = kbdDevs x" for "is" x by (induction "is" arbitrary: x) simp_all
    moreover have "mouseDevs (Ungrab ?e) = mouseDevs ?e" "kbdDevs (Ungrab ?e) = kbdDevs ?e"
      using Ungrab_local [OF race_invD(2,1,3) [OF fresh_invD(1) [OF assms(1,2)]]] by simp_all
    ultimately show ?thesis by (simp add: Evdev_Close_def Let_def)
  qed
  obtain late where 3: "?step\<^sup>*\<^sup>* ?b (?b\<lparr>fnSession := set_cap (Evdev_Close ?e) t, fnLeft := [], fnLate := late\<rparr>)"
    using close_all [of ?b ?left rnd table trim lower deflate inflate] assms(2) ev by auto
  let ?c = "?b\<lparr>fnSession := set_cap (Evdev_Close ?e) t, fnLeft := [], fnLate := late\<rparr>"
  let ?d = "?c\<lparr>fnPhase := ClipStopping\<rparr>"
  have 4: "?step ?c ?d" by (rule fine_step.closed_capture) (use assms(2) in simp_all)
  let ?f = "?d\<lparr>fnSession := (fnSession ?d)\<lparr>snMachine := (snMachine (fnSession ?d))\<lparr>mClip := cl\<rparr>\<rparr>, fnPhase := VirtualClosing\<rparr>"
  have 5: "?step ?d ?f" by (rule fine_step.stop_clipboard) (use assms(2) cl in simp_all)
  let ?g = "?f\<lparr>fnSession := (fnSession ?f)\<lparr>snMachine := (snMachine (fnSession ?f))\<lparr>mVi := ReleaseAllKeys order (fnVi ?f)\<rparr>\<rparr>, fnPhase := Destroying\<rparr>"
  have 6: "?step ?f ?g" by (rule fine_step.release_keys) (use assms(2-4) in simp_all)
  let ?h = "?g\<lparr>fnSession := (fnSession ?g)\<lparr>snMachine := (snMachine (fnSession ?g))\<lparr>mVi := destroy_virtual kern1 kern2 (fnVi ?g)\<rparr>,
      snEnding := CleanedUp\<rparr>, fnPhase := Finished\<rparr>"
  have 7: "?step ?g ?h" by (rule fine_step.destroy) (use assms(2) in simp_all)
  have "fnSession ?h = t2" by (simp add: t2 VirtualInput_Close_halves set_cap_def)
  moreover have "?step\<^sup>*\<^sup>* (fresh t) ?h"
    by (rule converse_rtranclp_into_rtranclp, rule 1, rule converse_rtranclp_into_rtranclp, rule 2, rule rtranclp_trans, rule 3,
        rule converse_rtranclp_into_rtranclp, rule 4, rule converse_rtranclp_into_rtranclp, rule 5,
        rule converse_rtranclp_into_rtranclp, rule 6, rule r_into_rtranclp, rule 7)
  ultimately show ?thesis by blast
qed

section \<open>All steps\<close>

lemma step_atomic:
  assumes "session_step rnd table trim lower deflate inflate s t" and "fine_inv rnd (fresh s)"
  shows "t = set_cap (Ungrab (mEvdev (snMachine s))) s \<or>
    (\<exists>u. (fine_step rnd table trim lower deflate inflate)\<^sup>*\<^sup>* (fresh s) u \<and> fnSession u = t \<and>
       (snEnding t = Ongoing \<longrightarrow> u = fresh t))"
  using assms
proof (induction rule: session_step.induct)
  case (input s cs e clock)
  have c: "s\<lparr>snMachine := (snMachine s)\<lparr>mEvdev := e\<rparr>\<rparr> = set_cap e s" by (simp add: set_cap_def)
  from input.hyps(2) show ?case
  proof cases
    case (mouse dev ok now ev)
    note m = mouse_atomic [OF input.prems input.hyps(1) mouse]
    show ?thesis unfolding c
      by (rule disjI2, rule exI [of _ "fresh (run_callbacks rnd table clock cs (set_cap e s))"], intro conjI, rule m(1))
        (simp_all add: fresh_def)
  next
    case (keyboard dev order ev ok now)
    show ?thesis unfolding c
    proof (cases "Emergency \<in> set cs")
      case True
      from emergency_atomic [OF input.prems input.hyps(1) keyboard(1,4) True, of table deflate inflate clock]
      obtain u where "(fine_step rnd table trim lower deflate inflate)\<^sup>*\<^sup>* (fresh s) u"
        "fnSession u = run_callbacks rnd table clock cs (set_cap e s)" by blast
      with True show "run_callbacks rnd table clock cs (set_cap e s) = set_cap (Ungrab (mEvdev (snMachine s))) s \<or>
          (\<exists>u. (fine_step rnd table trim lower deflate inflate)\<^sup>*\<^sup>* (fresh s) u \<and>
             fnSession u = run_callbacks rnd table clock cs (set_cap e s) \<and>
             (snEnding (run_callbacks rnd table clock cs (set_cap e s)) = Ongoing \<longrightarrow>
                u = fresh (run_callbacks rnd table clock cs (set_cap e s))))"
        by (intro disjI2 exI [of _ u]) simp
    next
      case False
      note k = keyboard_atomic [OF input.prems input.hyps(1) keyboard False]
      show "run_callbacks rnd table clock cs (set_cap e s) = set_cap (Ungrab (mEvdev (snMachine s))) s \<or>
          (\<exists>u. (fine_step rnd table trim lower deflate inflate)\<^sup>*\<^sup>* (fresh s) u \<and>
             fnSession u = run_callbacks rnd table clock cs (set_cap e s) \<and>
             (snEnding (run_callbacks rnd table clock cs (set_cap e s)) = Ongoing \<longrightarrow>
                u = fresh (run_callbacks rnd table clock cs (set_cap e s))))"
        by (rule disjI2, rule exI [of _ "fresh (run_callbacks rnd table clock cs (set_cap e s))"], intro conjI, rule k)
          (simp_all add: fresh_def)
    qed
  next
    case ungrab
    then show ?thesis unfolding c by simp
  qed
next
  case (packet s pkt c run os r m)
  note o = receive_packet_frame(3,4) [OF packet.hyps(3)] fresh_invD(3,4) [OF packet.prems packet.hyps(1)]
  have m: "m\<lparr>mVi := lose_writes (mVi (snMachine s)) (mVi m)\<rparr> = m" using o by simp
  have "fine_step rnd table trim lower deflate inflate (fresh s)
      (fresh (s\<lparr>snSender := (snSender s)\<lparr>ssClient := c\<rparr>, snReceiver := r, snMachine := m\<rparr>))"
    using fine_step.packet [of "fresh s" pkt c inflate run os r m] packet.hyps m by (simp add: fresh_def)
  then show ?case by (intro disjI2 exI conjI) (rule r_into_rtranclp, assumption, simp_all add: fresh_def)
next
  case (finish s order kern1 kern2 t)
  from cleanup_atomic [OF finish.prems finish.hyps] finish.hyps(4) show ?case
    by (auto simp add: cleanup_def Let_def split: option.splits)
next
  case (bad_packet s err c)
  have "fine_step rnd table trim lower deflate inflate (fresh s) (fresh (s\<lparr>snSender := (snSender s)\<lparr>ssClient := c\<rparr>\<rparr>))"
    using fine_step.bad_packet [of "fresh s" err c] bad_packet.hyps by (simp add: fresh_def)
  then show ?case by (intro disjI2 exI conjI) (rule r_into_rtranclp, assumption, simp_all add: fresh_def)
next
  case (jiggle s i clock)
  have "fine_step rnd table trim lower deflate inflate (fresh s) (fresh (s\<lparr>snSender :=
      send_list Client_Send IsConnected (stamped clock (fst (jigglerTick i (mEvdev (snMachine s))))) (snSender s)\<rparr>))"
    using fine_step.jiggle [of "fresh s" i] jiggle.hyps by (simp add: fresh_def)
  then show ?case by (intro disjI2 exI conjI) (rule r_into_rtranclp, assumption, simp_all add: fresh_def)
next
  case (heartbeat s now)
  have "fine_step rnd table trim lower deflate inflate (fresh s) (fresh (s\<lparr>snSender :=
      Sender_Send Client_Send IsConnected now Heartbeat PNil (snSender s)\<rparr>))"
    using fine_step.heartbeat [of "fresh s"] heartbeat.hyps by (simp add: fresh_def)
  then show ?case by (intro disjI2 exI conjI) (rule r_into_rtranclp, assumption, simp_all add: fresh_def)
next
  case (clipboard s run os r cl sends clock)
  have "fine_step rnd table trim lower deflate inflate (fresh s) (fresh (s\<lparr>snSender :=
      send_list Client_Send IsConnected (stamped clock sends) (snSender s), snMachine := (snMachine s)\<lparr>mClip := cl\<rparr>\<rparr>))"
    using fine_step.clipboard [of "fresh s" trim lower run os r cl sends deflate] clipboard.hyps by (simp add: fresh_def)
  then show ?case by (intro disjI2 exI conjI) (rule r_into_rtranclp, assumption, simp_all add: fresh_def)
qed

lemma session_step_ongoing: "session_step rnd table trim lower deflate inflate s t \<Longrightarrow> snEnding s = Ongoing"
  by (induction rule: session_step.induct) simp_all

lemma atomic_inv:
  assumes "(session_step rnd table trim lower deflate inflate)\<^sup>*\<^sup>* s0 s" and "fine_inv rnd (fresh s0)" and "snEnding s = Ongoing"
  shows "fine_inv rnd (fresh s)"
  using assms(1,3)
proof (induction rule: rtranclp_induct)
  case base
  then show ?case using assms(2) by simp
next
  case (step s t)
  have o: "snEnding s = Ongoing" by (rule session_step_ongoing [OF step.hyps(2)])
  then have i: "fine_inv rnd (fresh s)" by (rule step.IH)
  from step_atomic [OF step.hyps(2) i] show ?case
  proof
    assume t: "t = set_cap (Ungrab (mEvdev (snMachine s))) s"
    have r: "race_inv (fnCap (fresh s))" using i by (simp add: fine_inv_def)
    show ?thesis
      by (rule section_inv [OF i _ Ungrab_race_inv [OF r] Ungrab_files [OF same_files_refl], where cs = "[]" and
            kp = "fnKbd (fresh s)" and mp = "fnMouse (fresh s)"]) (use o in \<open>simp_all add: t fresh_def\<close>)
  next
    assume "\<exists>u. (fine_step rnd table trim lower deflate inflate)\<^sup>*\<^sup>* (fresh s) u \<and> fnSession u = t \<and>
      (snEnding t = Ongoing \<longrightarrow> u = fresh t)"
    then have "(fine_step rnd table trim lower deflate inflate)\<^sup>*\<^sup>* (fresh s) (fresh t)" using step.prems by auto
    then show ?thesis by (rule fine.run_inv [OF _ i])
  qed
qed

text \<open>C4: In every state that a session can reach, each step of \<open>session_step\<close> (an event with all the
  sections of its goroutine, a packet, the emergency exit, the whole cleanup) is a run of the
  fine-grained model in which no other goroutine comes in between, and which leaves every
  goroutine waiting again unless the session ends.  The one exception is the release of the
  devices out of nowhere, which \<open>session_step\<close> allows and only a packet causes in the finer model.\<close>

theorem session_refines:
  assumes "runSession rnd o1 o2 k1 k2 base glob nodes opens got cfg client = Inr s0" and "\<forall>x. rnd (rnd x) = rnd x"
    and "(session_step rnd table trim lower deflate inflate)\<^sup>*\<^sup>* s0 s"
    and "session_step rnd table trim lower deflate inflate s t"
  shows "t = set_cap (Ungrab (mEvdev (snMachine s))) s \<or>
    (\<exists>u. (fine_step rnd table trim lower deflate inflate)\<^sup>*\<^sup>* (fresh s) u \<and> fnSession u = t \<and>
       (snEnding t = Ongoing \<longrightarrow> u = fresh t))"
proof -
  have "fine_inv rnd (fresh s)"
    by (rule atomic_inv [OF assms(3) fresh_inv [OF assms(1,2)] session_step_ongoing [OF assms(4)]])
  from step_atomic [OF assms(4) this] show ?thesis .
qed

theorem session_refines_witness:
  "\<exists>s t. runSession (\<lambda>x. x) True True (\<lambda>_. True) (\<lambda>_. True) (\<lambda>p. p) (Some [[1], [2], [3]]) two_keyboards (\<lambda>_. True) (Inr [])
      sample_config sample_client = Inr s \<and>
     session_step (\<lambda>x. x) (LinuxToVK VKToLinux_table) id id toy_deflate toy_inflate s t \<and> snEnding t = CleanedUp \<and>
     (\<exists>u. (fine_step (\<lambda>x. x) (LinuxToVK VKToLinux_table) id id toy_deflate toy_inflate)\<^sup>*\<^sup>* (fresh s) u \<and> fnSession u = t)"
proof -
  obtain s where s: "runSession (\<lambda>x. x) True True (\<lambda>_. True) (\<lambda>_. True) (\<lambda>p. p) (Some [[1], [2], [3]]) two_keyboards (\<lambda>_. True) (Inr [])
      sample_config sample_client = Inr s" and o: "snEnding s = Ongoing" using two_keyboards_session by blast
  have i: "session_inv (\<lambda>x. x) s" using runSession_inv [OF s] by simp
  obtain order where r: "distinct order" "set order = pressedKeys (mVi (snMachine s))"
    using finite_distinct_list [of "pressedKeys (mVi (snMachine s))"] by auto
  obtain t where t: "cleanup (\<lambda>_. True) (\<lambda>_. True) order s = Some t" "snEnding t = CleanedUp"
    using cleanup_total [OF i o] by blast
  have st: "session_step (\<lambda>x. x) (LinuxToVK VKToLinux_table) id id toy_deflate toy_inflate s t"
    by (rule session_step.finish [OF o r t(1)])
  have "t \<noteq> set_cap (Ungrab (mEvdev (snMachine s))) s"
  proof
    assume "t = set_cap (Ungrab (mEvdev (snMachine s))) s"
    then have "snEnding t = snEnding s" by simp
    with t(2) o show False by simp
  qed
  with session_refines [OF s _ rtranclp.rtrancl_refl st] s st t(2) show ?thesis by auto
qed

end
