(* ===== verification/Ioctl.thy ===== *)
theory Ioctl
  imports Evdev Uinput
begin

text \<open>
  The numbers of the kernel requests in \<open>input/evdev.go\<close> and \<open>input/uinput.go\<close>, and the structs that
  go with them byte by byte.  A request number has the number of bytes that the kernel copies in
  its bits 16 to 29 and the direction in the two bits above: what the program hands over must be
  as long as the number says.
\<close>

section \<open>Reading from an event device\<close>

abbreviation (input) EVIOCGRAB :: u64 where "EVIOCGRAB \<equiv> 0x40044590"

definition eviocgname :: "u64 \<Rightarrow> u64" where
  "eviocgname len = push_bit 30 2 OR push_bit 16 len OR push_bit 8 0x45 OR 0x06"

definition eviocgphys :: "u64 \<Rightarrow> u64" where
  "eviocgphys len = push_bit 30 2 OR push_bit 16 len OR push_bit 8 0x45 OR 0x07"

definition eviocgbit :: "u64 \<Rightarrow> u64 \<Rightarrow> u64" where
  "eviocgbit ev len = push_bit 30 2 OR push_bit 16 len OR push_bit 8 0x45 OR (0x20 + ev)"

section \<open>Setting up a virtual device\<close>

record inputID =
  Bustype :: u16
  Vendor :: u16
  Product :: u16
  Version :: u16

text \<open>\<open>Name\<close> is an array of 80 bytes.\<close>

record uinputSetup =
  setupID :: inputID
  setupName :: bytes

record inputAbsinfo =
  absValue :: i32
  Minimum :: i32
  Maximum :: i32
  Fuzz :: i32
  Flat :: i32
  Resolution :: i32

record uinputAbsSetup =
  absCode :: u16
  Absinfo :: inputAbsinfo

text \<open>The bytes of the structs, with the blank fields.\<close>

definition id_bytes :: "inputID \<Rightarrow> bytes" where
  "id_bytes d = le 2 (Bustype d) @ le 2 (Vendor d) @ le 2 (Product d) @ le 2 (Version d)"

definition setup_bytes :: "uinputSetup \<Rightarrow> bytes" where
  "setup_bytes s = id_bytes (setupID s) @ setupName s @ replicate 4 0"

definition absinfo_bytes :: "inputAbsinfo \<Rightarrow> bytes" where
  "absinfo_bytes a = le 4 (absValue a) @ le 4 (Minimum a) @ le 4 (Maximum a) @ le 4 (Fuzz a) @ le 4 (Flat a) @ le 4 (Resolution a)"

definition abs_setup_bytes :: "uinputAbsSetup \<Rightarrow> bytes" where
  "abs_setup_bytes s = le 2 (absCode s) @ replicate 2 0 @ absinfo_bytes (Absinfo s)"

text \<open>The struct that \<open>setupMouse\<close>, \<open>setupKeyboard\<close> and \<open>setupAbsoluteAxes\<close> fill for a request.\<close>

definition make_setup :: "u16 \<Rightarrow> u16 \<Rightarrow> u16 \<Rightarrow> u16 \<Rightarrow> gostring \<Rightarrow> uinputSetup" where
  "make_setup bus vendor product ver name =
     \<lparr>setupID = \<lparr>Bustype = bus, Vendor = vendor, Product = product, Version = ver\<rparr>,
      setupName = copy_into 0 80 name (replicate 80 0)\<rparr>"

definition make_abs_setup :: "u16 \<Rightarrow> i32 \<Rightarrow> uinputAbsSetup" where
  "make_abs_setup code m =
     \<lparr>absCode = code,
      Absinfo = \<lparr>absValue = 0, Minimum = 0, Maximum = m, Fuzz = 0, Flat = 0, Resolution = 0\<rparr>\<rparr>"

fun request_code :: "ioctl_req \<Rightarrow> u64" where
  "request_code (UI_SET_EVBIT v) = 0x40045564"
| "request_code (UI_SET_KEYBIT v) = 0x40045565"
| "request_code (UI_SET_RELBIT v) = 0x40045566"
| "request_code (UI_SET_ABSBIT v) = 0x40045567"
| "request_code UI_DEV_CREATE = 0x5501"
| "request_code UI_DEV_DESTROY = 0x5502"
| "request_code (UI_DEV_SETUP b v p r n) = 0x405c5503"
| "request_code (UI_ABS_SETUP c m) = 0x401c5504"

text \<open>What the third argument of the request points to; the other requests have a value there.\<close>

fun request_struct :: "ioctl_req \<Rightarrow> bytes option" where
  "request_struct (UI_DEV_SETUP b v p r n) = Some (setup_bytes (make_setup b v p r n))"
| "request_struct (UI_ABS_SETUP c m) = Some (abs_setup_bytes (make_abs_setup c m))"
| "request_struct r = None"

section \<open>What the kernel makes of it\<close>

definition size_field :: "u64 \<Rightarrow> nat" where
  "size_field req = unat (take_bit 14 (drop_bit 16 req))"

definition direction_field :: "u64 \<Rightarrow> u64" where
  "direction_field req = drop_bit 30 req"

definition number_field :: "u64 \<Rightarrow> u64" where
  "number_field req = take_bit 8 req"

text \<open>The kernel's reading of \<open>struct uinput_setup\<close> and \<open>struct uinput_abs_setup\<close>.\<close>

definition kernel_product :: "bytes \<Rightarrow> u16 \<times> u16 \<times> u16 \<times> u16" where
  "kernel_product bs = (unle (gosub 0 2 bs), unle (gosub 2 4 bs), unle (gosub 4 6 bs), unle (gosub 6 8 bs))"

definition kernel_name :: "bytes \<Rightarrow> bytes" where
  "kernel_name bs = takeWhile (\<lambda>b. b \<noteq> 0) (gosub 8 88 bs)"

definition kernel_axis :: "bytes \<Rightarrow> u16 \<times> i32 \<times> i32" where
  "kernel_axis bs = (unle (gosub 0 2 bs), unle (gosub 8 12 bs), unle (gosub 12 16 bs))"

section \<open>Lemmas\<close>

lemma gosub_append:
  "b \<le> length xs \<Longrightarrow> gosub a b (xs @ ys) = gosub a b xs"
  "length xs \<le> a \<Longrightarrow> gosub a b (xs @ ys) = gosub (a - length xs) (b - length xs) ys"
  by (auto simp add: gosub_def)

lemma gosub_all: "length xs = b \<Longrightarrow> gosub 0 b xs = xs"
  by (simp add: gosub_def)

lemma setup_read:
  assumes "length name \<le> 80" and "0 \<notin> set name"
  shows "length (setup_bytes (make_setup b v p r name)) = 92"
    and "kernel_product (setup_bytes (make_setup b v p r name)) = (b, v, p, r)"
    and "kernel_name (setup_bytes (make_setup b v p r name)) = name"
proof -
  let ?n = "copy_into 0 80 name (replicate 80 0)"
  have l: "length ?n = 80" using assms(1) by (simp add: copy_into_def)
  have n: "?n = name @ replicate (80 - length name) 0" using assms(1) by (simp add: copy_into_def)
  show "length (setup_bytes (make_setup b v p r name)) = 92"
    using l by (simp add: setup_bytes_def make_setup_def id_bytes_def)
  show "kernel_product (setup_bytes (make_setup b v p r name)) = (b, v, p, r)"
    by (simp add: kernel_product_def setup_bytes_def make_setup_def id_bytes_def gosub_append gosub_all unle_le_exact)
  have "gosub 8 88 (setup_bytes (make_setup b v p r name)) = ?n"
    using l by (simp add: setup_bytes_def make_setup_def id_bytes_def gosub_append gosub_all)
  moreover have "takeWhile (\<lambda>b. b \<noteq> 0) (name @ replicate k 0) = name" for k
    using assms(2) by (cases k) (auto simp add: takeWhile_append takeWhile_eq_all_conv)
  ultimately show "kernel_name (setup_bytes (make_setup b v p r name)) = name" by (simp add: kernel_name_def n)
qed

lemma abs_setup_read:
  "length (abs_setup_bytes (make_abs_setup c m)) = 28"
  "kernel_axis (abs_setup_bytes (make_abs_setup c m)) = (c, 0, m)"
  by (simp_all add: kernel_axis_def abs_setup_bytes_def make_abs_setup_def absinfo_bytes_def gosub_append gosub_all unle_le_exact)

text \<open>The fields of a number do not overlap while the length fits its field.\<close>

lemma number_fields:
  fixes len nr :: u64
  assumes "unat len < 2 ^ 14" and "unat nr < 2 ^ 8"
  defines "req \<equiv> push_bit 30 2 OR push_bit 16 len OR push_bit 8 0x45 OR nr"
  shows "size_field req = unat len" and "direction_field req = 2" and "number_field req = nr"
proof -
  have l: "\<not> bit len k" if "14 \<le> k" for k using assms(1) that
    by (metis bit_take_bit_iff leD take_bit_nat_eq_self_iff unsigned_take_bit_eq word_unat_eq_iff)
  have n: "\<not> bit nr k" if "8 \<le> k" for k using assms(2) that
    by (metis bit_take_bit_iff leD take_bit_nat_eq_self_iff unsigned_take_bit_eq word_unat_eq_iff)
  have "take_bit 14 (drop_bit 16 req) = len"
    by (rule bit_word_eqI) (use l n in \<open>force simp add: req_def bit_simps not_le [symmetric]\<close>)
  then show "size_field req = unat len" by (simp add: size_field_def)
  show "direction_field req = 2"
    by (rule bit_word_eqI) (auto simp add: direction_field_def req_def bit_simps l n)
  show "number_field req = nr"
    by (rule bit_word_eqI) (auto simp add: number_field_def req_def bit_simps l n)
qed

section \<open>Properties\<close>

text \<open>C32: What is handed to the kernel is as long as the request number says, so that the kernel reads and
  writes no byte outside of it, and says what was meant: the structs of the virtual devices give
  back the ids, a name that fits, and the range of an axis; the numbers for reading an event
  device, for a buffer shorter than 16384 bytes, have that length, the direction of a read and
  the request of the kernel's list.\<close>

theorem request_layout:
  assumes "length name \<le> 80" and "0 \<notin> set name" and "unat len < 2 ^ 14" and "unat ev < 32"
  shows "(\<forall>r\<in>{UI_DEV_SETUP b v p n name, UI_ABS_SETUP c m}.
       map_option length (request_struct r) = Some (size_field (request_code r))) \<and>
    kernel_product (the (request_struct (UI_DEV_SETUP b v p n name))) = (b, v, p, n) \<and>
    kernel_name (the (request_struct (UI_DEV_SETUP b v p n name))) = name \<and>
    kernel_axis (the (request_struct (UI_ABS_SETUP c m))) = (c, 0, m) \<and>
    (\<forall>(req, nr)\<in>{(eviocgname len, 6), (eviocgphys len, 7), (eviocgbit ev len, 32 + ev)}.
       size_field req = unat len \<and> direction_field req = 2 \<and> number_field req = nr)"
proof -
  have "size_field 0x405c5503 = 92" "size_field 0x401c5504 = 28" by (simp_all add: size_field_def)
  moreover have n: "unat (0x06 :: u64) < 2 ^ 8" "unat (0x07 :: u64) < 2 ^ 8" "unat (0x20 + ev) < 2 ^ 8"
    using assms(4) by (simp_all add: unat_plus_if')
  note number_fields [OF assms(3) n(1), folded eviocgname_def] number_fields [OF assms(3) n(2), folded eviocgphys_def]
    number_fields [OF assms(3) n(3), folded eviocgbit_def]
  ultimately show ?thesis using setup_read [OF assms(1,2)] abs_setup_read by simp
qed

theorem request_layout_witness:
  "kernel_name (setup_bytes (make_setup 3 0x1234 0x5679 1 (gostr ''MWB Virtual Keyboard''))) = gostr ''MWB Virtual Keyboard'' \<and>
   size_field (eviocgbit 1 64) = 64"
proof -
  have "length (gostr ''MWB Virtual Keyboard'') \<le> 80" "0 \<notin> set (gostr ''MWB Virtual Keyboard'')"
    by (simp_all add: gostr_def)
  from request_layout [OF this, of 64 1] show ?thesis by simp
qed

end
