(* ===== verification/WindowsStubs.thy ===== *)
theory WindowsStubs
  imports Evdev
begin

text \<open>
  \<open>input/windows_stubs.go\<close>: what takes the place of the input devices on Windows.  No operation
  does anything and none fails, so a program on it never leaves local mode and forwards nothing.
\<close>

section \<open>The virtual devices\<close>

type_synonym StubVirtualInput = unit

datatype stub_vi_op = StubViClose | StubInjectMouse i32 i32 i32 i32 | StubInjectKeyboard i32 i32 | StubReleaseAllKeys

definition Stub_NewVirtualInput :: "u64 \<Rightarrow> u64 \<Rightarrow> gostring + StubVirtualInput" where
  "Stub_NewVirtualInput screenW screenH = Inr ()"

fun stub_vi :: "stub_vi_op \<Rightarrow> StubVirtualInput \<Rightarrow> StubVirtualInput" where
  "stub_vi StubViClose vi = vi"
| "stub_vi (StubInjectMouse x y wheel flags) vi = vi"
| "stub_vi (StubInjectKeyboard vk flags) vi = vi"
| "stub_vi StubReleaseAllKeys vi = vi"

section \<open>The capture\<close>

text \<open>The struct has no \<open>OnEmergency\<close>.\<close>

datatype stub_callback =
  StubOnLocalCursorMove | StubOnEdgeHit | StubOnReturn | StubOnMouseEvent | StubOnButtonEvent | StubOnKeyEvent

record StubCapture =
  stubIsRemote :: bool
  stubOn :: "stub_callback set"

definition Stub_NewEvdevCapture :: "u64 \<Rightarrow> u64 \<Rightarrow> gostring \<Rightarrow> StubCapture" where
  "Stub_NewEvdevCapture screenW screenH edge = \<lparr>stubIsRemote = False, stubOn = {}\<rparr>"

datatype stub_op =
    StubSet "stub_callback set"
  | StubOpen gostring gostring
  | StubDiscoverAndOpen
  | StubGrab
  | StubUngrab
  | StubClose
  | StubRunMouseLoop
  | StubRunKeyboardLoop
  | StubSwitchToLocal

text \<open>The error, the calls that are made, and the capture after an operation; the first one is the
  assignment to the callback fields.\<close>

fun stub_capture :: "stub_op \<Rightarrow> StubCapture \<Rightarrow> gostring option \<times> stub_callback list \<times> StubCapture" where
  "stub_capture (StubSet f) e = (None, [], e\<lparr>stubOn := f\<rparr>)"
| "stub_capture (StubOpen mouse kbd) e = (None, [], e)"
| "stub_capture StubDiscoverAndOpen e = (None, [], e)"
| "stub_capture StubGrab e = (None, [], e)"
| "stub_capture StubUngrab e = (None, [], e)"
| "stub_capture StubClose e = (None, [], e)"
| "stub_capture StubRunMouseLoop e = (None, [], e)"
| "stub_capture StubRunKeyboardLoop e = (None, [], e)"
| "stub_capture StubSwitchToLocal e = (None, [], e)"

definition Stub_IsRemoteMode :: "StubCapture \<Rightarrow> bool" where
  "Stub_IsRemoteMode e = stubIsRemote e"

definition Stub_FindMouseDevice :: "gostring + gostring" where
  "Stub_FindMouseDevice = Inr (gostr ''dummy-mouse'')"

definition Stub_FindKeyboardDevice :: "gostring + gostring" where
  "Stub_FindKeyboardDevice = Inr (gostr ''dummy-kbd'')"

definition Stub_ListDevices :: "gostring list" where
  "Stub_ListDevices = []"

text \<open>Through any operations the capture stays in local mode, without an error or a call.\<close>

fun stub_run :: "stub_op list \<Rightarrow> StubCapture \<Rightarrow> gostring list \<times> stub_callback list \<times> StubCapture" where
  "stub_run [] e = ([], [], e)"
| "stub_run (p # ps) e =
    (let (err, cs, e) = stub_capture p e; (errs, ds, e) = stub_run ps e
     in ((case err of None \<Rightarrow> [] | Some x \<Rightarrow> [x]) @ errs, cs @ ds, e))"

lemma stub_stays_local:
  "stub_run ps (Stub_NewEvdevCapture w h edge) = (errs, cs, e) \<Longrightarrow> errs = [] \<and> cs = [] \<and> \<not> Stub_IsRemoteMode e"
proof -
  have "stub_run ps e0 = (errs, cs, e) \<Longrightarrow> errs = [] \<and> cs = [] \<and> stubIsRemote e = stubIsRemote e0" for e0
  proof (induction ps arbitrary: e0 errs cs)
    case (Cons p ps)
    obtain e1 where "stub_capture p e0 = (None, [], e1)" "stubIsRemote e1 = stubIsRemote e0" by (cases p) simp_all
    with Cons.IH [of e1] Cons.prems show ?case by (simp add: Let_def split: prod.splits)
  qed simp
  then show "stub_run ps (Stub_NewEvdevCapture w h edge) = (errs, cs, e) \<Longrightarrow> errs = [] \<and> cs = [] \<and> \<not> Stub_IsRemoteMode e"
    by (fastforce simp add: Stub_NewEvdevCapture_def Stub_IsRemoteMode_def)
qed

end
